(* ===== verification/Buzz_Prelude.thy ===== *)
theory Buzz_Prelude
  imports Main "HOL-Library.Sublist" "HOL-Library.List_Lexorder" "HOL-Library.Char_ord"
    "HOL-Library.Multiset" "HOL-Library.Code_Target_Nat"
begin

text \<open>
  The prelude of the development: what the components share and what no component owns.
  It models the parts of the Rust standard library the sources use (iterator adaptors,
  the error operator, \<open>strip_prefix\<close>, \<open>str::lines\<close>, \<open>str::trim\<close>,
  decimal printing and parsing, stable sorting by a comparator, saturating arithmetic) and
  proves the generic lemmas the component theories rest on.

  A Rust string is a list of bytes (\<^typ>\<open>string\<close>, UTF-8 encoded), so \<open>length\<close>
  is \<open>str::len\<close> and the lexicographic order on \<^typ>\<open>string\<close> is \<open>str::cmp\<close>.
  A fallible function returns \<open>error + value\<close>, the error on the left.
  Unsigned machine integers are natural numbers; where the code saturates or wraps, the
  bound is written out.
\<close>

named_theorems result_simps \<open>equations for the result type and the error operator\<close>

section \<open>Results and the error operator\<close>

text \<open>\<open>and_then m f\<close> is \<open>let x = m?; f(x)\<close>: the first error is returned.\<close>

definition and_then :: "'e + 'a \<Rightarrow> ('a \<Rightarrow> 'e + 'b) \<Rightarrow> 'e + 'b" where
  "and_then m f = (case m of Inl e \<Rightarrow> Inl e | Inr a \<Rightarrow> f a)"

definition ok_or :: "'e \<Rightarrow> 'a option \<Rightarrow> 'e + 'a" where
  "ok_or e m = (case m of None \<Rightarrow> Inl e | Some a \<Rightarrow> Inr a)"

definition require :: "bool \<Rightarrow> 'e \<Rightarrow> 'e + unit" where
  "require b e = (if b then Inr () else Inl e)"

definition map_err :: "('e \<Rightarrow> 'f) \<Rightarrow> 'e + 'a \<Rightarrow> 'f + 'a" where
  "map_err f m = (case m of Inl e \<Rightarrow> Inl (f e) | Inr a \<Rightarrow> Inr a)"

definition is_ok :: "'e + 'a \<Rightarrow> bool" where
  "is_ok m = (case m of Inl _ \<Rightarrow> False | Inr _ \<Rightarrow> True)"

definition ok :: "'e + 'a \<Rightarrow> 'a option" where
  "ok m = (case m of Inl _ \<Rightarrow> None | Inr a \<Rightarrow> Some a)"

text \<open>
  The error operator in code that also changes a state: the state reached so far is kept when
  the error is returned.
\<close>

definition try_step :: "'s \<times> ('e + 'a) \<Rightarrow> ('s \<Rightarrow> 'a \<Rightarrow> 's \<times> ('e + 'b)) \<Rightarrow> 's \<times> ('e + 'b)" where
  "try_step m f = (case m of (s, Inl e) \<Rightarrow> (s, Inl e) | (s, Inr a) \<Rightarrow> f s a)"

text \<open>\<open>iter.collect::<Result<Vec<_>, _>>()\<close>: the values in order, or the first error.\<close>

fun collect_results :: "('e + 'a) list \<Rightarrow> 'e + 'a list" where
  "collect_results [] = Inr []"
| "collect_results (r # rs) =
     and_then r (\<lambda>a. and_then (collect_results rs) (\<lambda>as. Inr (a # as)))"

lemma and_then_simps [simp, result_simps]:
  "and_then (Inl e) f = Inl e" "and_then (Inr a) f = f a"
  by (simp_all add: and_then_def)

lemma try_step_simps [simp, result_simps]:
  "try_step (s, Inl e) f = (s, Inl e)" "try_step (s, Inr a) f = f s a"
  by (simp_all add: try_step_def)

lemma try_step_cases:
  assumes "try_step m f = (s', r)"
  obtains (failed) e where "m = (s', Inl e)" "r = Inl e"
  | (passed) s a where "m = (s, Inr a)" "f s a = (s', r)"
  using assms by (auto simp: try_step_def split: prod.splits sum.splits)

lemma ok_or_simps [simp, result_simps]: "ok_or e None = Inl e" "ok_or e (Some a) = Inr a"
  by (simp_all add: ok_or_def)

lemma require_simps [simp, result_simps]: "require True e = Inr ()" "require False e = Inl e"
  by (simp_all add: require_def)

lemma map_err_simps [simp, result_simps]:
  "map_err f (Inl e) = Inl (f e)" "map_err f (Inr a) = Inr a"
  by (simp_all add: map_err_def)

lemma is_ok_simps [simp, result_simps]: "\<not> is_ok (Inl e)" "is_ok (Inr a)"
  by (simp_all add: is_ok_def)

lemma ok_simps [simp, result_simps]: "ok (Inl e) = None" "ok (Inr a) = Some a"
  by (simp_all add: ok_def)

lemma and_then_eq_Inr [result_simps]:
  "and_then m f = Inr b \<longleftrightarrow> (\<exists>a. m = Inr a \<and> f a = Inr b)"
  by (cases m) auto

lemma ok_or_eq_Inr [result_simps]: "ok_or e m = Inr a \<longleftrightarrow> m = Some a"
  by (cases m) auto

lemma require_eq_Inr [result_simps]: "require b e = Inr u \<longleftrightarrow> b"
  by (cases b) auto

lemma map_err_eq_Inr [result_simps]: "map_err f m = Inr a \<longleftrightarrow> m = Inr a"
  by (cases m) auto

lemma ok_eq_Some [result_simps]: "ok m = Some a \<longleftrightarrow> m = Inr a"
  by (cases m) auto

lemma is_ok_iff [result_simps]: "is_ok m \<longleftrightarrow> (\<exists>a. m = Inr a)"
  by (cases m) auto

lemma collect_results_eq_Inr:
  "collect_results rs = Inr xs \<longleftrightarrow> rs = map Inr xs"
  by (induction rs arbitrary: xs) (auto simp: and_then_eq_Inr Cons_eq_map_conv)

section \<open>Iterators and slices\<close>

text \<open>\<open>iter.find_map(f)\<close>, \<open>slice.get(i)\<close> and \<open>iter.position(p)\<close>.\<close>

fun find_map :: "('a \<Rightarrow> 'b option) \<Rightarrow> 'a list \<Rightarrow> 'b option" where
  "find_map f [] = None"
| "find_map f (x # xs) = (case f x of None \<Rightarrow> find_map f xs | Some y \<Rightarrow> Some y)"

definition get_at :: "'a list \<Rightarrow> nat \<Rightarrow> 'a option" where
  "get_at xs i = (if i < length xs then Some (xs ! i) else None)"

fun find_index :: "('a \<Rightarrow> bool) \<Rightarrow> 'a list \<Rightarrow> nat option" where
  "find_index P [] = None"
| "find_index P (x # xs) = (if P x then Some 0 else map_option Suc (find_index P xs))"

definition first_of :: "'a list \<Rightarrow> 'a option" where
  "first_of xs = (case xs of [] \<Rightarrow> None | x # _ \<Rightarrow> Some x)"

definition last_of :: "'a list \<Rightarrow> 'a option" where
  "last_of xs = (if xs = [] then None else Some (last xs))"

lemma get_at_simps [simp]:
  "get_at [] i = None" "get_at (x # xs) 0 = Some x" "get_at (x # xs) (Suc i) = get_at xs i"
  by (simp_all add: get_at_def)

lemma first_of_simps [simp]: "first_of [] = None" "first_of (x # xs) = Some x"
  by (simp_all add: first_of_def)

lemma find_map_Some: "find_map f xs = Some y \<Longrightarrow> \<exists>x \<in> set xs. f x = Some y"
  by (induction xs) (auto split: option.splits)

lemma find_map_None: "find_map f xs = None \<longleftrightarrow> (\<forall>x \<in> set xs. f x = None)"
  by (induction xs) (auto split: option.splits)

lemma find_index_None: "find_index P xs = None \<longleftrightarrow> (\<forall>x \<in> set xs. \<not> P x)"
  by (induction xs) auto

lemma find_index_Some:
  "find_index P xs = Some i \<Longrightarrow> i < length xs \<and> P (xs ! i) \<and> find P xs = Some (xs ! i)"
proof (induction xs arbitrary: i)
  case (Cons x xs)
  then show ?case by (cases i) (auto split: if_splits)
qed simp

lemma find_Some_in: "find P xs = Some x \<Longrightarrow> x \<in> set xs \<and> P x"
  by (auto simp: find_Some_iff in_set_conv_nth)

lemma find_of_map: "find P (map f xs) = map_option f (find (\<lambda>x. P (f x)) xs)"
  by (induction xs) auto

lemma find_index_of_map: "find_index P (map f xs) = find_index (\<lambda>x. P (f x)) xs"
  by (induction xs) auto

lemma map_filter_set: "set (List.map_filter f xs) = {y. \<exists>x \<in> set xs. f x = Some y}"
  by (force simp: List.map_filter_def)

lemma mem_take: "x \<in> set (take n xs) \<Longrightarrow> x \<in> set xs"
  by (rule in_set_takeD)

section \<open>Stable sorting by a comparator\<close>

text \<open>
  \<open>slice.sort_by(cmp)\<close> is stable. \<open>before x y\<close> stands for \<open>cmp(x, y) != Greater\<close>:
  equal elements keep the order they had.
\<close>

fun insert_by :: "('a \<Rightarrow> 'a \<Rightarrow> bool) \<Rightarrow> 'a \<Rightarrow> 'a list \<Rightarrow> 'a list" where
  "insert_by before x [] = [x]"
| "insert_by before x (y # ys) =
     (if before x y then x # y # ys else y # insert_by before x ys)"

fun sort_by :: "('a \<Rightarrow> 'a \<Rightarrow> bool) \<Rightarrow> 'a list \<Rightarrow> 'a list" where
  "sort_by before [] = []"
| "sort_by before (x # xs) = insert_by before x (sort_by before xs)"

lemma mset_insert_by [simp]: "mset (insert_by before x xs) = add_mset x (mset xs)"
  by (induction xs) auto

lemma mset_sort_by [simp]: "mset (sort_by before xs) = mset xs"
  by (induction xs) auto

lemma set_insert_by [simp]: "set (insert_by before x xs) = insert x (set xs)"
  by (induction xs) auto

lemma set_sort_by [simp]: "set (sort_by before xs) = set xs"
  by (induction xs) auto

lemma length_sort_by [simp]: "length (sort_by before xs) = length xs"
  by (metis mset_sort_by size_mset)

lemma distinct_sort_by [simp]: "distinct (sort_by before xs) = distinct xs"
  by (metis mset_sort_by mset_eq_imp_distinct_iff)

lemma distinct_map_sort_by [simp]: "distinct (map f (sort_by before xs)) = distinct (map f xs)"
  by (metis mset_map mset_sort_by mset_eq_imp_distinct_iff)

text \<open>The contract of a comparator, and what sorting by one gives.\<close>

locale comparator_order =
  fixes before :: "'a \<Rightarrow> 'a \<Rightarrow> bool"
  assumes before_total: "before x y \<or> before y x"
    and before_trans: "before x y \<Longrightarrow> before y z \<Longrightarrow> before x z"
begin

lemma sorted_insert_by:
  "sorted_wrt before xs \<Longrightarrow> sorted_wrt before (insert_by before x xs)"
proof (induction xs)
  case (Cons y ys)
  show ?case
  proof (cases "before x y")
    case True
    with Cons.prems show ?thesis by (auto intro: before_trans)
  next
    case False
    then have "before y x" using before_total by blast
    with False Cons show ?thesis by auto
  qed
qed simp

lemma sorted_sort_by: "sorted_wrt before (sort_by before xs)"
  by (induction xs) (auto intro: sorted_insert_by)

end

lemma filter_sorted_wrt: "sorted_wrt R xs \<Longrightarrow> sorted_wrt R (filter P xs)"
  by (rule sorted_wrt_filter)

text \<open>
  In a strictly sorted list the elements that come after a member are exactly the list's
  tail behind it: what makes a cursor resume where a page ended.
\<close>

lemma strictly_sorted_after:
  assumes "sorted_wrt R (xs @ c # ys)"
    and irrefl: "\<not> R c c"
    and asym: "\<And>x. x \<in> set xs \<Longrightarrow> R x c \<Longrightarrow> \<not> R c x"
  shows "filter (R c) (xs @ c # ys) = ys"
proof -
  have "filter (R c) xs = []"
    using assms(1) asym by (auto simp: filter_empty_conv sorted_wrt_append)
  moreover have "filter (R c) ys = ys"
    using assms(1) by (auto simp: filter_id_conv sorted_wrt_append)
  ultimately show ?thesis using irrefl by simp
qed

lemma sorted_wrt_strict_distinct:
  "(\<And>x. \<not> R x x) \<Longrightarrow> sorted_wrt R xs \<Longrightarrow> distinct xs"
  by (induction xs) auto

text \<open>A strictly sorted list is determined by its elements.\<close>

lemma sorted_wrt_unique:
  assumes irrefl: "\<And>x. \<not> R x x" and asym: "\<And>x y. R x y \<Longrightarrow> \<not> R y x"
    and "sorted_wrt R xs" "sorted_wrt R ys" "set xs = set ys"
  shows "xs = ys"
  using assms(3-5)
proof (induction xs arbitrary: ys)
  case (Cons x xs)
  then obtain y ys' where ys: "ys = y # ys'" by (cases ys) auto
  have "x = y"
  proof (rule ccontr)
    assume "x \<noteq> y"
    then have "x \<in> set ys'" "y \<in> set xs" using Cons.prems(3) ys by auto
    then show False using Cons.prems(1,2) ys asym by auto
  qed
  moreover have "x \<notin> set xs" "y \<notin> set ys'" using Cons.prems(1,2) ys irrefl by auto
  ultimately have "set xs = set ys'" using Cons.prems(3) ys by auto
  with Cons ys \<open>x = y\<close> show ?case by simp
qed simp

text \<open>
  The first \<open>n\<close> elements of a strictly sorted list are those with fewer than \<open>n\<close>
  elements before them.
\<close>

lemma take_rank:
  assumes irrefl: "\<And>x. \<not> R x x" and asym: "\<And>x y. R x y \<Longrightarrow> \<not> R y x"
    and s: "sorted_wrt R xs"
  shows "x \<in> set (take n xs) \<longleftrightarrow> x \<in> set xs \<and> card {y \<in> set xs. R y x} < n"
proof (cases "x \<in> set xs")
  case True
  have d: "distinct xs" using irrefl s by (rule sorted_wrt_strict_distinct)
  from True obtain i where i: "i < length xs" "xs ! i = x" by (auto simp: in_set_conv_nth)
  have xs: "xs = take i xs @ x # drop (Suc i) xs" using i id_take_nth_drop by blast
  have "sorted_wrt R (take i xs @ x # drop (Suc i) xs)" using s xs by simp
  then have "\<forall>y \<in> set (take i xs). R y x" "\<forall>y \<in> set (drop (Suc i) xs). \<not> R y x"
    using asym by (auto simp: sorted_wrt_append)
  then have "{y \<in> set (take i xs @ x # drop (Suc i) xs). R y x} = set (take i xs)"
    using irrefl by auto
  then have "card {y \<in> set xs. R y x} = i"
    using xs d i by (simp add: distinct_card)
  moreover have "x \<in> set (take n xs) \<longleftrightarrow> i < n"
  proof
    assume "x \<in> set (take n xs)"
    then obtain j where "j < n" "j < length xs" "xs ! j = x"
      by (auto simp: in_set_conv_nth)
    then show "i < n" using d i nth_eq_iff_index_eq by blast
  qed (use i in \<open>auto simp: in_set_conv_nth\<close>)
  ultimately show ?thesis using True by simp
qed (auto dest: in_set_takeD)

end
