(* ===== verification/Buzz_Text.thy ===== *)
theory Buzz_Text
  imports Buzz_Prelude
begin

text \<open>
  Text and number primitives of the Rust standard library, as the sources use them:
  prefixes, ASCII classification, \<open>str::lines\<close>, \<open>trim().is_empty()\<close>, decimal
  printing and \<open>str::parse\<close> of unsigned integers, saturating 64-bit arithmetic, and the
  characters of a UTF-8 string with \<open>trim\<close>.
\<close>

section \<open>Prefixes and ASCII\<close>

definition starts_with :: "string \<Rightarrow> string \<Rightarrow> bool" where
  "starts_with s p = (take (length p) s = p)"

definition strip_prefix :: "string \<Rightarrow> string \<Rightarrow> string option" where
  "strip_prefix s p = (if starts_with s p then Some (drop (length p) s) else None)"

lemma starts_with_append [simp]: "starts_with (p @ s) p"
  by (simp add: starts_with_def)

lemma starts_with_iff: "starts_with s p \<longleftrightarrow> (\<exists>r. s = p @ r)"
  unfolding starts_with_def by (metis append_eq_conv_conj append_take_drop_id)

lemma strip_prefix_append [simp]: "strip_prefix (p @ s) p = Some s"
  by (simp add: strip_prefix_def)

lemma strip_prefix_eq_Some: "strip_prefix s p = Some r \<longleftrightarrow> s = p @ r"
  by (auto simp: strip_prefix_def starts_with_iff)

definition byte :: "char \<Rightarrow> nat" where
  "byte c = of_char c"

definition is_ascii_digit :: "char \<Rightarrow> bool" where
  "is_ascii_digit c = (48 \<le> byte c \<and> byte c \<le> 57)"

definition is_ascii_hexdigit :: "char \<Rightarrow> bool" where
  "is_ascii_hexdigit c =
     (is_ascii_digit c \<or> (97 \<le> byte c \<and> byte c \<le> 102) \<or> (65 \<le> byte c \<and> byte c \<le> 70))"

definition is_lower_hexdigit :: "char \<Rightarrow> bool" where
  "is_lower_hexdigit c = (is_ascii_digit c \<or> (97 \<le> byte c \<and> byte c \<le> 102))"

definition ascii_lower :: "char \<Rightarrow> char" where
  "ascii_lower c = (if 65 \<le> byte c \<and> byte c \<le> 90 then char_of (byte c + 32) else c)"

definition to_ascii_lowercase :: "string \<Rightarrow> string" where
  "to_ascii_lowercase s = map ascii_lower s"

definition eq_ignore_ascii_case :: "string \<Rightarrow> string \<Rightarrow> bool" where
  "eq_ignore_ascii_case s t = (to_ascii_lowercase s = to_ascii_lowercase t)"

lemma byte_lt: "byte c < 256"
  by (simp add: byte_def)

lemma byte_char_of: "n < 256 \<Longrightarrow> byte (char_of n) = n"
  by (simp add: byte_def)

lemma byte_ascii_lower:
  "byte (ascii_lower c) = (if 65 \<le> byte c \<and> byte c \<le> 90 then byte c + 32 else byte c)"
  by (simp add: ascii_lower_def byte_char_of)

lemma ascii_lower_hexdigit:
  "is_ascii_hexdigit c \<Longrightarrow> is_lower_hexdigit (ascii_lower c)"
  by (auto simp: is_ascii_hexdigit_def is_lower_hexdigit_def is_ascii_digit_def byte_ascii_lower)

lemma ascii_lower_of_lower_hexdigit: "is_lower_hexdigit c \<Longrightarrow> ascii_lower c = c"
  by (auto simp: is_lower_hexdigit_def is_ascii_digit_def ascii_lower_def)

lemma to_ascii_lowercase_length [simp]: "length (to_ascii_lowercase s) = length s"
  by (simp add: to_ascii_lowercase_def)

lemma to_ascii_lowercase_lower_hex:
  "\<forall>c \<in> set s. is_lower_hexdigit c \<Longrightarrow> to_ascii_lowercase s = s"
  by (simp add: to_ascii_lowercase_def map_idI ascii_lower_of_lower_hexdigit)

section \<open>Lines and blank lines\<close>

text \<open>
  \<open>str::lines\<close> splits at each newline, drops the empty piece after a final newline and
  strips one carriage return from the end of a line.
\<close>

definition strip_cr :: "string \<Rightarrow> string" where
  "strip_cr s = (if s \<noteq> [] \<and> byte (last s) = 13 then butlast s else s)"

text \<open>
  A piece ended by a newline loses one trailing carriage return; a final piece without a
  newline keeps it.
\<close>

fun lines_from :: "string \<Rightarrow> string \<Rightarrow> string list" where
  "lines_from acc [] = (if acc = [] then [] else [rev acc])"
| "lines_from acc (c # cs) =
     (if byte c = 10 then strip_cr (rev acc) # lines_from [] cs else lines_from (c # acc) cs)"

definition lines :: "string \<Rightarrow> string list" where
  "lines s = lines_from [] s"

text \<open>
  \<open>s.trim().is_empty()\<close>: every character of \<open>s\<close> is Unicode white space. The
  white-space characters outside ASCII are matched in their UTF-8 encoding.
\<close>

fun is_blank :: "string \<Rightarrow> bool" where
  "is_blank [] = True"
| "is_blank (a # s) =
     (if (9 \<le> byte a \<and> byte a \<le> 13) \<or> byte a = 32 then is_blank s
      else (case s of
          [] \<Rightarrow> False
        | b # t \<Rightarrow>
            if byte a = 194 \<and> (byte b = 133 \<or> byte b = 160) then is_blank t
            else (case t of
                [] \<Rightarrow> False
              | c # u \<Rightarrow>
                  if (byte a = 225 \<and> byte b = 154 \<and> byte c = 128)
                    \<or> (byte a = 226 \<and> byte b = 128 \<and>
                        (128 \<le> byte c \<and> byte c \<le> 138 \<or> byte c = 168 \<or> byte c = 169
                          \<or> byte c = 175))
                    \<or> (byte a = 226 \<and> byte b = 129 \<and> byte c = 159)
                    \<or> (byte a = 227 \<and> byte b = 128 \<and> byte c = 128)
                  then is_blank u else False)))"

lemma lines_from_record:
  "\<forall>c \<in> set r. byte c \<noteq> 10 \<Longrightarrow>
   lines_from acc (r @ CHR 10 # s) = strip_cr (rev acc @ r) # lines_from [] s"
  by (induction r arbitrary: acc) (auto simp: byte_def)

lemma lines_records:
  assumes "\<forall>r \<in> set rs. (\<forall>c \<in> set r. byte c \<noteq> 10) \<and> strip_cr r = r"
  shows "lines (concat (map (\<lambda>r. r @ [CHR 10]) rs)) = rs"
  using assms
proof (induction rs)
  case Nil
  then show ?case by (simp add: lines_def)
next
  case (Cons r rs)
  then show ?case
    using lines_from_record [of r "[]" "concat (map (\<lambda>r. r @ [CHR 10]) rs)"]
    by (simp add: lines_def)
qed

section \<open>Decimal numbers\<close>

definition digit_char :: "nat \<Rightarrow> char" where
  "digit_char d = char_of (48 + d)"

definition digit_val :: "char \<Rightarrow> nat" where
  "digit_val c = byte c - 48"

fun show_nat :: "nat \<Rightarrow> string" where
  "show_nat n = (if n < 10 then [digit_char n] else show_nat (n div 10) @ [digit_char (n mod 10)])"

declare show_nat.simps [simp del]

fun parse_digits :: "nat \<Rightarrow> string \<Rightarrow> nat option" where
  "parse_digits acc [] = Some acc"
| "parse_digits acc (c # cs) =
     (if is_ascii_digit c then parse_digits (acc * 10 + digit_val c) cs else None)"

text \<open>
  \<open>str::parse\<close> to an unsigned type with largest value \<open>m\<close>: an optional plus sign,
  at least one digit, digits only, no overflow.
\<close>

definition parse_uint :: "nat \<Rightarrow> string \<Rightarrow> nat option" where
  "parse_uint m s =
     (let ds = (case s of [] \<Rightarrow> [] | c # cs \<Rightarrow> if byte c = 43 then cs else s)
      in if ds = [] then None
         else (case parse_digits 0 ds of None \<Rightarrow> None | Some n \<Rightarrow> if n \<le> m then Some n else None))"

definition u64_max :: nat where
  "u64_max = 18446744073709551615"

definition u16_max :: nat where
  "u16_max = 65535"

definition saturating_add :: "nat \<Rightarrow> nat \<Rightarrow> nat" where
  "saturating_add a b = min (a + b) u64_max"

definition wrapping_add :: "nat \<Rightarrow> nat \<Rightarrow> nat" where
  "wrapping_add a b = (a + b) mod (u64_max + 1)"

definition abs_diff :: "nat \<Rightarrow> nat \<Rightarrow> nat" where
  "abs_diff a b = (if a < b then b - a else a - b)"

lemma digit_char_props:
  "d < 10 \<Longrightarrow> is_ascii_digit (digit_char d) \<and> digit_val (digit_char d) = d
    \<and> byte (digit_char d) \<noteq> 43 \<and> byte (digit_char d) \<noteq> 10"
  by (simp add: digit_char_def is_ascii_digit_def digit_val_def byte_char_of)

lemma parse_digits_append:
  "parse_digits acc (xs @ ys) =
     (case parse_digits acc xs of None \<Rightarrow> None | Some n \<Rightarrow> parse_digits n ys)"
  by (induction xs arbitrary: acc) auto

lemma parse_digits_show_nat: "parse_digits 0 (show_nat n) = Some n"
proof (induction n rule: show_nat.induct)
  case (1 n)
  show ?case
  proof (cases "n < 10")
    case True
    then show ?thesis by (simp add: show_nat.simps [of n] digit_char_props)
  next
    case False
    with 1 have "parse_digits 0 (show_nat (n div 10)) = Some (n div 10)" by simp
    with False show ?thesis
      by (simp add: show_nat.simps [of n] parse_digits_append digit_char_props)
  qed
qed

lemma show_nat_head: "\<exists>c cs. show_nat n = c # cs \<and> byte c \<noteq> 43"
proof (induction n rule: show_nat.induct)
  case (1 n)
  show ?case
    using 1 by (cases "n < 10") (auto simp: show_nat.simps [of n] digit_char_props)
qed

lemma parse_show_nat: "n \<le> m \<Longrightarrow> parse_uint m (show_nat n) = Some n"
  using show_nat_head [of n] parse_digits_show_nat [of n]
  by (auto simp: parse_uint_def Let_def)

lemma show_nat_inj: "show_nat m = show_nat n \<Longrightarrow> m = n"
  by (metis parse_digits_show_nat option.inject)

lemma parse_uint_bound: "parse_uint m s = Some n \<Longrightarrow> n \<le> m"
  by (auto simp: parse_uint_def Let_def split: if_splits option.splits list.splits)

text \<open>
  The message of the error \<open>str::parse\<close> gives: the digits are read from the left, and
  the first one that is no digit or overflows decides.
\<close>

fun uint_error_from :: "nat \<Rightarrow> nat \<Rightarrow> string \<Rightarrow> string" where
  "uint_error_from m acc [] = ''''"
| "uint_error_from m acc (c # cs) =
     (if \<not> is_ascii_digit c then ''invalid digit found in string''
      else if m < acc * 10 + digit_val c then ''number too large to fit in target type''
      else uint_error_from m (acc * 10 + digit_val c) cs)"

definition parse_uint_error :: "nat \<Rightarrow> string \<Rightarrow> string" where
  "parse_uint_error m s =
     (case s of
        [] \<Rightarrow> ''cannot parse integer from empty string''
      | c # cs \<Rightarrow>
          if (byte c = 43 \<or> byte c = 45) \<and> cs = [] then ''invalid digit found in string''
          else uint_error_from m 0 (if byte c = 43 then cs else s))"

section \<open>Splitting and searching\<close>

text \<open>\<open>str::split_once\<close> at a character and \<open>str::contains\<close>.\<close>

definition split_once :: "string \<Rightarrow> char \<Rightarrow> (string \<times> string) option" where
  "split_once s c =
     (case dropWhile (\<lambda>x. x \<noteq> c) s of
        [] \<Rightarrow> None
      | _ # rest \<Rightarrow> Some (takeWhile (\<lambda>x. x \<noteq> c) s, rest))"

definition contains :: "string \<Rightarrow> string \<Rightarrow> bool" where
  "contains s p = list_ex (\<lambda>i. starts_with (drop i s) p) [0..<Suc (length s)]"

lemma split_once_append: "c \<notin> set a \<Longrightarrow> split_once (a @ c # b) c = Some (a, b)"
proof -
  assume "c \<notin> set a"
  then have "\<And>x. x \<in> set a \<Longrightarrow> x \<noteq> c" by blast
  then have "dropWhile (\<lambda>x. x \<noteq> c) (a @ c # b) = c # b" "takeWhile (\<lambda>x. x \<noteq> c) (a @ c # b) = a"
    by (simp_all add: dropWhile_append2 takeWhile_append2)
  then show ?thesis by (simp add: split_once_def)
qed

lemma split_once_None: "split_once s c = None \<longleftrightarrow> c \<notin> set s"
proof (cases "dropWhile (\<lambda>x. x \<noteq> c) s")
  case Nil
  then have "c \<notin> set s" unfolding dropWhile_eq_Nil_conv by blast
  then show ?thesis unfolding split_once_def Nil by simp
next
  case (Cons x xs)
  have "c \<in> set s"
  proof (rule ccontr)
    assume "c \<notin> set s"
    then have "dropWhile (\<lambda>x. x \<noteq> c) s = []" unfolding dropWhile_eq_Nil_conv by blast
    with Cons show False by simp
  qed
  then show ?thesis unfolding split_once_def Cons by simp
qed

lemma split_once_Some: "split_once s c = Some (a, b) \<Longrightarrow> s = a @ c # b \<and> c \<notin> set a"
proof -
  assume s: "split_once s c = Some (a, b)"
  then obtain x where d: "dropWhile (\<lambda>x. x \<noteq> c) s = x # b" and a: "a = takeWhile (\<lambda>x. x \<noteq> c) s"
    by (auto simp: split_once_def split: list.splits)
  have "x = c" using d hd_dropWhile [of "\<lambda>x. x \<noteq> c" s] by auto
  then have "s = a @ c # b" using d a takeWhile_dropWhile_id [of "\<lambda>x. x \<noteq> c" s] by simp
  moreover have "c \<notin> set a" unfolding a by (auto dest: set_takeWhileD)
  ultimately show ?thesis by blast
qed

lemma parse_digits_digits: "parse_digits acc s = Some n \<Longrightarrow> \<forall>c \<in> set s. is_ascii_digit c"
  by (induction s arbitrary: acc) (auto split: if_splits)

lemma parse_uint_no_space: "parse_uint m s = Some n \<Longrightarrow> CHR '' '' \<notin> set s"
proof
  assume p: "parse_uint m s = Some n" and i: "CHR '' '' \<in> set s"
  then have d: "\<not> is_ascii_digit (CHR '' '')" "byte (CHR '' '') \<noteq> 43"
    by (simp_all add: is_ascii_digit_def byte_def)
  obtain c cs where s: "s = c # cs" using i by (cases s) auto
  show False
  proof (cases "byte c = 43")
    case True
    then have "CHR '' '' \<in> set cs" using i s d by auto
    moreover have "\<exists>k. parse_digits 0 cs = Some k"
      using p s True by (auto simp: parse_uint_def Let_def split: if_splits option.splits)
    ultimately show False using parse_digits_digits d by blast
  next
    case False
    then have "\<exists>k. parse_digits 0 s = Some k"
      using p s by (auto simp: parse_uint_def Let_def split: if_splits option.splits)
    then show False using parse_digits_digits d i by blast
  qed
qed

section \<open>Files that grow by lines\<close>

definition ends_line :: "string \<Rightarrow> bool" where
  "ends_line s = (s = [] \<or> byte (last s) = 10)"

lemma lines_from_append:
  "ends_line F \<Longrightarrow> (F = [] \<Longrightarrow> acc = []) \<Longrightarrow> lines_from acc (F @ s) = lines_from acc F @ lines_from [] s"
proof (induction F arbitrary: acc)
  case (Cons c F)
  show ?case
  proof (cases "byte c = 10")
    case True
    then show ?thesis using Cons.IH [of "[]"] Cons.prems by (cases F) (auto simp: ends_line_def)
  next
    case False
    then have "F \<noteq> []" using Cons.prems(1) by (auto simp: ends_line_def)
    then show ?thesis using Cons.IH [of "c # acc"] Cons.prems False by (auto simp: ends_line_def)
  qed
qed simp

lemma lines_append: "ends_line F \<Longrightarrow> lines (F @ s) = lines F @ lines s"
  by (simp add: lines_def lines_from_append)

lemma lines_from_no_newline:
  "\<forall>c \<in> set s. byte c \<noteq> 10 \<Longrightarrow> lines_from acc s = (if acc = [] \<and> s = [] then [] else [rev acc @ s])"
  by (induction s arbitrary: acc) auto

lemma lines_tail: "\<forall>c \<in> set s. byte c \<noteq> 10 \<Longrightarrow> lines s = (if s = [] then [] else [s])"
  by (simp add: lines_def lines_from_no_newline)

lemma lines_line: "\<forall>c \<in> set s. byte c \<noteq> 10 \<Longrightarrow> lines (s @ [CHR 10]) = [strip_cr s]"
  using lines_from_record [of s "[]" "[]"] by (simp add: lines_def)

lemma split_last_line: "\<exists>F J. s = F @ J \<and> ends_line F \<and> (\<forall>c \<in> set J. byte c \<noteq> 10)"
proof (induction s rule: rev_induct)
  case (snoc c s)
  show ?case
  proof (cases "byte c = 10")
    case True
    then show ?thesis by (intro exI [of _ "s @ [c]"] exI [of _ "[]"]) (simp add: ends_line_def)
  next
    case False
    from snoc obtain F J where "s = F @ J" "ends_line F" "\<forall>c \<in> set J. byte c \<noteq> 10" by blast
    with False show ?thesis by (intro exI [of _ F] exI [of _ "J @ [c]"]) auto
  qed
qed (auto simp: ends_line_def)

section \<open>UTF-8\<close>

text \<open>\<open>String::from_utf8\<close> succeeds exactly on well-formed sequences (Unicode, table 3-7).\<close>

definition byte_in :: "char \<Rightarrow> nat \<Rightarrow> nat \<Rightarrow> bool" where
  "byte_in c lo hi = (lo \<le> byte c \<and> byte c \<le> hi)"

definition second_byte_ok :: "char \<Rightarrow> char \<Rightarrow> bool" where
  "second_byte_ok lead c =
     (if byte lead = 224 then byte_in c 160 191
      else if byte lead = 237 then byte_in c 128 159
      else if byte lead = 240 then byte_in c 144 191
      else if byte lead = 244 then byte_in c 128 143
      else byte_in c 128 191)"

fun is_utf8 :: "string \<Rightarrow> bool" where
  "is_utf8 [] = True"
| "is_utf8 (a # s) =
     (if byte a < 128 then is_utf8 s
      else if byte_in a 194 223
      then (case s of b # s \<Rightarrow> second_byte_ok a b \<and> is_utf8 s | _ \<Rightarrow> False)
      else if byte_in a 224 239
      then (case s of b # c # s \<Rightarrow> second_byte_ok a b \<and> byte_in c 128 191 \<and> is_utf8 s | _ \<Rightarrow> False)
      else if byte_in a 240 244
      then (case s of b # c # d # s \<Rightarrow> second_byte_ok a b \<and> byte_in c 128 191 \<and> byte_in d 128 191
              \<and> is_utf8 s | _ \<Rightarrow> False)
      else False)"

lemma ascii_is_utf8: "\<forall>c \<in> set s. byte c < 128 \<Longrightarrow> is_utf8 s"
  by (induction s) auto

section \<open>Characters of a string\<close>

definition utf8_width :: "char \<Rightarrow> nat" where
  "utf8_width c = (if byte c < 192 then 1 else if byte c < 224 then 2 else if byte c < 240 then 3 else 4)"

fun chars :: "string \<Rightarrow> string list" where
  "chars [] = []"
| "chars (c # cs) = (c # take (utf8_width c - 1) cs) # chars (drop (utf8_width c - 1) cs)"

definition is_whitespace :: "string \<Rightarrow> bool" where
  "is_whitespace c =
     (case map byte c of
        [a] \<Rightarrow> 9 \<le> a \<and> a \<le> 13 \<or> a = 32
      | [a, b] \<Rightarrow> a = 194 \<and> (b = 133 \<or> b = 160)
      | [a, b, d] \<Rightarrow>
          (a = 225 \<and> b = 154 \<and> d = 128) \<or>
          (a = 226 \<and> b = 128 \<and> (128 \<le> d \<and> d \<le> 138 \<or> d = 168 \<or> d = 169 \<or> d = 175)) \<or>
          (a = 226 \<and> b = 129 \<and> d = 159) \<or> (a = 227 \<and> b = 128 \<and> d = 128)
      | _ \<Rightarrow> False)"

definition is_control :: "string \<Rightarrow> bool" where
  "is_control c =
     (case map byte c of
        [a] \<Rightarrow> a < 32 \<or> a = 127
      | [a, b] \<Rightarrow> a = 194 \<and> 128 \<le> b \<and> b \<le> 159
      | _ \<Rightarrow> False)"

definition trim_start :: "string \<Rightarrow> string" where
  "trim_start s = concat (dropWhile is_whitespace (chars s))"

definition trim_end :: "string \<Rightarrow> string" where
  "trim_end s = concat (rev (dropWhile is_whitespace (rev (chars s))))"

definition trim :: "string \<Rightarrow> string" where
  "trim s = trim_end (trim_start s)"

definition is_char_boundary :: "string \<Rightarrow> nat \<Rightarrow> bool" where
  "is_char_boundary s n \<longleftrightarrow>
     n = length s \<or> (n < length s \<and> (n = 0 \<or> \<not> (128 \<le> byte (s ! n) \<and> byte (s ! n) \<le> 191)))"

definition is_ascii_alphanumeric :: "char \<Rightarrow> bool" where
  "is_ascii_alphanumeric c =
     (is_ascii_digit c \<or> (97 \<le> byte c \<and> byte c \<le> 122) \<or> (65 \<le> byte c \<and> byte c \<le> 90))"

lemma concat_chars [simp]: "concat (chars s) = s"
  by (induction s rule: chars.induct) simp_all

lemma suffix_dropWhile_concat: "suffix (concat (dropWhile P xs)) (concat xs)"
proof -
  have "concat xs = concat (takeWhile P xs) @ concat (dropWhile P xs)"
    by (metis concat_append takeWhile_dropWhile_id)
  then show ?thesis by (simp add: suffix_def)
qed

lemma trim_start_suffix: "suffix (trim_start s) s"
  using suffix_dropWhile_concat [of is_whitespace "chars s"] by (simp add: trim_start_def)

lemma trim_start_length: "length (trim_start s) \<le> length s"
  by (rule suffix_length_le [OF trim_start_suffix])

text \<open>\<open>[..].join(sep)\<close>.\<close>

fun join :: "string \<Rightarrow> string list \<Rightarrow> string" where
  "join sep [] = []"
| "join sep [x] = x"
| "join sep (x # xs) = x @ sep @ join sep xs"

end
