(* ===== verification/Nostr_Types.thy ===== *)
theory Nostr_Types
  imports Buzz_Text
begin

text \<open>
  The data every component exchanges: Nostr events, tags and filters, JSON values, and the
  record \<open>nostr_lib\<close> of the third-party functions the sources call (signature checks,
  JSON, hex, URL and UUID parsing, hashing, signing). Those functions are not part of the
  repository: each definition that calls one takes the record as its argument \<open>L\<close>, and a
  theorem that needs something of them says so as a hypothesis.

  Event identifiers and public keys are 32-byte values the sources compare either directly or
  by their lowercase hex rendering; both are represented by that rendering.
\<close>

type_synonym event_id = string
type_synonym pubkey = string
type_synonym uuid = string
type_synonym url = string
type_synonym secret_keys = string

section \<open>Events and filters\<close>

text \<open>
  A tag is a non-empty array of strings: its name and the rest. \<open>tag.content()\<close> is the
  element behind the name.
\<close>

datatype tag = Tag (tag_name: string) (tag_rest: "string list")

definition tag_values_list :: "tag \<Rightarrow> string list" where
  "tag_values_list t = tag_name t # tag_rest t"

definition tag_content :: "tag \<Rightarrow> string option" where
  "tag_content t = first_of (tag_rest t)"

record event =
  ev_id :: event_id
  ev_pubkey :: pubkey
  ev_created_at :: nat
  ev_kind :: nat
  ev_tags :: "tag list"
  ev_content :: string
  ev_sig :: string

record nostr_filter =
  f_ids :: "event_id list option"
  f_authors :: "pubkey list option"
  f_kinds :: "nat list option"
  f_since :: "nat option"
  f_until :: "nat option"
  f_limit :: "nat option"
  f_search :: "string option"
  f_generic_tags :: "(string \<times> string list) list"

definition empty_filter :: nostr_filter where
  "empty_filter = \<lparr>f_ids = None, f_authors = None, f_kinds = None, f_since = None,
     f_until = None, f_limit = None, f_search = None, f_generic_tags = []\<rparr>"

text \<open>An unsigned event: what \<open>EventBuilder\<close> holds before \<open>sign_with_keys\<close>.\<close>

record event_builder =
  eb_kind :: nat
  eb_content :: string
  eb_tags :: "tag list"
  eb_created_at :: nat

text \<open>The value of the first tag with a name that has a value: \<open>tags.iter().find_map\<close>.\<close>

definition tag_lookup :: "tag list \<Rightarrow> string \<Rightarrow> string option" where
  "tag_lookup ts n = find_map (\<lambda>t. if tag_name t = n then tag_content t else None) ts"

text \<open>\<open>tags.find(kind).and_then(|t| t.content())\<close>: the content of the first such tag.\<close>

definition tag_find :: "tag list \<Rightarrow> string \<Rightarrow> tag option" where
  "tag_find ts n = find (\<lambda>t. tag_name t = n) ts"

definition tag_find_content :: "tag list \<Rightarrow> string \<Rightarrow> string option" where
  "tag_find_content ts n = Option.bind (tag_find ts n) tag_content"

lemma tag_lookup_Some:
  "tag_lookup ts n = Some v \<Longrightarrow> \<exists>t \<in> set ts. tag_name t = n \<and> tag_content t = Some v"
  by (auto simp: tag_lookup_def dest!: find_map_Some split: if_splits)

section \<open>JSON values\<close>

datatype json_number = PosInt nat | NegInt int | FloatBits nat

datatype json =
    JNull
  | JBool bool
  | JNumber json_number
  | JString string
  | JArray "json list"
  | JObject "(string \<times> json) list"

fun json_as_str :: "json \<Rightarrow> string option" where
  "json_as_str (JString s) = Some s"
| "json_as_str _ = None"

fun json_as_object :: "json \<Rightarrow> (string \<times> json) list option" where
  "json_as_object (JObject o') = Some o'"
| "json_as_object _ = None"

fun json_as_array :: "json \<Rightarrow> json list option" where
  "json_as_array (JArray xs) = Some xs"
| "json_as_array _ = None"

fun json_as_u64 :: "json \<Rightarrow> nat option" where
  "json_as_u64 (JNumber (PosInt n)) = Some n"
| "json_as_u64 _ = None"

text \<open>\<open>Map::get\<close>, \<open>Value::get\<close> and indexing, which gives \<open>Null\<close> for what is absent.\<close>

definition obj_get :: "(string \<times> json) list \<Rightarrow> string \<Rightarrow> json option" where
  "obj_get o' k = map_of o' k"

definition json_get :: "json \<Rightarrow> string \<Rightarrow> json option" where
  "json_get v k = Option.bind (json_as_object v) (\<lambda>o'. obj_get o' k)"

definition json_index :: "json \<Rightarrow> string \<Rightarrow> json" where
  "json_index v k = (case json_get v k of None \<Rightarrow> JNull | Some w \<Rightarrow> w)"

definition obj_str :: "(string \<times> json) list \<Rightarrow> string \<Rightarrow> string option" where
  "obj_str o' k = Option.bind (obj_get o' k) json_as_str"

section \<open>Third-party functions\<close>

text \<open>
  The last two fields are not third-party code but stand for tables of the standard library:
  Unicode lowercasing (\<open>str::to_lowercase\<close>) and the escaping of \<open>{:?}\<close> on a string.
\<close>

record nostr_lib =
  l_verify_id :: "event \<Rightarrow> bool"
  l_verify_signature :: "event \<Rightarrow> bool"
  l_event_hash :: "event \<Rightarrow> event_id"
  l_pubkey_from_hex :: "string \<Rightarrow> pubkey option"
  l_event_id_from_hex :: "string \<Rightarrow> event_id option"
  l_event_id_error :: "string \<Rightarrow> string"
  l_uuid_parse :: "string \<Rightarrow> string + uuid"
  l_json_from_str :: "string \<Rightarrow> string + json"
  l_json_to_string :: "json \<Rightarrow> string"
  l_event_from_str :: "string \<Rightarrow> string + event"
  l_event_from_value :: "json \<Rightarrow> string + event"
  l_event_to_str :: "event \<Rightarrow> string + string"
  l_filter_from_value :: "json \<Rightarrow> string + nostr_filter"
  l_sha256_hex :: "string \<Rightarrow> string"
  l_base64_decode :: "string \<Rightarrow> string option"
  l_url_parse :: "string \<Rightarrow> url option"
  l_url_host :: "url \<Rightarrow> string option"
  l_url_set_host :: "url \<Rightarrow> string \<Rightarrow> url"
  l_url_path :: "url \<Rightarrow> string"
  l_url_set_path :: "url \<Rightarrow> string \<Rightarrow> url"
  l_url_to_string :: "url \<Rightarrow> string"
  l_public_key :: "secret_keys \<Rightarrow> pubkey"
  l_sign :: "secret_keys \<Rightarrow> event_builder \<Rightarrow> string + event"
  l_verify_auth_tag :: "string list \<Rightarrow> pubkey \<Rightarrow> pubkey option"
  l_to_lowercase :: "string \<Rightarrow> string"
  l_debug_str :: "string \<Rightarrow> string"

section \<open>A concrete instance\<close>

text \<open>
  An instance of the third-party functions, at which the hypotheses of the theorems are
  shown to be satisfiable: signatures other than \<open>bad\<close> verify, an event is printed as
  its identifier in braces, and the printed form of a sample event parses back.
\<close>

definition sample_event :: "event_id \<Rightarrow> pubkey \<Rightarrow> nat \<Rightarrow> nat \<Rightarrow> tag list \<Rightarrow> string \<Rightarrow> event" where
  "sample_event i p t k ts c =
     \<lparr>ev_id = i, ev_pubkey = p, ev_created_at = t, ev_kind = k, ev_tags = ts, ev_content = c,
      ev_sig = ''ok''\<rparr>"

definition note_a :: event where
  "note_a = sample_event ''a1'' ''alice'' 10 1 [] ''hello''"

definition profile_old :: event where
  "profile_old = sample_event ''b1'' ''alice'' 20 0 [] ''old''"

definition profile_new :: event where
  "profile_new = sample_event ''c1'' ''alice'' 30 0 [] ''new''"

definition sample_lib :: nostr_lib where
  "sample_lib =
     \<lparr>l_verify_id = (\<lambda>_. True),
      l_verify_signature = (\<lambda>e. ev_sig e \<noteq> ''bad''),
      l_event_hash = ev_id,
      l_pubkey_from_hex = Some,
      l_event_id_from_hex = Some,
      l_event_id_error = (\<lambda>_. ''invalid event id''),
      l_uuid_parse = Inr,
      l_json_from_str = (\<lambda>s. Inr (JString s)),
      l_json_to_string = (\<lambda>_. ''json''),
      l_event_from_str = (\<lambda>s. case find (\<lambda>e. ''{'' @ ev_id e @ ''}'' = s)
        [note_a, profile_old, profile_new] of None \<Rightarrow> Inl ''syntax'' | Some e \<Rightarrow> Inr e),
      l_event_from_value = (\<lambda>_. Inl ''type''),
      l_event_to_str = (\<lambda>e. Inr (''{'' @ ev_id e @ ''}'')),
      l_filter_from_value = (\<lambda>_. Inr empty_filter),
      l_sha256_hex = (\<lambda>s. s),
      l_base64_decode = Some,
      l_url_parse = Some,
      l_url_host = (\<lambda>_. None),
      l_url_set_host = (\<lambda>u _. u),
      l_url_path = (\<lambda>_. ''''),
      l_url_set_path = (\<lambda>u _. u),
      l_url_to_string = (\<lambda>u. u),
      l_public_key = (\<lambda>k. k),
      l_sign = (\<lambda>k b. Inr (sample_event ''f0'' k (eb_created_at b) (eb_kind b) (eb_tags b) (eb_content b))),
      l_verify_auth_tag = (\<lambda>_ _. None),
      l_to_lowercase = to_ascii_lowercase,
      l_debug_str = (\<lambda>s. CHR 34 # s @ [CHR 34])\<rparr>"

end
