(* ===== verification/Ingest.thy ===== *)
theory Ingest
  imports Nostr_Types
begin

text \<open>
  The portable part of relay ingestion, \<open>buzz-core/src/ingest.rs\<close>, with the stored-event
  wrapper (\<open>event.rs\<close>) and event verification (\<open>verification.rs\<close>): classification
  of an event, the deterministic replacement order, the ingest decision and the effective
  projection. The locales state what a replacement order and a reducer promise; the reducer
  of the code is interpreted in them, which gives convergence: the effective projection of a
  history depends only on which events the history holds, not on their order or repetition.
\<close>

section \<open>Definitions\<close>

record stored_event =
  se_event :: event
  se_received_at :: nat
  se_channel_id :: "uuid option"
  se_verified :: bool

definition stored_event_new :: "nat \<Rightarrow> event \<Rightarrow> uuid option \<Rightarrow> stored_event" where
  "stored_event_new now e channel =
     \<lparr>se_event = e, se_received_at = now, se_channel_id = channel, se_verified = False\<rparr>"

definition is_verified :: "stored_event \<Rightarrow> bool" where
  "is_verified s = se_verified s"

definition with_received_at :: "event \<Rightarrow> nat \<Rightarrow> uuid option \<Rightarrow> bool \<Rightarrow> stored_event" where
  "with_received_at e at channel verified =
     \<lparr>se_event = e, se_received_at = at, se_channel_id = channel, se_verified = verified\<rparr>"

datatype verification_error = InvalidId string string | InvalidSignatureV | Secp string

fun verification_error_text :: "verification_error \<Rightarrow> string" where
  "verification_error_text (InvalidId computed got) =
     ''invalid event id: computed '' @ computed @ '', got '' @ got"
| "verification_error_text InvalidSignatureV = ''invalid schnorr signature''"
| "verification_error_text (Secp e) = ''secp256k1 error: '' @ e"

definition verify_event :: "nostr_lib \<Rightarrow> event \<Rightarrow> verification_error + unit" where
  "verify_event L e =
     (if \<not> l_verify_id L e then Inl (InvalidId (l_event_hash L e) (ev_id e))
      else if \<not> l_verify_signature L e then Inl InvalidSignatureV
      else Inr ())"

datatype replacement_key =
    ReplaceableKey pubkey nat
  | ParameterizedKey pubkey nat string

datatype event_class = Regular | Replaceable replacement_key | EphemeralClass

datatype event_decision = Stored | Duplicate | Superseded | Ephemeral

definition is_ephemeral_kind :: "nat \<Rightarrow> bool" where
  "is_ephemeral_kind kind = (20000 \<le> kind \<and> kind < 30000)"

definition replacement_key :: "event \<Rightarrow> replacement_key option" where
  "replacement_key e =
     (let kind = ev_kind e in
      if kind = 0 \<or> kind = 3 \<or> (10000 \<le> kind \<and> kind < 20000)
      then Some (ReplaceableKey (ev_pubkey e) kind)
      else if 30000 \<le> kind \<and> kind < 40000
      then Some (ParameterizedKey (ev_pubkey e) kind
        (case tag_lookup (ev_tags e) ''d'' of None \<Rightarrow> '''' | Some d \<Rightarrow> d))
      else None)"

definition classify_event :: "event \<Rightarrow> event_class" where
  "classify_event e =
     (if is_ephemeral_kind (ev_kind e) then EphemeralClass
      else (case replacement_key e of Some key \<Rightarrow> Replaceable key | None \<Rightarrow> Regular))"

definition replacement_candidate_wins :: "event \<Rightarrow> event \<Rightarrow> bool" where
  "replacement_candidate_wins candidate current =
     (ev_created_at current < ev_created_at candidate
      \<or> (ev_created_at candidate = ev_created_at current \<and> ev_id candidate < ev_id current))"

definition decide_event :: "stored_event list \<Rightarrow> bool \<Rightarrow> event \<Rightarrow> event_decision" where
  "decide_event effective previously_accepted candidate =
     (if previously_accepted \<or> list_ex (\<lambda>s. ev_id (se_event s) = ev_id candidate) effective
      then Duplicate
      else (case classify_event candidate of
          EphemeralClass \<Rightarrow> Ephemeral
        | Regular \<Rightarrow> Stored
        | Replaceable key \<Rightarrow>
            (case find (\<lambda>s. replacement_key (se_event s) = Some key) effective of
                Some current \<Rightarrow>
                  if \<not> replacement_candidate_wins candidate (se_event current)
                  then Superseded else Stored
              | None \<Rightarrow> Stored)))"

definition apply_effective_event ::
  "stored_event list \<Rightarrow> stored_event \<Rightarrow> stored_event list \<times> event_decision" where
  "apply_effective_event effective candidate =
     (let decision = decide_event effective False (se_event candidate) in
      if decision \<noteq> Stored then (effective, decision)
      else (let index = Option.bind (replacement_key (se_event candidate))
                (\<lambda>key. find_index (\<lambda>s. replacement_key (se_event s) = Some key) effective)
            in (case index of
                  Some i \<Rightarrow> (effective[i := candidate], Stored)
                | None \<Rightarrow> (effective @ [candidate], Stored))))"

abbreviation effective_step :: "stored_event list \<Rightarrow> stored_event \<Rightarrow> stored_event list" where
  "effective_step effective candidate \<equiv> fst (apply_effective_event effective candidate)"

section \<open>The replacement order\<close>

locale replacement_order =
  fixes wins :: "'e \<Rightarrow> 'e \<Rightarrow> bool"
    and ident :: "'e \<Rightarrow> 'i"
  assumes wins_irrefl: "\<not> wins a a"
    and wins_trans: "wins a b \<Longrightarrow> wins b c \<Longrightarrow> wins a c"
    and wins_total: "ident a \<noteq> ident b \<Longrightarrow> wins a b \<or> wins b a"
begin

lemma wins_asym: "wins a b \<Longrightarrow> \<not> wins b a"
  using wins_irrefl wins_trans by blast

lemma ex_best:
  assumes "finite S" "S \<noteq> {}"
  shows "\<exists>m \<in> S. \<forall>e \<in> S. \<not> wins e m"
  using assms
proof (induction rule: finite_ne_induct)
  case (singleton x)
  then show ?case by (simp add: wins_irrefl)
next
  case (insert x S)
  then obtain m where m: "m \<in> S" "\<forall>e \<in> S. \<not> wins e m" by blast
  show ?case
  proof (cases "wins x m")
    case True
    with m have "\<forall>e \<in> insert x S. \<not> wins e x"
      using wins_trans wins_irrefl by blast
    then show ?thesis by blast
  next
    case False
    with m show ?thesis by blast
  qed
qed

end

interpretation ev_order: replacement_order replacement_candidate_wins ev_id
  by unfold_locales (auto simp: replacement_candidate_wins_def)

text \<open>
  The specification of the effective projection: of a set of events, those no event of the
  same replacement stream wins over.
\<close>

definition stream_heads :: "('e \<Rightarrow> 'k option) \<Rightarrow> ('e \<Rightarrow> 'e \<Rightarrow> bool) \<Rightarrow> 'e set \<Rightarrow> 'e set" where
  "stream_heads key wins S =
     {e \<in> S. \<forall>e' \<in> S. key e \<noteq> None \<longrightarrow> key e' = key e \<longrightarrow> \<not> wins e' e}"

lemma stream_heads_subset: "stream_heads key wins S \<subseteq> S"
  by (auto simp: stream_heads_def)

section \<open>What a reducer promises\<close>

locale effective_reducer = replacement_order wins ident
  for wins :: "'e \<Rightarrow> 'e \<Rightarrow> bool" and ident :: "'e \<Rightarrow> 'i" +
  fixes key :: "'e \<Rightarrow> 'k option"
    and skip :: "'e \<Rightarrow> bool"
    and ev :: "'s \<Rightarrow> 'e"
    and step :: "'s list \<Rightarrow> 's \<Rightarrow> 's list"
  assumes step_skip: "skip (ev s) \<Longrightarrow> step ss s = ss"
    and step_known: "ident (ev s) \<in> ident ` ev ` set ss \<Longrightarrow> step ss s = ss"
    and step_fresh: "\<lbrakk>\<not> skip (ev s); ident (ev s) \<notin> ident ` ev ` set ss;
        key (ev s) = None \<or> key (ev s) \<notin> key ` ev ` set ss\<rbrakk>
      \<Longrightarrow> ev ` set (step ss s) = insert (ev s) (ev ` set ss)"
    and step_loses: "\<lbrakk>\<not> skip (ev s); c \<in> ev ` set ss; key c = key (ev s); key c \<noteq> None;
        \<forall>c' \<in> ev ` set ss. key c' = key c \<longrightarrow> c' = c; \<not> wins (ev s) c\<rbrakk>
      \<Longrightarrow> step ss s = ss"
    and step_wins: "\<lbrakk>\<not> skip (ev s); ident (ev s) \<notin> ident ` ev ` set ss; c \<in> ev ` set ss;
        key c = key (ev s); key c \<noteq> None; \<forall>c' \<in> ev ` set ss. key c' = key c \<longrightarrow> c' = c;
        distinct (map (\<lambda>s. ident (ev s)) ss); wins (ev s) c\<rbrakk>
      \<Longrightarrow> ev ` set (step ss s) = insert (ev s) (ev ` set ss - {c})"
    and step_distinct: "distinct (map (\<lambda>s. ident (ev s)) ss) \<Longrightarrow> distinct (map (\<lambda>s. ident (ev s)) (step ss s))"
begin

lemma heads_unique:
  assumes "inj_on ident S" "a \<in> stream_heads key wins S" "b \<in> stream_heads key wins S"
    and "key a = key b" "key b \<noteq> None"
  shows "a = b"
proof (rule ccontr)
  assume "a \<noteq> b"
  with assms have "ident a \<noteq> ident b"
    by (auto simp: stream_heads_def dest: inj_onD)
  then have "wins a b \<or> wins b a" by (rule wins_total)
  with assms show False by (auto simp: stream_heads_def)
qed

lemma ex_head:
  assumes "finite S" "e \<in> S" "key e \<noteq> None"
  shows "\<exists>c \<in> stream_heads key wins S. key c = key e"
proof -
  let ?K = "{x \<in> S. key x = key e}"
  have "finite ?K" "?K \<noteq> {}" using assms by auto
  then obtain c where "c \<in> ?K" "\<forall>x \<in> ?K. \<not> wins x c" using ex_best by blast
  then have "c \<in> stream_heads key wins S" "key c = key e"
    by (auto simp: stream_heads_def)
  then show ?thesis by blast
qed

lemma heads_insert_fresh:
  assumes "key e = None \<or> key e \<notin> key ` S"
  shows "stream_heads key wins (insert e S) = insert e (stream_heads key wins S)"
proof -
  have "key e = None \<or> key x \<noteq> key e" if "x \<in> S" for x using assms that by (metis imageI)
  then show ?thesis by (fastforce simp: stream_heads_def wins_irrefl)
qed

lemma heads_insert_loses:
  assumes "c \<in> S" "key c = key e" "key c \<noteq> None" "wins c e"
  shows "stream_heads key wins (insert e S) = stream_heads key wins S"
proof (intro equalityI subsetI)
  fix x assume x: "x \<in> stream_heads key wins (insert e S)"
  with assms have "x \<noteq> e" by (auto simp: stream_heads_def)
  with x show "x \<in> stream_heads key wins S" by (auto simp: stream_heads_def)
next
  fix x assume x: "x \<in> stream_heads key wins S"
  have "\<not> wins e x" if "key e = key x" "key x \<noteq> None"
  proof
    assume "wins e x"
    with assms(4) have "wins c x" by (rule wins_trans)
    with x that assms show False by (auto simp: stream_heads_def)
  qed
  with x show "x \<in> stream_heads key wins (insert e S)" by (auto simp: stream_heads_def)
qed

lemma heads_insert_wins:
  assumes "c \<in> stream_heads key wins S" "key c = key e" "key c \<noteq> None" "wins e c"
    and "inj_on ident S"
  shows "stream_heads key wins (insert e S) = insert e (stream_heads key wins S - {c})"
proof -
  have best: "\<not> wins x e" if "x \<in> S" "key x = key e" for x
  proof
    assume "wins x e"
    then have "wins x c" using assms(4) by (rule wins_trans)
    with that assms show False by (auto simp: stream_heads_def)
  qed
  show ?thesis
  proof (intro equalityI subsetI)
    fix x assume x: "x \<in> stream_heads key wins (insert e S)"
    then have "x \<noteq> c" using assms wins_irrefl by (auto simp: stream_heads_def)
    with x show "x \<in> insert e (stream_heads key wins S - {c})"
      by (auto simp: stream_heads_def)
  next
    fix x assume "x \<in> insert e (stream_heads key wins S - {c})"
    then consider "x = e" | "x \<in> stream_heads key wins S" "x \<noteq> c" by blast
    then show "x \<in> stream_heads key wins (insert e S)"
    proof cases
      case 1
      with best show ?thesis by (auto simp: stream_heads_def wins_irrefl)
    next
      case 2
      with assms have "key x \<noteq> key e \<or> key x = None" using heads_unique by metis
      with 2 show ?thesis by (auto simp: stream_heads_def)
    qed
  qed
qed

lemma step_heads:
  assumes S: "finite S" "inj_on ident (insert (ev s) S)" "\<not> skip (ev s)"
    and ss: "ev ` set ss = stream_heads key wins S" "distinct (map (\<lambda>s. ident (ev s)) ss)"
  shows "ev ` set (step ss s) = stream_heads key wins (insert (ev s) S)"
proof -
  let ?e = "ev s" and ?H = "stream_heads key wins S"
  have inj: "inj_on ident S" using S(2) by (rule inj_on_subset) blast
  have HS: "?H \<subseteq> S" by (rule stream_heads_subset)
  have ide: "ident ?e \<notin> ident ` ?H" if "?e \<notin> ?H"
  proof
    assume "ident ?e \<in> ident ` ?H"
    then obtain x where "x \<in> ?H" "ident ?e = ident x" by blast
    with HS S(2) have "?e = x" by (intro inj_onD [OF S(2)]) auto
    with \<open>x \<in> ?H\<close> that show False by simp
  qed
  have head: "\<exists>c \<in> ?H. key c = key ?e" if "key ?e \<noteq> None" "key ?e \<in> key ` S"
  proof -
    from that(2) obtain x where "x \<in> S" "key x = key ?e" by (metis imageE)
    with that(1) ex_head [OF S(1), of x] show ?thesis by simp
  qed
  consider (known) "?e \<in> ?H" | (fresh) "?e \<notin> ?H" "key ?e = None \<or> key ?e \<notin> key ` S"
    | (other) c where "?e \<notin> ?H" "c \<in> ?H" "key c = key ?e" "key c \<noteq> None"
    using head by fastforce
  then show ?thesis
  proof cases
    case known
    then have "step ss s = ss" "insert ?e S = S" using ss HS by (auto intro: step_known)
    with ss show ?thesis by simp
  next
    case fresh
    then have "key ?e = None \<or> key ?e \<notin> key ` ?H" using HS by blast
    then have "ev ` set (step ss s) = insert ?e ?H"
      by (rule step_fresh [OF S(3), of ss, unfolded ss(1), OF ide [OF fresh(1)]])
    with heads_insert_fresh [OF fresh(2)] show ?thesis by simp
  next
    case other
    have uniq: "\<forall>c' \<in> ?H. key c' = key c \<longrightarrow> c' = c"
      by (intro ballI impI heads_unique [OF inj _ other(2) _ other(4)])
    have idc: "ident ?e \<noteq> ident c" using ide [OF other(1)] other(2) by blast
    show ?thesis
    proof (cases "wins ?e c")
      case True
      have "ev ` set (step ss s) = insert ?e (?H - {c})"
        by (rule step_wins [OF S(3), of ss c, unfolded ss(1),
              OF ide [OF other(1)] other(2,3,4) uniq ss(2) True])
      with heads_insert_wins [OF other(2,3,4) True inj] show ?thesis by simp
    next
      case False
      then have "wins c ?e" using idc wins_total by blast
      then have "stream_heads key wins (insert ?e S) = ?H"
        using other HS by (intro heads_insert_loses) auto
      moreover have "step ss s = ss"
        by (rule step_loses [OF S(3), of c ss, unfolded ss(1), OF other(2,3,4) uniq False])
      ultimately show ?thesis using ss(1) by simp
    qed
  qed
qed

text \<open>An event already reduced changes nothing when it is offered again.\<close>

lemma step_repeat:
  assumes S: "finite S" "inj_on ident S" "\<not> skip (ev s)" "ev s \<in> S"
    and ss: "ev ` set ss = stream_heads key wins S"
  shows "step ss s = ss"
proof (cases "ev s \<in> stream_heads key wins S")
  case True
  with ss show ?thesis by (intro step_known) auto
next
  case False
  with S(4) have k: "key (ev s) \<noteq> None" by (auto simp: stream_heads_def)
  obtain c where c: "c \<in> stream_heads key wins S" "key c = key (ev s)"
    using ex_head [OF S(1,4) k] by blast
  have loses: "\<not> wins (ev s) c" using c S(4) k by (auto simp: stream_heads_def)
  have kc: "key c \<noteq> None" using c(2) k by metis
  have uniq: "\<forall>c' \<in> stream_heads key wins S. key c' = key c \<longrightarrow> c' = c"
    by (intro ballI impI heads_unique [OF S(2) _ c(1) _ kc])
  show ?thesis by (rule step_loses [OF S(3), of c ss, unfolded ss, OF c kc uniq loses])
qed

text \<open>Folding the step over a history gives the heads of the events the history holds.\<close>

lemma fold_heads:
  assumes "inj_on ident (ev ` set hist)"
  shows "ev ` set (foldl step [] hist) = stream_heads key wins {e \<in> ev ` set hist. \<not> skip e}
    \<and> distinct (map (\<lambda>s. ident (ev s)) (foldl step [] hist))"
  using assms
proof (induction hist rule: rev_induct)
  case Nil
  then show ?case by (simp add: stream_heads_def)
next
  case (snoc s hist)
  have "inj_on ident (ev ` set hist)" using snoc.prems by (rule inj_on_subset) auto
  then have IH: "ev ` set (foldl step [] hist)
      = stream_heads key wins {e \<in> ev ` set hist. \<not> skip e}"
    "distinct (map (\<lambda>s. ident (ev s)) (foldl step [] hist))"
    using snoc.IH by blast+
  show ?case
  proof (cases "skip (ev s)")
    case True
    then have "{e \<in> ev ` set (hist @ [s]). \<not> skip e} = {e \<in> ev ` set hist. \<not> skip e}" by auto
    with True IH show ?thesis by (simp add: step_skip)
  next
    case False
    then have "{e \<in> ev ` set (hist @ [s]). \<not> skip e}
      = insert (ev s) {e \<in> ev ` set hist. \<not> skip e}" by auto
    moreover have "inj_on ident (insert (ev s) {e \<in> ev ` set hist. \<not> skip e})"
      using snoc.prems by (rule inj_on_subset) auto
    ultimately show ?thesis
      using step_heads [OF _ _ False IH] step_distinct IH by simp
  qed
qed

lemma fold_converges:
  assumes "inj_on ident (ev ` set hist)" "ev ` set hist = ev ` set hist'"
  shows "ev ` set (foldl step [] hist) = ev ` set (foldl step [] hist')"
  using assms fold_heads [of hist] fold_heads [of hist'] by simp

end

section \<open>The reducer of the code\<close>

lemma classify_event_simps [simp]:
  "is_ephemeral_kind (ev_kind e) \<Longrightarrow> classify_event e = EphemeralClass"
  "\<not> is_ephemeral_kind (ev_kind e) \<Longrightarrow> replacement_key e = None \<Longrightarrow> classify_event e = Regular"
  "\<not> is_ephemeral_kind (ev_kind e) \<Longrightarrow> replacement_key e = Some k \<Longrightarrow> classify_event e = Replaceable k"
  by (simp_all add: classify_event_def)

lemma replaceable_not_ephemeral:
  "replacement_key e = Some k \<Longrightarrow> \<not> is_ephemeral_kind (ev_kind e)"
  by (auto simp: replacement_key_def is_ephemeral_kind_def Let_def split: if_splits)

lemma list_ex_id:
  "list_ex (\<lambda>s. ev_id (se_event s) = i) ss \<longleftrightarrow> i \<in> ev_id ` se_event ` set ss"
  by (auto simp: list_ex_iff)

lemma apply_not_stored:
  "decide_event ss False (se_event s) \<noteq> Stored \<Longrightarrow>
   apply_effective_event ss s = (ss, decide_event ss False (se_event s))"
  by (simp add: apply_effective_event_def Let_def)

lemma apply_decision: "snd (apply_effective_event ss s) = decide_event ss False (se_event s)"
  by (auto simp: apply_effective_event_def Let_def split: option.splits)

lemma decide_known: "ev_id e \<in> ev_id ` se_event ` set ss \<Longrightarrow> decide_event ss b e = Duplicate"
  by (auto simp: decide_event_def list_ex_id)

lemma decide_ephemeral:
  "is_ephemeral_kind (ev_kind e) \<Longrightarrow> decide_event ss b e \<in> {Duplicate, Ephemeral}"
  by (simp add: decide_event_def)

lemma step_append:
  assumes "\<not> is_ephemeral_kind (ev_kind (se_event s))"
    and "ev_id (se_event s) \<notin> ev_id ` se_event ` set ss"
    and "replacement_key (se_event s) = None
      \<or> replacement_key (se_event s) \<notin> replacement_key ` se_event ` set ss"
  shows "apply_effective_event ss s = (ss @ [s], Stored)"
proof (cases "replacement_key (se_event s)")
  case None
  with assms show ?thesis
    by (simp add: apply_effective_event_def decide_event_def list_ex_id)
next
  case (Some k)
  with assms(3) have none: "\<forall>x \<in> set ss. replacement_key (se_event x) \<noteq> Some k" by force
  then have "find (\<lambda>s. replacement_key (se_event s) = Some k) ss = None"
    "find_index (\<lambda>s. replacement_key (se_event s) = Some k) ss = None"
    by (auto simp: find_None_iff find_index_None)
  with Some assms show ?thesis
    by (simp add: apply_effective_event_def decide_event_def list_ex_id)
qed

lemma find_stream:
  assumes "c \<in> se_event ` set ss" "replacement_key c = Some k"
    and "\<forall>c' \<in> se_event ` set ss. replacement_key c' = replacement_key c \<longrightarrow> c' = c"
  obtains i where "i < length ss" "se_event (ss ! i) = c"
    "find_index (\<lambda>s. replacement_key (se_event s) = Some k) ss = Some i"
    "find (\<lambda>s. replacement_key (se_event s) = Some k) ss = Some (ss ! i)"
proof -
  let ?P = "\<lambda>s. replacement_key (se_event s) = Some k"
  have "find_index ?P ss \<noteq> None" using assms(1,2) by (auto simp: find_index_None)
  then obtain i where i: "find_index ?P ss = Some i" by blast
  then have p: "i < length ss" "?P (ss ! i)" "find ?P ss = Some (ss ! i)"
    using find_index_Some by blast+
  then have "se_event (ss ! i) = c" using assms(2,3) by force
  with i p that show thesis by blast
qed

lemma step_superseded:
  assumes "\<not> is_ephemeral_kind (ev_kind (se_event s))" "c \<in> se_event ` set ss"
    and "replacement_key c = replacement_key (se_event s)" "replacement_key c \<noteq> None"
    and "\<forall>c' \<in> se_event ` set ss. replacement_key c' = replacement_key c \<longrightarrow> c' = c"
    and "\<not> replacement_candidate_wins (se_event s) c"
  shows "effective_step ss s = ss"
proof -
  obtain k where k: "replacement_key c = Some k" using assms(4) by blast
  then obtain i where "se_event (ss ! i) = c"
    "find (\<lambda>s. replacement_key (se_event s) = Some k) ss = Some (ss ! i)"
    using find_stream [OF assms(2) _ assms(5)] by blast
  moreover have "replacement_key (se_event s) = Some k" using assms(3) k by simp
  ultimately have "decide_event ss False (se_event s) \<noteq> Stored"
    using assms(1,6) by (simp add: decide_event_def)
  then show ?thesis by (simp add: apply_not_stored)
qed

lemma step_replace:
  assumes "\<not> is_ephemeral_kind (ev_kind (se_event s))"
    and "ev_id (se_event s) \<notin> ev_id ` se_event ` set ss" "c \<in> se_event ` set ss"
    and "replacement_key c = replacement_key (se_event s)" "replacement_key c \<noteq> None"
    and "\<forall>c' \<in> se_event ` set ss. replacement_key c' = replacement_key c \<longrightarrow> c' = c"
    and "replacement_candidate_wins (se_event s) c"
  obtains i where "i < length ss" "se_event (ss ! i) = c"
    "apply_effective_event ss s = (ss[i := s], Stored)"
proof -
  obtain k where k: "replacement_key c = Some k" using assms(5) by blast
  then obtain i where i: "i < length ss" "se_event (ss ! i) = c"
    "find_index (\<lambda>s. replacement_key (se_event s) = Some k) ss = Some i"
    "find (\<lambda>s. replacement_key (se_event s) = Some k) ss = Some (ss ! i)"
    using find_stream [OF assms(3) _ assms(6)] by blast
  have "replacement_key (se_event s) = Some k" using assms(4) k by simp
  then have "apply_effective_event ss s = (ss[i := s], Stored)"
    using assms(1,2,7) i by (simp add: apply_effective_event_def decide_event_def list_ex_id)
  with i that show thesis by blast
qed

lemma step_ids_distinct:
  assumes "distinct (map (\<lambda>s. ev_id (se_event s)) ss)"
  shows "distinct (map (\<lambda>s. ev_id (se_event s)) (effective_step ss s))"
proof (cases "decide_event ss False (se_event s) = Stored")
  case False
  with assms show ?thesis by (simp add: apply_not_stored)
next
  case True
  then have "ev_id (se_event s) \<notin> set (map (\<lambda>s. ev_id (se_event s)) ss)"
    using decide_known [of "se_event s" ss] by auto
  with True assms show ?thesis
    by (auto simp: apply_effective_event_def Let_def map_update distinct_list_update
        split: option.splits simp del: set_map)
qed

interpretation eff: effective_reducer replacement_candidate_wins ev_id replacement_key
  "\<lambda>e. is_ephemeral_kind (ev_kind e)" se_event effective_step
proof unfold_locales
  fix s :: stored_event and ss :: "stored_event list"
  show "effective_step ss s = ss" if "is_ephemeral_kind (ev_kind (se_event s))"
    using decide_ephemeral [OF that, of ss False] by (auto simp: apply_not_stored)
  show "effective_step ss s = ss" if "ev_id (se_event s) \<in> ev_id ` se_event ` set ss"
    using decide_known [OF that, of False] by (simp add: apply_not_stored)
  show "se_event ` set (effective_step ss s) = insert (se_event s) (se_event ` set ss)"
    if "\<not> is_ephemeral_kind (ev_kind (se_event s))"
      "ev_id (se_event s) \<notin> ev_id ` se_event ` set ss"
      "replacement_key (se_event s) = None
        \<or> replacement_key (se_event s) \<notin> replacement_key ` se_event ` set ss"
    using step_append [OF that] by simp
  show "distinct (map (\<lambda>s. ev_id (se_event s)) (effective_step ss s))"
    if "distinct (map (\<lambda>s. ev_id (se_event s)) ss)"
    using that by (rule step_ids_distinct)
next
  fix s :: stored_event and ss :: "stored_event list" and c
  assume a: "\<not> is_ephemeral_kind (ev_kind (se_event s))"
    and c: "c \<in> se_event ` set ss" "replacement_key c = replacement_key (se_event s)"
      "replacement_key c \<noteq> None"
      "\<forall>c' \<in> se_event ` set ss. replacement_key c' = replacement_key c \<longrightarrow> c' = c"
  show "effective_step ss s = ss" if "\<not> replacement_candidate_wins (se_event s) c"
    using step_superseded [OF a c that] .
  assume f: "ev_id (se_event s) \<notin> ev_id ` se_event ` set ss"
    and d: "distinct (map (\<lambda>s. ev_id (se_event s)) ss)"
    and w: "replacement_candidate_wins (se_event s) c"
  obtain i where i: "i < length ss" "se_event (ss ! i) = c"
    "apply_effective_event ss s = (ss[i := s], Stored)"
    using step_replace [OF a f c w] by blast
  have "distinct (map se_event ss)"
    using d by (auto simp: distinct_map inj_on_def)
  then have "set ((map se_event ss)[i := se_event s]) = insert (se_event s) (set (map se_event ss) - {c})"
    using i by (simp add: set_update_distinct)
  with i show "se_event ` set (effective_step ss s) = insert (se_event s) (se_event ` set ss - {c})"
    by (simp add: map_update [symmetric])
qed

end
