(* ===== verification/Filters.thy ===== *)
theory Filters
  imports Ingest
begin

text \<open>
  NIP-01 filter matching and the read gates that depend on an event's kind:
  \<open>buzz-core/src/filter.rs\<close> and the parts of \<open>buzz-core/src/kind.rs\<close> the relay uses.
\<close>

section \<open>Kinds\<close>

definition KIND_GIFT_WRAP :: nat where "KIND_GIFT_WRAP = 1059"
definition KIND_AUTH :: nat where "KIND_AUTH = 22242"
definition KIND_HTTP_AUTH :: nat where "KIND_HTTP_AUTH = 27235"
definition KIND_SYNC_DECLARATION :: nat where "KIND_SYNC_DECLARATION = 30700"
definition KIND_BEACON_PULSE :: nat where "KIND_BEACON_PULSE = 20700"
definition KIND_BEACON_RESPONSE :: nat where "KIND_BEACON_RESPONSE = 20701"
definition KIND_EVENT_REMINDER :: nat where "KIND_EVENT_REMINDER = 30300"
definition KIND_PUSH_LEASE :: nat where "KIND_PUSH_LEASE = 30350"
definition KIND_PERSONA :: nat where "KIND_PERSONA = 30175"
definition KIND_NIP29_CREATE_GROUP :: nat where "KIND_NIP29_CREATE_GROUP = 9007"
definition KIND_NIP29_GROUP_METADATA :: nat where "KIND_NIP29_GROUP_METADATA = 39000"
definition KIND_NIP29_GROUP_ADMINS :: nat where "KIND_NIP29_GROUP_ADMINS = 39001"
definition KIND_NIP29_GROUP_MEMBERS :: nat where "KIND_NIP29_GROUP_MEMBERS = 39002"
definition KIND_DM_VISIBILITY :: nat where "KIND_DM_VISIBILITY = 30622"
definition KIND_AGENT_OBSERVER_FRAME :: nat where "KIND_AGENT_OBSERVER_FRAME = 24200"
definition KIND_MEMBER_ADDED_NOTIFICATION :: nat where "KIND_MEMBER_ADDED_NOTIFICATION = 44100"
definition KIND_MEMBER_REMOVED_NOTIFICATION :: nat where "KIND_MEMBER_REMOVED_NOTIFICATION = 44101"
definition KIND_AGENT_TURN_METRIC :: nat where "KIND_AGENT_TURN_METRIC = 44200"

lemmas kind_defs = KIND_GIFT_WRAP_def KIND_AUTH_def KIND_HTTP_AUTH_def KIND_SYNC_DECLARATION_def
  KIND_BEACON_PULSE_def KIND_BEACON_RESPONSE_def KIND_EVENT_REMINDER_def KIND_PUSH_LEASE_def
  KIND_PERSONA_def KIND_NIP29_CREATE_GROUP_def KIND_NIP29_GROUP_METADATA_def
  KIND_NIP29_GROUP_ADMINS_def KIND_NIP29_GROUP_MEMBERS_def KIND_DM_VISIBILITY_def
  KIND_AGENT_OBSERVER_FRAME_def KIND_MEMBER_ADDED_NOTIFICATION_def
  KIND_MEMBER_REMOVED_NOTIFICATION_def KIND_AGENT_TURN_METRIC_def

definition AUTHOR_ONLY_KINDS :: "nat list" where
  "AUTHOR_ONLY_KINDS = [KIND_EVENT_REMINDER, KIND_PUSH_LEASE]"

definition P_GATED_KINDS :: "nat list" where
  "P_GATED_KINDS = [KIND_AGENT_OBSERVER_FRAME, KIND_MEMBER_ADDED_NOTIFICATION,
     KIND_MEMBER_REMOVED_NOTIFICATION, KIND_GIFT_WRAP, KIND_DM_VISIBILITY,
     KIND_AGENT_TURN_METRIC]"

definition event_kind_u32 :: "event \<Rightarrow> nat" where
  "event_kind_u32 e = ev_kind e"

definition is_ephemeral :: "nat \<Rightarrow> bool" where
  "is_ephemeral kind = (20000 \<le> kind \<and> kind \<le> 29999)"

definition is_replaceable :: "nat \<Rightarrow> bool" where
  "is_replaceable kind = (kind = 0 \<or> kind = 3 \<or> kind = 41 \<or> (10000 \<le> kind \<and> kind \<le> 19999))"

definition is_parameterized_replaceable :: "nat \<Rightarrow> bool" where
  "is_parameterized_replaceable kind = (30000 \<le> kind \<and> kind \<le> 39999)"

definition is_persona_shared_kind :: "nat \<Rightarrow> bool" where
  "is_persona_shared_kind kind = (kind = KIND_PERSONA)"

text \<open>The loop returns at the first two-element \<open>shared\<close> tag with another value.\<close>

fun count_shared :: "nat \<Rightarrow> tag list \<Rightarrow> bool" where
  "count_shared n [] = (n = 1)"
| "count_shared n (t # ts) =
     (if length (tag_values_list t) = 2 \<and> tag_name t = ''shared''
      then (if tag_content t \<noteq> Some ''true'' then False else count_shared (n + 1) ts)
      else count_shared n ts)"

definition persona_event_is_shared :: "event \<Rightarrow> bool" where
  "persona_event_is_shared e = count_shared 0 (ev_tags e)"

definition is_unshared_persona_event :: "event \<Rightarrow> pubkey \<Rightarrow> bool" where
  "is_unshared_persona_event e requester =
     (if \<not> is_persona_shared_kind (ev_kind e) then False
      else if ev_pubkey e = requester then False
      else \<not> persona_event_is_shared e)"

section \<open>Filter matching\<close>

definition tag_filter_matches :: "stored_event \<Rightarrow> string \<times> string list \<Rightarrow> bool" where
  "tag_filter_matches ev kv =
     (let key = fst kv; vals = snd kv; ts = ev_tags (se_event ev);
          has_match = list_ex (\<lambda>v. list_ex (\<lambda>w. w = v)
            (List.map_filter tag_content (filter (\<lambda>t. tag_name t = key) ts))) vals
      in if \<not> has_match \<and> key = ''h''
         then (if \<not> list_ex (\<lambda>t. tag_name t = ''h'') ts
               then (case se_channel_id ev of
                       Some ch \<Rightarrow> list_ex (\<lambda>v. v = ch) vals
                     | None \<Rightarrow> False)
               else False)
         else has_match)"

definition filter_match_one :: "nostr_filter \<Rightarrow> stored_event \<Rightarrow> bool" where
  "filter_match_one f ev =
     ((case f_kinds f of None \<Rightarrow> True | Some ks \<Rightarrow> ev_kind (se_event ev) \<in> set ks)
      \<and> (case f_authors f of None \<Rightarrow> True | Some as \<Rightarrow> ev_pubkey (se_event ev) \<in> set as)
      \<and> (case f_since f of None \<Rightarrow> True | Some t \<Rightarrow> \<not> ev_created_at (se_event ev) < t)
      \<and> (case f_until f of None \<Rightarrow> True | Some t \<Rightarrow> \<not> t < ev_created_at (se_event ev))
      \<and> (case f_ids f of None \<Rightarrow> True
         | Some ids \<Rightarrow> list_ex (\<lambda>i. starts_with (ev_id (se_event ev)) i) ids)
      \<and> list_all (tag_filter_matches ev) (f_generic_tags f))"

definition filters_match :: "nostr_filter list \<Rightarrow> stored_event \<Rightarrow> bool" where
  "filters_match fs ev = list_ex (\<lambda>f. filter_match_one f ev) fs"

definition reader_authorized_for_event :: "event \<Rightarrow> string \<Rightarrow> bool" where
  "reader_authorized_for_event e reader =
     (let kind = event_kind_u32 e in
      if kind \<noteq> KIND_DM_VISIBILITY \<and> kind \<noteq> KIND_AGENT_TURN_METRIC then True
      else list_ex (\<lambda>t. tag_content t = Some reader)
             (filter (\<lambda>t. tag_name t = ''p'') (ev_tags e)))"

section \<open>Lemmas\<close>

lemma filters_match_one [simp]: "filters_match [f] ev = filter_match_one f ev"
  by (simp add: filters_match_def)

lemma filters_match_Nil [simp]: "\<not> filters_match [] ev"
  by (simp add: filters_match_def)

lemma filter_match_until:
  "filter_match_one (f\<lparr>f_until := Some t\<rparr>) ev \<longleftrightarrow>
     filter_match_one (f\<lparr>f_until := None\<rparr>) ev \<and> ev_created_at (se_event ev) \<le> t"
  by (auto simp: filter_match_one_def)

text \<open>Matching reads the limit, the search text and the reception data of no event.\<close>

lemma filter_match_limit [simp]:
  "filter_match_one (f\<lparr>f_limit := n\<rparr>) ev = filter_match_one f ev"
  by (simp add: filter_match_one_def)

lemma filter_match_event_channel:
  assumes "se_event a = se_event b" "se_channel_id a = se_channel_id b"
  shows "filter_match_one f a = filter_match_one f b"
proof -
  have "tag_filter_matches a kv = tag_filter_matches b kv" for kv
    unfolding tag_filter_matches_def assms ..
  then have "tag_filter_matches a = tag_filter_matches b" by blast
  then show ?thesis unfolding filter_match_one_def assms(1) by simp
qed

lemma filters_match_event_channel:
  "se_event a = se_event b \<Longrightarrow> se_channel_id a = se_channel_id b \<Longrightarrow>
   filters_match fs a = filters_match fs b"
  by (simp add: filters_match_def filter_match_event_channel [of a b])

text \<open>The kind table of \<open>kind.rs\<close> agrees with the classification on the ephemeral range.\<close>

lemma is_ephemeral_agrees: "is_ephemeral kind = is_ephemeral_kind kind"
  by (auto simp: is_ephemeral_def is_ephemeral_kind_def)

end
