(* ===== verification/Auth_Evidence.thy ===== *)
theory Auth_Evidence
  imports Filters
begin

text \<open>
  Authentication evidence: the identity vocabulary of \<open>buzz-core/src/identity.rs\<close> and the
  two verifiers of \<open>buzz-auth\<close> (\<open>nip42.rs\<close> for WebSocket challenge-response,
  \<open>nip98.rs\<close> for HTTP requests) with their error type (\<open>error.rs\<close>). The lemmas say
  what acceptance of a proof establishes.
\<close>

section \<open>Identity vocabulary\<close>

datatype principal = NostrPrincipal pubkey | RelayNode string | SystemPrincipal string

fun nostr_pubkey :: "principal \<Rightarrow> pubkey option" where
  "nostr_pubkey (NostrPrincipal pubkey) = Some pubkey"
| "nostr_pubkey (RelayNode i) = None"
| "nostr_pubkey (SystemPrincipal i) = None"

fun relay_node_id :: "principal \<Rightarrow> string option" where
  "relay_node_id (RelayNode i) = Some i"
| "relay_node_id (NostrPrincipal pubkey) = None"
| "relay_node_id (SystemPrincipal i) = None"

datatype authentication_method =
  Nip42Method | Nip98Method | RelayNodeChallenge | MutuallyAuthenticatedPeerChannel | TrustedLocal

record authenticated_principal =
  ap_principal :: principal
  ap_method :: authentication_method
  ap_audience :: string
  ap_authenticated_at :: nat
  ap_expires_at :: "nat option"
  ap_proof_id :: "string option"

datatype append_context = Direct | FromReplication string | FromSystem

datatype read_operation = QueryOp | CountOp | HistoricalSubscription | LiveDelivery

datatype identity_denial_code =
    AuthenticationRequired
  | InvalidEvidence
  | EvidenceExpired
  | AudienceMismatch
  | ReplayDetected
  | AuthorMismatch
  | DelegationInvalid
  | PeerUnbound
  | SourceMismatch
  | ScopeDenied
  | EventDisclosureDenied

fun denial_code_str :: "identity_denial_code \<Rightarrow> string" where
  "denial_code_str AuthenticationRequired = ''authentication_required''"
| "denial_code_str InvalidEvidence = ''invalid_evidence''"
| "denial_code_str EvidenceExpired = ''evidence_expired''"
| "denial_code_str AudienceMismatch = ''audience_mismatch''"
| "denial_code_str ReplayDetected = ''replay_detected''"
| "denial_code_str AuthorMismatch = ''author_mismatch''"
| "denial_code_str DelegationInvalid = ''delegation_invalid''"
| "denial_code_str PeerUnbound = ''peer_unbound''"
| "denial_code_str SourceMismatch = ''source_mismatch''"
| "denial_code_str ScopeDenied = ''scope_denied''"
| "denial_code_str EventDisclosureDenied = ''event_disclosure_denied''"

datatype authorization_decision = Allowed | DeniedBy identity_denial_code

fun is_allowed :: "authorization_decision \<Rightarrow> bool" where
  "is_allowed Allowed = True"
| "is_allowed (DeniedBy code) = False"

fun decision_denial_code :: "authorization_decision \<Rightarrow> identity_denial_code option" where
  "decision_denial_code Allowed = None"
| "decision_denial_code (DeniedBy code) = Some code"

record peer_binding =
  pb_source :: string
  pb_relay_node_principal :: string
  pb_verification_method :: string

section \<open>Verification of evidence\<close>

datatype auth_error =
    InvalidSignature
  | ChallengeMismatch
  | RelayUrlMismatch
  | EventExpired
  | Nip98Invalid string
  | Nip98Replay
  | PubkeyMismatch
  | InsufficientScope string "string list"
  | ChannelAccessDenied
  | AuthInternal string

definition TIMESTAMP_TOLERANCE_SECS :: nat where
  "TIMESTAMP_TOLERANCE_SECS = 60"

text \<open>\<open>trim_end_matches('/')\<close>\<close>

definition trim_end_slashes :: "string \<Rightarrow> string" where
  "trim_end_slashes s = rev (dropWhile (\<lambda>c. c = CHR ''/'') (rev s))"

definition normalize_relay_url :: "nostr_lib \<Rightarrow> string \<Rightarrow> string" where
  "normalize_relay_url L raw =
     (case l_url_parse L raw of
        None \<Rightarrow> raw
      | Some u \<Rightarrow>
          (let u = (case l_url_host L u of
                      Some host \<Rightarrow>
                        if host = ''localhost'' \<or> host = ''::1''
                        then l_url_set_host L u ''127.0.0.1'' else u
                    | None \<Rightarrow> u);
               path = trim_end_slashes (l_url_path L u)
           in l_url_to_string L (l_url_set_path L u path)))"

definition verify_nip42_event_at ::
  "nostr_lib \<Rightarrow> event \<Rightarrow> string \<Rightarrow> string \<Rightarrow> nat \<Rightarrow> auth_error + unit" where
  "verify_nip42_event_at L e expected_challenge relay_url now =
     and_then (require (ev_kind e = KIND_AUTH) InvalidSignature) (\<lambda>_.
     and_then (map_err (\<lambda>_. InvalidSignature) (verify_event L e)) (\<lambda>_.
     and_then (ok_or ChallengeMismatch (tag_find_content (ev_tags e) ''challenge'')) (\<lambda>challenge.
     and_then (require (challenge = expected_challenge) ChallengeMismatch) (\<lambda>_.
     and_then (ok_or RelayUrlMismatch (tag_find_content (ev_tags e) ''relay'')) (\<lambda>relay.
     and_then (require (normalize_relay_url L relay = normalize_relay_url L relay_url)
       RelayUrlMismatch) (\<lambda>_.
     require (abs_diff now (ev_created_at e) \<le> TIMESTAMP_TOLERANCE_SECS) EventExpired))))))"

definition normalize_url :: "nostr_lib \<Rightarrow> string \<Rightarrow> string" where
  "normalize_url L raw =
     (case l_url_parse L raw of
        None \<Rightarrow> l_to_lowercase L raw
      | Some u \<Rightarrow> l_url_to_string L (l_url_set_path L u (trim_end_slashes (l_url_path L u))))"

text \<open>The two bytes of the plus-minus sign in UTF-8.\<close>

definition plus_minus :: string where
  "plus_minus = [char_of (194::nat), char_of (177::nat)]"

definition verify_nip98_event_at ::
  "nostr_lib \<Rightarrow> string \<Rightarrow> string \<Rightarrow> string \<Rightarrow> string option \<Rightarrow> nat \<Rightarrow> auth_error + pubkey" where
  "verify_nip98_event_at L event_json expected_url expected_method body now =
     and_then (map_err (\<lambda>e. Nip98Invalid (''event JSON parse error: '' @ e))
       (l_event_from_str L event_json)) (\<lambda>e.
     and_then (require (ev_kind e = KIND_HTTP_AUTH)
       (Nip98Invalid (''expected kind 27235, got '' @ show_nat (ev_kind e)))) (\<lambda>_.
     and_then (map_err (\<lambda>_. Nip98Invalid ''invalid Schnorr signature'') (verify_event L e)) (\<lambda>_.
     and_then (require (abs_diff now (ev_created_at e) \<le> TIMESTAMP_TOLERANCE_SECS)
       (Nip98Invalid (''event timestamp outside '' @ plus_minus
          @ show_nat TIMESTAMP_TOLERANCE_SECS @ ''s window (delta: ''
          @ show_nat (abs_diff now (ev_created_at e)) @ ''s)''))) (\<lambda>_.
     and_then (ok_or (Nip98Invalid ''missing `u` tag'') (tag_find_content (ev_tags e) ''u'')) (\<lambda>u_tag.
     and_then (require (normalize_url L u_tag = normalize_url L expected_url)
       (Nip98Invalid (''URL mismatch: event has `'' @ u_tag @ ''`, expected `''
          @ expected_url @ ''`''))) (\<lambda>_.
     and_then (ok_or (Nip98Invalid ''missing `method` tag'')
       (tag_find_content (ev_tags e) ''method'')) (\<lambda>method_tag.
     and_then (require (eq_ignore_ascii_case method_tag expected_method)
       (Nip98Invalid (''method mismatch: event has `'' @ method_tag @ ''`, expected `''
          @ expected_method @ ''`''))) (\<lambda>_.
     and_then (case (tag_find_content (ev_tags e) ''payload'', body) of
         (Some payload_hex, Some body_bytes) \<Rightarrow>
           require (l_sha256_hex L body_bytes = payload_hex)
             (Nip98Invalid
                ''payload tag SHA-256 mismatch: request body does not match signed hash'')
       | _ \<Rightarrow> Inr ()) (\<lambda>_.
     Inr (ev_pubkey e))))))))))"

section \<open>What acceptance establishes\<close>

lemma denial_code_str_inj: "denial_code_str a = denial_code_str b \<longleftrightarrow> a = b"
  by (cases a; cases b) simp_all

lemma decision_code_None [simp]: "decision_denial_code d = None \<longleftrightarrow> is_allowed d"
  by (cases d) simp_all

lemma verify_nip42_accepts:
  "verify_nip42_event_at L e challenge relay_url now = Inr u \<longleftrightarrow>
     ev_kind e = KIND_AUTH \<and> verify_event L e = Inr ()
     \<and> tag_find_content (ev_tags e) ''challenge'' = Some challenge
     \<and> (\<exists>r. tag_find_content (ev_tags e) ''relay'' = Some r
           \<and> normalize_relay_url L r = normalize_relay_url L relay_url)
     \<and> abs_diff now (ev_created_at e) \<le> 60"
  by (auto simp: verify_nip42_event_at_def result_simps TIMESTAMP_TOLERANCE_SECS_def)

lemma payload_check_Inr:
  "(case (p, b) of (Some h, Some bytes) \<Rightarrow> require (f bytes = h) err | _ \<Rightarrow> Inr ()) = Inr u \<longleftrightarrow>
     (\<forall>h bytes. p = Some h \<longrightarrow> b = Some bytes \<longrightarrow> f bytes = h)"
  by (cases p; cases b) (simp_all add: result_simps)

lemma verify_nip98_accepts:
  "verify_nip98_event_at L json url method body now = Inr p \<longleftrightarrow>
     (\<exists>e. l_event_from_str L json = Inr e \<and> p = ev_pubkey e \<and> ev_kind e = KIND_HTTP_AUTH
        \<and> verify_event L e = Inr () \<and> abs_diff now (ev_created_at e) \<le> 60
        \<and> (\<exists>u. tag_find_content (ev_tags e) ''u'' = Some u \<and> normalize_url L u = normalize_url L url)
        \<and> (\<exists>m. tag_find_content (ev_tags e) ''method'' = Some m \<and> eq_ignore_ascii_case m method)
        \<and> (\<forall>h b. tag_find_content (ev_tags e) ''payload'' = Some h \<longrightarrow> body = Some b
              \<longrightarrow> l_sha256_hex L b = h))"
  unfolding verify_nip98_event_at_def and_then_eq_Inr payload_check_Inr
  by (auto simp: result_simps TIMESTAMP_TOLERANCE_SECS_def)

end
