(* ===== verification/Event_Store.thy ===== *)
theory Event_Store
  imports Filters
begin

text \<open>
  The durable event store of \<open>buzz-local-relay/src/lib.rs\<close> (\<open>EventStore\<close>,
  \<open>StoreInner\<close>, \<open>replay_log\<close>): opening a store from its append-only log and
  accepting an event. The mutex around the store makes each \<open>accept\<close> atomic behind its
  signature check, so a concurrent history is a sequence of \<open>accept\<close> calls.

  The log file is the field \<open>st_writer\<close>, the bytes appended so far (\<open>None\<close> for an
  in-memory store). What the file system and the blocking task do in one call is the
  argument \<open>accept_env\<close>: a write succeeds, or fails after some bytes of the record.
\<close>

section \<open>Definitions\<close>

datatype file_read = NotFound | ReadError string | Contents string

datatype storage_mode = Durable file_read | EphemeralStorage

record write_result =
  wr_event_id :: string
  wr_accepted :: bool
  wr_message :: string
  wr_publish_live :: bool

definition write_accepted :: "event \<Rightarrow> string \<Rightarrow> bool \<Rightarrow> write_result" where
  "write_accepted e message publish_live =
     \<lparr>wr_event_id = ev_id e, wr_accepted = True, wr_message = message,
      wr_publish_live = publish_live\<rparr>"

definition write_rejected :: "event \<Rightarrow> string \<Rightarrow> write_result" where
  "write_rejected e message =
     \<lparr>wr_event_id = ev_id e, wr_accepted = False, wr_message = message,
      wr_publish_live = False\<rparr>"

datatype store_error =
    Io string
  | MalformedRecord nat string
  | InvalidRecord nat string
  | VerificationTask string
  | Serialization string
  | Materialization string

record store_inner =
  st_events :: "stored_event list"
  st_journal :: "event list"
  st_seen_ids :: "event_id set"
  st_writer :: "string option"

record replayed_log =
  rl_events :: "stored_event list"
  rl_journal :: "event list"
  rl_seen_ids :: "event_id set"

definition replayed_log_default :: replayed_log where
  "replayed_log_default = \<lparr>rl_events = [], rl_journal = [], rl_seen_ids = {}\<rparr>"

definition channel_of :: "nostr_lib \<Rightarrow> event \<Rightarrow> uuid option" where
  "channel_of L e = find_map (\<lambda>v. ok (l_uuid_parse L v))
     (List.map_filter tag_content (filter (\<lambda>t. tag_name t = ''h'') (ev_tags e)))"

definition stored_event_of :: "nostr_lib \<Rightarrow> nat \<Rightarrow> event \<Rightarrow> stored_event" where
  "stored_event_of L now e = with_received_at e now (channel_of L e) True"

text \<open>The loop of \<open>replay_log\<close>; \<open>clock n\<close> is the time at which line \<open>n\<close> is read.\<close>

fun replay_lines ::
  "nostr_lib \<Rightarrow> (nat \<Rightarrow> nat) \<Rightarrow> nat \<Rightarrow> replayed_log \<Rightarrow> string list \<Rightarrow> store_error + replayed_log" where
  "replay_lines L clock n r [] = Inr r"
| "replay_lines L clock n r (line # ls) =
     (if is_blank line then replay_lines L clock (Suc n) r ls
      else (case l_event_from_str L line of
          Inl err \<Rightarrow> Inl (MalformedRecord n err)
        | Inr e \<Rightarrow>
            (case verify_event L e of
                Inl err \<Rightarrow> Inl (InvalidRecord n (verification_error_text err))
              | Inr _ \<Rightarrow>
                  replay_lines L clock (Suc n)
                    \<lparr>rl_events = effective_step (rl_events r) (stored_event_of L (clock n) e),
                     rl_journal = rl_journal r @ [e],
                     rl_seen_ids = insert (ev_id e) (rl_seen_ids r)\<rparr> ls)))"

definition replay_log :: "nostr_lib \<Rightarrow> (nat \<Rightarrow> nat) \<Rightarrow> file_read \<Rightarrow> store_error + replayed_log" where
  "replay_log L clock file =
     (case file of
        ReadError err \<Rightarrow> Inl (Io err)
      | NotFound \<Rightarrow> replay_lines L clock 1 replayed_log_default (lines '''')
      | Contents text \<Rightarrow> replay_lines L clock 1 replayed_log_default (lines text))"

text \<open>
  \<open>open_outcome\<close> is what the blocking replay task, the creation of the parent directory
  and the opening of the file for appending did.
\<close>

datatype open_outcome = OpenOk | ReplayTaskFailed string | OpenFailed string

definition open_store ::
  "nostr_lib \<Rightarrow> (nat \<Rightarrow> nat) \<Rightarrow> open_outcome \<Rightarrow> storage_mode \<Rightarrow> store_error + store_inner" where
  "open_store L clock open_io mode =
     (case mode of
        EphemeralStorage \<Rightarrow>
          Inr \<lparr>st_events = [], st_journal = [], st_seen_ids = {}, st_writer = None\<rparr>
      | Durable file \<Rightarrow>
          and_then (case open_io of ReplayTaskFailed err \<Rightarrow> Inl (VerificationTask err)
                    | _ \<Rightarrow> replay_log L clock file) (\<lambda>r.
            (case open_io of
               OpenFailed err \<Rightarrow> Inl (Io err)
             | _ \<Rightarrow> Inr \<lparr>st_events = rl_events r, st_journal = rl_journal r,
                 st_seen_ids = rl_seen_ids r,
                 st_writer = Some (case file of Contents text \<Rightarrow> text | _ \<Rightarrow> '''')\<rparr>)))"

datatype io_outcome = IoOk | IoFail nat string

record accept_env =
  ae_now :: nat
  ae_io :: io_outcome
  ae_task :: "string option"

text \<open>
  Appending one record: the log after the attempt, and the error if there is one. A failed
  write, flush or sync leaves the first \<open>n\<close> bytes of the record in the file.
\<close>

definition append_record ::
  "nostr_lib \<Rightarrow> io_outcome \<Rightarrow> string option \<Rightarrow> event \<Rightarrow> string option \<times> store_error option" where
  "append_record L io writer e =
     (case writer of
        None \<Rightarrow> (None, None)
      | Some log \<Rightarrow>
          (case l_event_to_str L e of
              Inl err \<Rightarrow> (Some log, Some (Serialization err))
            | Inr json \<Rightarrow>
                (let rec = json @ [CHR 10] in
                 case io of
                   IoOk \<Rightarrow> (Some (log @ rec), None)
                 | IoFail n err \<Rightarrow> (Some (log @ take n rec), Some (Io err)))))"

definition accept ::
  "nostr_lib \<Rightarrow> accept_env \<Rightarrow> store_inner \<Rightarrow> event \<Rightarrow> store_inner \<times> (store_error + write_result)" where
  "accept L env st e =
     (case ae_task env of
        Some err \<Rightarrow> (st, Inl (VerificationTask err))
      | None \<Rightarrow>
     (case verify_event L e of
        Inl reason \<Rightarrow>
          (st, Inr (write_rejected e (''invalid: '' @ verification_error_text reason)))
      | Inr _ \<Rightarrow>
     (case decide_event (st_events st) (ev_id e \<in> st_seen_ids st) e of
        Duplicate \<Rightarrow> (st, Inr (write_accepted e ''duplicate'' False))
      | Ephemeral \<Rightarrow>
          (st\<lparr>st_seen_ids := insert (ev_id e) (st_seen_ids st)\<rparr>,
           Inr (write_accepted e ''ephemeral'' True))
      | Superseded \<Rightarrow>
          (st\<lparr>st_seen_ids := insert (ev_id e) (st_seen_ids st)\<rparr>,
           Inr (write_accepted e ''superseded'' False))
      | Stored \<Rightarrow>
          (case append_record L (ae_io env) (st_writer st) e of
              (writer, Some err) \<Rightarrow> (st\<lparr>st_writer := writer\<rparr>, Inl err)
            | (writer, None) \<Rightarrow>
                (\<lparr>st_events = effective_step (st_events st) (stored_event_of L (ae_now env) e),
                  st_journal = st_journal st @ [e],
                  st_seen_ids = insert (ev_id e) (st_seen_ids st),
                  st_writer = writer\<rparr>,
                 Inr (write_accepted e ''stored'' True))))))"

definition journal_events_referencing :: "store_inner \<Rightarrow> string \<Rightarrow> event list" where
  "journal_events_referencing st sha256 =
     filter (\<lambda>e. list_ex (\<lambda>t. tag_name t = ''x'' \<and> tag_content t = Some sha256) (ev_tags e))
       (st_journal st)"

text \<open>A history of submissions, one after the other.\<close>

fun accept_all :: "nostr_lib \<Rightarrow> store_inner \<Rightarrow> (accept_env \<times> event) list \<Rightarrow> store_inner" where
  "accept_all L st [] = st"
| "accept_all L st ((env, e) # rest) = accept_all L (fst (accept L env st e)) rest"

definition empty_store :: "string option \<Rightarrow> store_inner" where
  "empty_store writer =
     \<lparr>st_events = [], st_journal = [], st_seen_ids = {}, st_writer = writer\<rparr>"

section \<open>The effective projection of a journal\<close>

text \<open>
  The specification the store refines: its effective events are the reduction of its
  journal. Only the events matter, not when they were received.
\<close>

definition project :: "event list \<Rightarrow> event list" where
  "project es = map se_event
     (foldl effective_step [] (map (\<lambda>e. with_received_at e 0 None True) es))"

lemma se_event_simps [simp]:
  "se_event (with_received_at e t c v) = e" "se_event (stored_event_of L t e) = e"
  "se_channel_id (stored_event_of L t e) = channel_of L e"
  by (simp_all add: with_received_at_def stored_event_of_def)

lemma decide_event_alt:
  "decide_event ss b e =
     (if b \<or> ev_id e \<in> ev_id ` set (map se_event ss) then Duplicate
      else (case classify_event e of
          EphemeralClass \<Rightarrow> Ephemeral
        | Regular \<Rightarrow> Stored
        | Replaceable key \<Rightarrow>
            (case find (\<lambda>c. replacement_key c = Some key) (map se_event ss) of
                Some current \<Rightarrow> if \<not> replacement_candidate_wins e current then Superseded else Stored
              | None \<Rightarrow> Stored)))"
proof (cases "classify_event e")
  case (Replaceable key)
  then show ?thesis
    by (cases "find (\<lambda>s. replacement_key (se_event s) = Some key) ss")
      (simp_all add: decide_event_def list_ex_id find_of_map)
qed (simp_all add: decide_event_def list_ex_id)

lemma decide_event_events:
  "map se_event ss = map se_event ss' \<Longrightarrow> decide_event ss b e = decide_event ss' b e"
  by (simp only: decide_event_alt)

lemma apply_effective_event_alt:
  "map se_event (effective_step ss s) =
     (if decide_event ss False (se_event s) \<noteq> Stored then map se_event ss
      else (case Option.bind (replacement_key (se_event s))
          (\<lambda>key. find_index (\<lambda>c. replacement_key c = Some key) (map se_event ss)) of
            Some i \<Rightarrow> (map se_event ss)[i := se_event s]
          | None \<Rightarrow> map se_event ss @ [se_event s]))"
proof (cases "replacement_key (se_event s)")
  case (Some key)
  then show ?thesis
    by (cases "find_index (\<lambda>s. replacement_key (se_event s) = Some key) ss")
      (simp_all add: apply_effective_event_def Let_def map_update find_index_of_map)
qed (simp add: apply_effective_event_def Let_def)

lemma effective_step_events:
  "map se_event ss = map se_event ss' \<Longrightarrow> se_event s = se_event s' \<Longrightarrow>
   map se_event (effective_step ss s) = map se_event (effective_step ss' s')"
  by (simp only: apply_effective_event_alt decide_event_events [of ss ss'])

lemma foldl_step_events:
  "map se_event ss = map se_event ss' \<Longrightarrow> map se_event xs = map se_event ys \<Longrightarrow>
   map se_event (foldl effective_step ss xs) = map se_event (foldl effective_step ss' ys)"
proof (induction xs arbitrary: ss ss' ys)
  case (Cons x xs)
  then obtain y ys' where "ys = y # ys'" "se_event x = se_event y" "map se_event xs = map se_event ys'"
    by (auto simp: Cons_eq_map_conv)
  with Cons.prems(1) show ?case
    using Cons.IH [OF effective_step_events [of ss ss' x y]] by simp
qed simp

lemma project_foldl:
  "map se_event xs = es \<Longrightarrow> map se_event (foldl effective_step [] xs) = project es"
  unfolding project_def by (rule foldl_step_events) (auto simp: comp_def)

lemma project_snoc:
  assumes "map se_event ss = project es" "se_event s = e"
  shows "project (es @ [e]) = map se_event (effective_step ss s)"
proof -
  let ?w = "\<lambda>e. with_received_at e 0 None True"
  have "project (es @ [e]) = map se_event (effective_step (foldl effective_step [] (map ?w es)) (?w e))"
    by (simp add: project_def)
  also have "\<dots> = map se_event (effective_step ss s)"
    using assms by (intro effective_step_events) (simp_all add: project_def)
  finally show ?thesis .
qed

lemma project_heads:
  assumes "inj_on ev_id (set es)"
  shows "set (project es) =
    stream_heads replacement_key replacement_candidate_wins
      {e \<in> set es. \<not> is_ephemeral_kind (ev_kind e)}"
proof -
  let ?hist = "map (\<lambda>e. with_received_at e 0 None True) es"
  have im: "se_event ` set ?hist = set es" by (simp add: image_image)
  show ?thesis
    using eff.fold_heads [of ?hist, unfolded im, OF assms] by (simp only: project_def set_map)
qed

lemma step_set_subset: "set (effective_step ss s) \<subseteq> insert s (set ss)"
proof (cases "decide_event ss False (se_event s) = Stored")
  case True
  then show ?thesis
    by (auto simp: apply_effective_event_def Let_def split: option.split
        dest: set_update_subset_insert [THEN subsetD])
qed (auto simp: apply_not_stored)

lemma foldl_step_subset: "set (foldl effective_step ss xs) \<subseteq> set ss \<union> set xs"
proof (induction xs arbitrary: ss)
  case (Cons x xs)
  show ?case using Cons.IH [of "effective_step ss x"] step_set_subset [of ss x] by (simp, blast)
qed simp

lemma project_subset: "set (project es) \<subseteq> set es"
proof -
  let ?hist = "map (\<lambda>e. with_received_at e 0 None True) es"
  have "se_event ` set (foldl effective_step [] ?hist) \<subseteq> se_event ` set ?hist"
    using foldl_step_subset [of "[]" ?hist] by (intro image_mono) simp
  then show ?thesis by (simp add: project_def image_image)
qed

lemma foldl_step_distinct:
  "distinct (map (\<lambda>s. ev_id (se_event s)) ss) \<Longrightarrow>
   distinct (map (\<lambda>s. ev_id (se_event s)) (foldl effective_step ss xs))"
  by (induction xs arbitrary: ss) (simp_all add: step_ids_distinct)

lemma project_distinct: "distinct (map ev_id (project es))"
  using foldl_step_distinct [of "[]" "map (\<lambda>e. with_received_at e 0 None True) es"]
  by (simp add: project_def comp_def)

section \<open>The store invariant\<close>

definition store_ok :: "nostr_lib \<Rightarrow> store_inner \<Rightarrow> bool" where
  "store_ok L st \<longleftrightarrow>
     map se_event (st_events st) = project (st_journal st)
     \<and> ev_id ` set (st_journal st) \<subseteq> st_seen_ids st
     \<and> (\<forall>e \<in> set (st_journal st). verify_event L e = Inr ())
     \<and> (\<forall>s \<in> set (st_events st). \<exists>t. s = stored_event_of L t (se_event s))"

text \<open>What a journal written by \<open>accept\<close> alone has in addition.\<close>

definition journal_clean :: "store_inner \<Rightarrow> bool" where
  "journal_clean st \<longleftrightarrow>
     distinct (map ev_id (st_journal st))
     \<and> (\<forall>e \<in> set (st_journal st). \<not> is_ephemeral_kind (ev_kind e))"

lemma store_okD:
  assumes "store_ok L st"
  shows "map se_event (st_events st) = project (st_journal st)"
    and "ev_id ` set (st_journal st) \<subseteq> st_seen_ids st"
    and "\<And>e. e \<in> set (st_journal st) \<Longrightarrow> verify_event L e = Inr ()"
    and "\<And>s. s \<in> set (st_events st) \<Longrightarrow> \<exists>t. s = stored_event_of L t (se_event s)"
  using assms by (auto simp: store_ok_def)

lemma store_ok_effective:
  assumes "store_ok L st"
  shows "se_event ` set (st_events st) \<subseteq> set (st_journal st)"
    and "distinct (map (\<lambda>s. ev_id (se_event s)) (st_events st))"
proof -
  note p = store_okD(1) [OF assms]
  show "se_event ` set (st_events st) \<subseteq> set (st_journal st)"
    using project_subset [of "st_journal st"] unfolding p [symmetric] by simp
  show "distinct (map (\<lambda>s. ev_id (se_event s)) (st_events st))"
    using project_distinct [of "st_journal st"] unfolding p [symmetric] by (simp add: comp_def)
qed

text \<open>Every way a submission can end.\<close>

lemma accept_cases:
  obtains (unchanged) r where "accept L env st e = (st, r)"
      "verify_event L e = Inr () \<Longrightarrow> ae_task env = None \<Longrightarrow>
        ev_id e \<in> st_seen_ids st \<or> ev_id e \<in> ev_id ` se_event ` set (st_events st)"
  | (seen) m p where "accept L env st e =
        (st\<lparr>st_seen_ids := insert (ev_id e) (st_seen_ids st)\<rparr>, Inr (write_accepted e m p))"
      "verify_event L e = Inr ()" "ev_id e \<notin> st_seen_ids st"
      "decide_event (st_events st) False e \<in> {Ephemeral, Superseded}"
  | (failed) writer err where "accept L env st e = (st\<lparr>st_writer := writer\<rparr>, Inl err)"
      "append_record L (ae_io env) (st_writer st) e = (writer, Some err)"
  | (stored) writer where "accept L env st e =
        (\<lparr>st_events = effective_step (st_events st) (stored_event_of L (ae_now env) e),
          st_journal = st_journal st @ [e],
          st_seen_ids = insert (ev_id e) (st_seen_ids st),
          st_writer = writer\<rparr>, Inr (write_accepted e ''stored'' True))"
      "verify_event L e = Inr ()" "ev_id e \<notin> st_seen_ids st"
      "decide_event (st_events st) False e = Stored"
      "append_record L (ae_io env) (st_writer st) e = (writer, None)"
proof (cases "ae_task env")
  case (Some err)
  with unchanged [of "Inl (VerificationTask err)"] show thesis by (simp add: accept_def)
next
  case task: None
  show thesis
  proof (cases "verify_event L e")
    case (Inl reason)
    with task unchanged show thesis by (simp add: accept_def)
  next
    case (Inr u)
    then have v: "verify_event L e = Inr ()" by simp
    show thesis
    proof (cases "ev_id e \<in> st_seen_ids st \<or> ev_id e \<in> ev_id ` se_event ` set (st_events st)")
      case True
      then have "decide_event (st_events st) (ev_id e \<in> st_seen_ids st) e = Duplicate"
        by (auto simp: decide_event_def list_ex_id)
      with task v True unchanged show thesis by (simp add: accept_def)
    next
      case False
      then have b: "(ev_id e \<in> st_seen_ids st) = False" by simp
      have nd: "decide_event (st_events st) False e \<noteq> Duplicate"
        using False by (auto simp: decide_event_alt split: event_class.splits option.splits if_splits)
      obtain writer err where app: "append_record L (ae_io env) (st_writer st) e = (writer, err)"
        by (cases "append_record L (ae_io env) (st_writer st) e") blast
      show thesis
      proof (cases "decide_event (st_events st) False e")
        case Stored
        with app task v b stored failed show thesis
          by (cases err) (simp_all add: accept_def)
      qed (use task v b nd seen in \<open>simp_all add: accept_def\<close>)
    qed
  qed
qed

lemma store_push_ok:
  assumes ok: "store_ok L st" and v: "verify_event L e = Inr ()"
  shows "store_ok L \<lparr>st_events = effective_step (st_events st) (stored_event_of L t e),
    st_journal = st_journal st @ [e], st_seen_ids = insert (ev_id e) (st_seen_ids st),
    st_writer = w\<rparr>"
proof -
  let ?s = "stored_event_of L t e"
  have p: "map se_event (effective_step (st_events st) ?s) = project (st_journal st @ [e])"
    using project_snoc [of "st_events st" "st_journal st" ?s e] store_okD(1) [OF ok] by simp
  have w: "\<forall>s \<in> set (effective_step (st_events st) ?s). \<exists>t. s = stored_event_of L t (se_event s)"
  proof
    fix s assume "s \<in> set (effective_step (st_events st) ?s)"
    then have "s = ?s \<or> s \<in> set (st_events st)" using step_set_subset by blast
    then show "\<exists>t. s = stored_event_of L t (se_event s)"
    proof
      assume "s = ?s"
      then have "s = stored_event_of L t (se_event s)" by simp
      then show ?thesis by blast
    qed (rule store_okD(4) [OF ok])
  qed
  show ?thesis using p w v store_okD(2,3) [OF ok] by (auto simp: store_ok_def)
qed

lemma accept_ok: "store_ok L st \<Longrightarrow> store_ok L (fst (accept L env st e))"
proof (cases rule: accept_cases [of L env st e])
  case (stored writer)
  assume "store_ok L st"
  from store_push_ok [OF this stored(2)] stored(1) show ?thesis by simp
qed (auto simp: store_ok_def)

lemma accept_all_ok: "store_ok L st \<Longrightarrow> store_ok L (accept_all L st hist)"
proof (induction hist arbitrary: st)
  case (Cons x hist)
  then show ?case by (cases x) (simp add: accept_ok)
qed simp

lemma empty_store_ok: "store_ok L (empty_store w)"
  by (simp add: store_ok_def empty_store_def project_def)

lemma accept_clean:
  assumes "store_ok L st" "journal_clean st"
  shows "journal_clean (fst (accept L env st e))"
  using assms
proof (cases rule: accept_cases [of L env st e])
  case (stored writer)
  have "ev_id e \<notin> ev_id ` set (st_journal st)" using stored(3) store_okD(2) [OF assms(1)] by blast
  moreover have "\<not> is_ephemeral_kind (ev_kind e)"
    using stored(4) decide_ephemeral [of e "st_events st" False] by auto
  ultimately show ?thesis using assms(2) stored(1) by (auto simp: journal_clean_def)
qed (auto simp: journal_clean_def)

lemma accept_all_clean:
  "store_ok L st \<Longrightarrow> journal_clean st \<Longrightarrow> journal_clean (accept_all L st hist)"
proof (induction hist arbitrary: st)
  case (Cons x hist)
  then show ?case by (cases x) (simp add: accept_ok accept_clean)
qed simp

lemma clean_inj: "journal_clean st \<Longrightarrow> inj_on ev_id (set (st_journal st))"
  by (simp add: journal_clean_def distinct_map)

section \<open>Replaying the log\<close>

definition replayed_store :: "replayed_log \<Rightarrow> string option \<Rightarrow> store_inner" where
  "replayed_store r w =
     \<lparr>st_events = rl_events r, st_journal = rl_journal r, st_seen_ids = rl_seen_ids r, st_writer = w\<rparr>"

lemma replay_lines_ok:
  "replay_lines L clock n r ls = Inr r' \<Longrightarrow> store_ok L (replayed_store r w) \<Longrightarrow>
   rl_seen_ids r = ev_id ` set (rl_journal r) \<Longrightarrow>
   store_ok L (replayed_store r' w) \<and> rl_seen_ids r' = ev_id ` set (rl_journal r')"
proof (induction ls arbitrary: n r)
  case (Cons line ls)
  show ?case
  proof (cases "is_blank line")
    case True
    with Cons show ?thesis by simp
  next
    case False
    with Cons.prems(1) obtain e u where e: "l_event_from_str L line = Inr e" "verify_event L e = Inr u"
      by (auto split: sum.splits)
    let ?r = "\<lparr>rl_events = effective_step (rl_events r) (stored_event_of L (clock n) e),
      rl_journal = rl_journal r @ [e], rl_seen_ids = insert (ev_id e) (rl_seen_ids r)\<rparr>"
    have "store_ok L (replayed_store ?r w)"
      using store_push_ok [OF Cons.prems(2), of e "clock n" w] e(2)
      by (simp add: replayed_store_def)
    moreover have "replay_lines L clock (Suc n) ?r ls = Inr r'"
      using Cons.prems(1) False e by simp
    ultimately show ?thesis using Cons.IH Cons.prems(3) by simp
  qed
qed simp

lemma open_store_ok: "open_store L clock io mode = Inr st \<Longrightarrow> store_ok L st"
proof (cases mode)
  case (Durable f)
  assume "open_store L clock io mode = Inr st"
  with Durable obtain r w where r: "replay_log L clock f = Inr r"
    and st: "st = replayed_store r w"
    by (auto simp: open_store_def and_then_eq_Inr replayed_store_def split: open_outcome.splits)
  from r obtain ls where "replay_lines L clock 1 replayed_log_default ls = Inr r"
    by (auto simp: replay_log_def split: file_read.splits)
  moreover have "store_ok L (replayed_store replayed_log_default w)"
    using empty_store_ok [of L w]
    by (simp add: replayed_store_def replayed_log_default_def empty_store_def)
  ultimately have "store_ok L (replayed_store r w)"
    using replay_lines_ok [of L clock 1 replayed_log_default ls r w]
    by (simp add: replayed_log_default_def)
  then show ?thesis by (simp add: st)
qed (auto simp: open_store_def store_ok_def project_def)

text \<open>The states a store can be in: opened from some log, then any submissions.\<close>

inductive store_reachable :: "nostr_lib \<Rightarrow> store_inner \<Rightarrow> bool" for L where
  opened: "open_store L clock io mode = Inr st \<Longrightarrow> store_reachable L st"
| accepted: "store_reachable L st \<Longrightarrow> store_reachable L (fst (accept L env st e))"

lemma store_reachable_ok: "store_reachable L st \<Longrightarrow> store_ok L st"
  by (induction rule: store_reachable.induct) (auto intro: open_store_ok accept_ok)

section \<open>Histories in which every write succeeds\<close>

fun accept_results ::
  "nostr_lib \<Rightarrow> store_inner \<Rightarrow> (accept_env \<times> event) list \<Rightarrow> (store_error + write_result) list" where
  "accept_results L st [] = []"
| "accept_results L st ((env, e) # rest) =
     snd (accept L env st e) # accept_results L (fst (accept L env st e)) rest"

definition all_succeed :: "nostr_lib \<Rightarrow> store_inner \<Rightarrow> (accept_env \<times> event) list \<Rightarrow> bool" where
  "all_succeed L st hist = list_all is_ok (accept_results L st hist)"

definition verified_events :: "nostr_lib \<Rightarrow> (accept_env \<times> event) list \<Rightarrow> event list" where
  "verified_events L hist = filter (\<lambda>e. is_ok (verify_event L e)) (map snd hist)"

lemma all_succeed_simps [simp]:
  "all_succeed L st []"
  "all_succeed L st ((env, e) # hist) \<longleftrightarrow>
     is_ok (snd (accept L env st e)) \<and> all_succeed L (fst (accept L env st e)) hist"
  by (simp_all add: all_succeed_def)

lemma verified_events_simps [simp]:
  "verified_events L [] = []"
  "verified_events L ((env, e) # hist) =
     (if is_ok (verify_event L e) then e # verified_events L hist else verified_events L hist)"
  by (simp_all add: verified_events_def)

lemma project_repeat:
  assumes "inj_on ev_id (set es)" "e \<in> set es"
  shows "project (es @ [e]) = project es"
proof -
  let ?w = "\<lambda>e. with_received_at e 0 None True"
  let ?ss = "foldl effective_step [] (map ?w es)"
  have "effective_step ?ss (?w e) = ?ss"
  proof (cases "is_ephemeral_kind (ev_kind e)")
    case True
    then show ?thesis by (simp add: eff.step_skip)
  next
    case False
    let ?S = "{e \<in> set es. \<not> is_ephemeral_kind (ev_kind e)}"
    have "se_event ` set ?ss = stream_heads replacement_key replacement_candidate_wins ?S"
      using project_heads [OF assms(1)] by (simp add: project_def)
    moreover have "inj_on ev_id ?S"
      using assms(1) by (rule inj_on_subset) auto
    ultimately show ?thesis
      using False assms(2) eff.step_repeat [of ?S "?w e" ?ss] by simp
  qed
  then show ?thesis by (simp add: project_def)
qed

lemma accept_submitted:
  assumes "map se_event (st_events st) = project es" "st_seen_ids st = ev_id ` set es"
    and "verify_event L e = Inr ()" "inj_on ev_id (insert e (set es))"
    and "is_ok (snd (accept L env st e))"
  shows "map se_event (st_events (fst (accept L env st e))) = project (es @ [e])
    \<and> st_seen_ids (fst (accept L env st e)) = ev_id ` set (es @ [e])"
proof -
  have snoc: "project (es @ [e]) = map se_event (effective_step (st_events st) (stored_event_of L t e))" for t
    using project_snoc [OF assms(1), of "stored_event_of L t e" e] by simp
  show ?thesis
  proof (cases rule: accept_cases [of L env st e])
    case (unchanged r)
    have "ae_task env = None"
      using unchanged(1) assms(5) by (cases "ae_task env") (auto simp: accept_def)
    then have "ev_id e \<in> ev_id ` set es \<or> ev_id e \<in> ev_id ` se_event ` set (st_events st)"
      using unchanged(2) [OF assms(3)] assms(2) by simp
    moreover have "se_event ` set (st_events st) \<subseteq> set es"
      using project_subset [of es] unfolding assms(1) [symmetric] by simp
    ultimately have "ev_id e \<in> ev_id ` set es" by blast
    then obtain x where "x \<in> set es" "ev_id e = ev_id x" by blast
    then have "e \<in> set es" using inj_onD [OF assms(4), of e x] by simp
    moreover have "inj_on ev_id (set es)" using assms(4) by (rule inj_on_subset) blast
    ultimately show ?thesis
      using project_repeat [of es e] unchanged(1) assms(1,2) by auto
  next
    case (seen m p)
    then have "effective_step (st_events st) (stored_event_of L 0 e) = st_events st"
      by (auto simp: apply_not_stored)
    with snoc [of 0] seen(1) assms(1,2) show ?thesis by simp
  next
    case (failed writer err)
    with assms(5) show ?thesis by simp
  next
    case (stored writer)
    with snoc [of "ae_now env"] assms(2) show ?thesis by simp
  qed
qed

lemma accept_all_submitted:
  assumes "map se_event (st_events st) = project es" "st_seen_ids st = ev_id ` set es"
    and "inj_on ev_id (set es \<union> set (verified_events L hist))" "all_succeed L st hist"
  shows "map se_event (st_events (accept_all L st hist)) = project (es @ verified_events L hist)"
  using assms
proof (induction hist arbitrary: st es)
  case (Cons x hist)
  obtain env e where x: "x = (env, e)" by (cases x)
  show ?case
  proof (cases "verify_event L e")
    case (Inl reason)
    then have "fst (accept L env st e) = st" by (cases "ae_task env") (simp_all add: accept_def)
    with Cons Inl x show ?thesis by simp
  next
    case (Inr u)
    have inj: "inj_on ev_id (insert e (set es))"
      using Cons.prems(3) by (rule inj_on_subset) (auto simp: x Inr)
    have ok: "is_ok (snd (accept L env st e))" using Cons.prems(4) by (simp add: x)
    note s = accept_submitted [OF Cons.prems(1,2) _ inj ok]
    have "map se_event (st_events (accept_all L (fst (accept L env st e)) hist))
      = project ((es @ [e]) @ verified_events L hist)"
      using Cons.IH [of "fst (accept L env st e)" "es @ [e]"] s Cons.prems(3,4) Inr x by simp
    with x Inr show ?thesis by simp
  qed
qed simp

section \<open>The log and its replay\<close>

text \<open>
  What the store relies on of JSON serialisation, for one event: it succeeds, gives a
  non-blank line without a line break, and reads back as the event.
\<close>

definition record_ok :: "nostr_lib \<Rightarrow> event \<Rightarrow> bool" where
  "record_ok L e =
     (case l_event_to_str L e of
        Inl _ \<Rightarrow> False
      | Inr json \<Rightarrow> list_all (\<lambda>c. byte c \<noteq> 10 \<and> byte c \<noteq> 13) json \<and> \<not> is_blank json
          \<and> l_event_from_str L json = Inr e)"

definition record_line :: "nostr_lib \<Rightarrow> event \<Rightarrow> string" where
  "record_line L e = (case l_event_to_str L e of Inl _ \<Rightarrow> '''' | Inr json \<Rightarrow> json)"

definition log_of :: "nostr_lib \<Rightarrow> event list \<Rightarrow> string" where
  "log_of L es = concat (map (\<lambda>r. r @ [CHR 10]) (map (record_line L) es))"

lemma record_okD:
  assumes "record_ok L e"
  shows "l_event_to_str L e = Inr (record_line L e)"
    "l_event_from_str L (record_line L e) = Inr e" "\<not> is_blank (record_line L e)"
    "\<forall>c \<in> set (record_line L e). byte c \<noteq> 10" "strip_cr (record_line L e) = record_line L e"
proof -
  obtain json where j: "l_event_to_str L e = Inr json"
    using assms by (auto simp: record_ok_def split: sum.splits)
  with assms have p: "list_all (\<lambda>c. byte c \<noteq> 10 \<and> byte c \<noteq> 13) json" "\<not> is_blank json"
    "l_event_from_str L json = Inr e" by (auto simp: record_ok_def)
  have r: "record_line L e = json" by (simp add: record_line_def j)
  show "l_event_to_str L e = Inr (record_line L e)"
    "l_event_from_str L (record_line L e) = Inr e" "\<not> is_blank (record_line L e)"
    using j p r by simp_all
  show "\<forall>c \<in> set (record_line L e). byte c \<noteq> 10" using p(1) r by (simp add: list_all_iff)
  show "strip_cr (record_line L e) = record_line L e"
    using p(1) r last_in_set [of json] by (auto simp: strip_cr_def list_all_iff)
qed

lemma lines_log: "\<forall>e \<in> set es. record_ok L e \<Longrightarrow> lines (log_of L es) = map (record_line L) es"
  unfolding log_of_def by (rule lines_records) (auto dest: record_okD)

lemma replay_records:
  assumes "\<forall>e \<in> set es. record_ok L e \<and> verify_event L e = Inr ()"
  shows "\<exists>r'. replay_lines L clock n r (map (record_line L) es) = Inr r'
    \<and> rl_journal r' = rl_journal r @ es \<and> rl_seen_ids r' = rl_seen_ids r \<union> ev_id ` set es"
  using assms
proof (induction es arbitrary: n r)
  case (Cons e es)
  let ?r = "\<lparr>rl_events = effective_step (rl_events r) (stored_event_of L (clock n) e),
    rl_journal = rl_journal r @ [e], rl_seen_ids = insert (ev_id e) (rl_seen_ids r)\<rparr>"
  obtain r' where r': "replay_lines L clock (Suc n) ?r (map (record_line L) es) = Inr r'"
    "rl_journal r' = rl_journal ?r @ es" "rl_seen_ids r' = rl_seen_ids ?r \<union> ev_id ` set es"
    using Cons.IH [of "Suc n" ?r] Cons.prems by auto
  have e: "record_ok L e" "verify_event L e = Inr ()" using Cons.prems by simp_all
  have "replay_lines L clock n r (map (record_line L) (e # es))
      = replay_lines L clock (Suc n) ?r (map (record_line L) es)"
    using record_okD(2,3) [OF e(1)] e(2) by simp
  with r' show ?case by auto
qed simp

lemma accept_log:
  assumes "is_ok (snd (accept L env st e))" "st_writer st = Some (log_of L (st_journal st))"
  shows "st_writer (fst (accept L env st e)) = Some (log_of L (st_journal (fst (accept L env st e))))"
proof (cases rule: accept_cases [of L env st e])
  case (failed writer err)
  with assms show ?thesis by simp
next
  case (stored writer)
  then have "writer = Some (log_of L (st_journal st @ [e]))"
    using assms(2)
    by (auto simp: append_record_def log_of_def record_line_def Let_def
        split: sum.splits io_outcome.splits)
  with stored(1) show ?thesis by simp
qed (use assms in auto)

lemma accept_all_log:
  "all_succeed L st hist \<Longrightarrow> st_writer st = Some (log_of L (st_journal st)) \<Longrightarrow>
   st_writer (accept_all L st hist) = Some (log_of L (st_journal (accept_all L st hist)))"
proof (induction hist arbitrary: st)
  case (Cons x hist)
  then show ?case by (cases x) (simp add: accept_log)
qed simp

lemma accept_all_journal_subset:
  "set (st_journal (accept_all L st hist)) \<subseteq> set (st_journal st) \<union> snd ` set hist"
proof (induction hist arbitrary: st)
  case (Cons x hist)
  obtain env e where x: "x = (env, e)" by (cases x)
  have "set (st_journal (fst (accept L env st e))) \<subseteq> insert e (set (st_journal st))"
    by (cases rule: accept_cases [of L env st e]) auto
  with Cons.IH [of "fst (accept L env st e)"] show ?case by (auto simp: x)
qed simp

lemma reopen_log:
  assumes "store_ok L st" "st_writer st = Some (log_of L (st_journal st))"
    and "\<forall>e \<in> set (st_journal st). record_ok L e"
  shows "\<exists>st'. open_store L clock OpenOk (Durable (Contents (log_of L (st_journal st)))) = Inr st'
    \<and> st_journal st' = st_journal st \<and> map se_event (st_events st') = map se_event (st_events st)
    \<and> st_seen_ids st' = ev_id ` set (st_journal st) \<and> st_writer st' = st_writer st"
proof -
  let ?log = "log_of L (st_journal st)"
  obtain r where r: "replay_lines L clock 1 replayed_log_default (lines ?log) = Inr r"
    "rl_journal r = st_journal st" "rl_seen_ids r = ev_id ` set (st_journal st)"
    using replay_records [of "st_journal st" L clock 1 replayed_log_default] assms(3)
      store_okD(3) [OF assms(1)]
    by (auto simp: lines_log replayed_log_default_def)
  have o: "open_store L clock OpenOk (Durable (Contents ?log)) = Inr (replayed_store r (Some ?log))"
    using r(1) by (simp add: open_store_def replay_log_def replayed_store_def)
  have "map se_event (rl_events r) = project (st_journal st)"
    using store_okD(1) [OF open_store_ok [OF o]] r(2) by (simp add: replayed_store_def)
  with o r(2,3) assms(1,2) show ?thesis
    by (simp add: replayed_store_def store_okD(1))
qed

section \<open>Properties\<close>

text \<open>
  C1: Convergence. Two stores that were offered the same verified events, in any order and
  any number of times, with every write succeeding, have the same effective events, whether
  they are durable or in memory. Event identifiers are assumed to identify events.
\<close>

theorem store_convergence:
  assumes "all_succeed L (empty_store w1) h1" and "all_succeed L (empty_store w2) h2"
    and "set (verified_events L h1) = set (verified_events L h2)"
    and "inj_on ev_id (set (verified_events L h1))"
  shows "se_event ` set (st_events (accept_all L (empty_store w1) h1))
    = se_event ` set (st_events (accept_all L (empty_store w2) h2))"
proof -
  have "map se_event (st_events (accept_all L (empty_store w1) h1)) = project (verified_events L h1)"
    using accept_all_submitted [of "empty_store w1" "[]" L h1] assms(1,4)
    by (simp add: empty_store_def project_def)
  moreover have "map se_event (st_events (accept_all L (empty_store w2) h2))
      = project (verified_events L h2)"
    using accept_all_submitted [of "empty_store w2" "[]" L h2] assms(2-4)
    by (simp add: empty_store_def project_def)
  ultimately show ?thesis
    using project_heads [OF assms(4)] project_heads [of "verified_events L h2"] assms(3,4)
    by (metis set_map)
qed

definition sample_env :: accept_env where
  "sample_env = \<lparr>ae_now = 100, ae_io = IoOk, ae_task = None\<rparr>"

theorem store_convergence_witness:
  "se_event ` set (st_events (accept_all sample_lib (empty_store (Some ''''))
      [(sample_env, profile_new), (sample_env, note_a), (sample_env, profile_old)]))
   = se_event ` set (st_events (accept_all sample_lib (empty_store None)
      [(sample_env, profile_old), (sample_env, profile_new), (sample_env, note_a),
       (sample_env, profile_old)]))
   \<and> profile_old \<noteq> profile_new"
proof -
  let ?h1 = "[(sample_env, profile_new), (sample_env, note_a), (sample_env, profile_old)]"
  let ?h2 = "[(sample_env, profile_old), (sample_env, profile_new), (sample_env, note_a),
       (sample_env, profile_old)]"
  have s: "all_succeed sample_lib (empty_store (Some '''')) ?h1"
    "all_succeed sample_lib (empty_store None) ?h2" by code_simp+
  have v: "verified_events sample_lib ?h1 = [profile_new, note_a, profile_old]"
    "verified_events sample_lib ?h2 = [profile_old, profile_new, note_a, profile_old]" by code_simp+
  have e: "set (verified_events sample_lib ?h1) = set (verified_events sample_lib ?h2)"
    unfolding v by auto
  have "distinct (map ev_id [profile_new, note_a, profile_old])" by code_simp
  then have i: "inj_on ev_id (set (verified_events sample_lib ?h1))"
    unfolding v by (simp only: distinct_map)
  have "profile_old \<noteq> profile_new" by code_simp
  with store_convergence [OF s e i] show ?thesis by (rule conjI)
qed



text \<open>
  C14: In every reachable state of a store, whatever its log held and whichever writes failed,
  the effective events are the reduction of the journal, all of them are verified journal
  events with pairwise different identifiers, and every journal identifier is known as seen.
\<close>

theorem reachable_store_invariant:
  assumes "store_reachable L st"
  shows "map se_event (st_events st) = project (st_journal st)
    \<and> se_event ` set (st_events st) \<subseteq> set (st_journal st)
    \<and> distinct (map (\<lambda>s. ev_id (se_event s)) (st_events st))
    \<and> ev_id ` set (st_journal st) \<subseteq> st_seen_ids st
    \<and> (\<forall>e \<in> set (st_journal st). verify_event L e = Inr ())"
proof -
  have ok: "store_ok L st" using assms by (rule store_reachable_ok)
  show ?thesis
    using store_okD [OF ok] store_ok_effective [OF ok] by blast
qed

theorem reachable_store_invariant_witness:
  "\<exists>st. open_store sample_lib (\<lambda>n. n) OpenOk (Durable (Contents ''{a1}'')) = Inr st
    \<and> st_journal st = [note_a]
    \<and> map se_event (st_events st) = project [note_a] \<and> ev_id ` set [note_a] \<subseteq> st_seen_ids st"
proof -
  obtain st where st: "open_store sample_lib (\<lambda>n. n) OpenOk (Durable (Contents ''{a1}'')) = Inr st"
    and j: "st_journal st = [note_a]"
  proof
    show "open_store sample_lib (\<lambda>n. n) OpenOk (Durable (Contents ''{a1}'')) =
      Inr \<lparr>st_events = [stored_event_of sample_lib 1 note_a], st_journal = [note_a],
        st_seen_ids = {''a1''}, st_writer = Some ''{a1}''\<rparr>" by code_simp
  qed simp
  from st have "store_reachable sample_lib st" by (rule store_reachable.opened)
  from reachable_store_invariant [OF this] st j show ?thesis by auto
qed

text \<open>
  C3: Restart. After any history of successful submissions to an empty durable store, opening
  the log that was written gives a store with the same journal, the same effective events in
  the same order and the same log, provided that JSON printing and parsing of the submitted
  events round-trips on one line.
\<close>

theorem reopen_recovers_store:
  assumes "all_succeed L (empty_store (Some '''')) h"
    and "\<forall>e \<in> set (map snd h). record_ok L e"
  shows "\<exists>log st'. st_writer (accept_all L (empty_store (Some '''')) h) = Some log
    \<and> open_store L clock OpenOk (Durable (Contents log)) = Inr st'
    \<and> st_journal st' = st_journal (accept_all L (empty_store (Some '''')) h)
    \<and> map se_event (st_events st') = map se_event (st_events (accept_all L (empty_store (Some '''')) h))
    \<and> st_writer st' = Some log"
proof -
  let ?st = "accept_all L (empty_store (Some '''')) h"
  have w: "st_writer ?st = Some (log_of L (st_journal ?st))"
    by (rule accept_all_log [OF assms(1)]) (simp add: empty_store_def log_of_def)
  have ok: "store_ok L ?st" by (rule accept_all_ok [OF empty_store_ok])
  have "\<forall>e \<in> set (st_journal ?st). record_ok L e"
    using accept_all_journal_subset [of L "empty_store (Some '''')" h] assms(2)
    by (auto simp: empty_store_def)
  from reopen_log [OF ok w this, of clock] w show ?thesis by auto
qed

theorem reopen_recovers_store_witness:
  "\<exists>log st'. st_writer (accept_all sample_lib (empty_store (Some ''''))
      [(sample_env, profile_old), (sample_env, note_a), (sample_env, profile_new)]) = Some log
    \<and> open_store sample_lib (\<lambda>n. n) OpenOk (Durable (Contents log)) = Inr st'
    \<and> st_journal st' = [profile_old, note_a, profile_new]"
proof -
  let ?h = "[(sample_env, profile_old), (sample_env, note_a), (sample_env, profile_new)]"
  have s: "all_succeed sample_lib (empty_store (Some '''')) ?h" by code_simp
  have "list_all (record_ok sample_lib) (map snd ?h)" by code_simp
  then have r: "\<forall>e \<in> set (map snd ?h). record_ok sample_lib e" by (simp only: list_all_iff)
  have j: "st_journal (accept_all sample_lib (empty_store (Some '''')) ?h)
    = [profile_old, note_a, profile_new]" by code_simp
  from reopen_recovers_store [OF s r, of "\<lambda>n. n"] show ?thesis unfolding j by blast
qed

lemma accept_duplicate:
  assumes "ae_task env = None" "verify_event L e = Inr ()"
    and "ev_id e \<in> st_seen_ids st \<or> ev_id e \<in> ev_id ` se_event ` set (st_events st)"
  shows "accept L env st e = (st, Inr (write_accepted e ''duplicate'' False))"
proof -
  have "decide_event (st_events st) (ev_id e \<in> st_seen_ids st) e = Duplicate"
    using assms(3) by (auto simp: decide_event_def list_ex_id)
  with assms(1,2) show ?thesis by (simp add: accept_def)
qed

lemma accept_rejects_unverified:
  "ae_task env = None \<Longrightarrow> verify_event L e = Inl reason \<Longrightarrow> accept L env st e =
     (st, Inr (write_rejected e (''invalid: '' @ verification_error_text reason)))"
  by (simp add: accept_def)

lemma accepted_verified:
  assumes "snd (accept L env st e) = Inr r" "wr_accepted r"
  shows "ae_task env = None" "verify_event L e = Inr ()"
  using assms by (auto simp: accept_def write_rejected_def split: option.splits sum.splits)

text \<open>
  An accepted submission is idempotent: submitting the event again, with a working
  verification task and whatever the file system does, changes nothing and is reported as an
  accepted duplicate that is not published.
\<close>

theorem resubmission_is_duplicate:
  assumes "snd (accept L env st e) = Inr r" "wr_accepted r" "ae_task env' = None"
  shows "accept L env' (fst (accept L env st e)) e
    = (fst (accept L env st e), Inr (write_accepted e ''duplicate'' False))"
proof (rule accept_duplicate [OF assms(3) accepted_verified(2) [OF assms(1,2)]])
  note v = accepted_verified [OF assms(1,2)]
  show "ev_id e \<in> st_seen_ids (fst (accept L env st e))
    \<or> ev_id e \<in> ev_id ` se_event ` set (st_events (fst (accept L env st e)))"
  proof (cases rule: accept_cases [of L env st e])
    case (failed writer err)
    with assms(1) show ?thesis by simp
  qed (use v in auto)
qed

text \<open>
  C15: A submission that fails leaves the effective events, the journal and the identifiers
  known as seen untouched, only appends to the log, and a retry reports what the retry alone
  would have reported: no event is acknowledged, or refused as a duplicate, on the strength of
  a failed attempt.
\<close>

theorem failed_submission_keeps_state:
  assumes "snd (accept L env st e) = Inl err"
  shows "st_events (fst (accept L env st e)) = st_events st
    \<and> st_journal (fst (accept L env st e)) = st_journal st
    \<and> st_seen_ids (fst (accept L env st e)) = st_seen_ids st
    \<and> (\<forall>log. st_writer st = Some log \<longrightarrow>
        (\<exists>junk. st_writer (fst (accept L env st e)) = Some (log @ junk)))
    \<and> snd (accept L env' (fst (accept L env st e)) e) = snd (accept L env' st e)"
proof (cases rule: accept_cases [of L env st e])
  case (unchanged r)
  then show ?thesis by simp
next
  case (failed writer err')
  have j: "\<exists>junk. writer = Some (log @ junk)" if "st_writer st = Some log" for log
    using failed(2) unfolding that by (auto simp: append_record_def Let_def
        split: sum.splits io_outcome.splits)
  then have w: "writer = None \<longleftrightarrow> st_writer st = None"
    using failed(2) by (cases "st_writer st") (force simp: append_record_def)+
  have "snd (append_record L io writer e) = snd (append_record L io (st_writer st) e)" for io
    using w by (auto simp: append_record_def Let_def split: option.splits sum.splits io_outcome.splits)
  then have "snd (accept L env' (st\<lparr>st_writer := writer\<rparr>) e) = snd (accept L env' st e)"
    unfolding accept_def
    by (auto split: option.splits sum.splits event_decision.splits prod.splits)
      (metis option.distinct(1) option.inject snd_conv)+
  with failed(1) j show ?thesis by simp
qed (use assms in simp_all)

text \<open>A file system that fails after three bytes of the record.\<close>

definition torn_env :: accept_env where
  "torn_env = \<lparr>ae_now = 100, ae_io = IoFail 3 ''disk full'', ae_task = None\<rparr>"

theorem failed_submission_keeps_state_witness:
  "snd (accept sample_lib torn_env (empty_store (Some '''')) note_a) = Inl (Io ''disk full'')
   \<and> st_journal (fst (accept sample_lib torn_env (empty_store (Some '''')) note_a)) = []
   \<and> snd (accept sample_lib sample_env
        (fst (accept sample_lib torn_env (empty_store (Some '''')) note_a)) note_a)
     = Inr (write_accepted note_a ''stored'' True)"
proof -
  let ?st = "empty_store (Some '''')"
  have f: "snd (accept sample_lib torn_env ?st note_a) = Inl (Io ''disk full'')" by code_simp
  have r: "snd (accept sample_lib sample_env ?st note_a) = Inr (write_accepted note_a ''stored'' True)"
    by code_simp
  have j: "st_journal ?st = []" by code_simp
  from failed_submission_keeps_state [OF f, of sample_env] f r j show ?thesis
    by (simp only: simp_thms)
qed

section \<open>Torn appends\<close>

lemma replay_records_then:
  assumes "\<forall>e \<in> set es. record_ok L e \<and> verify_event L e = Inr ()"
  shows "\<exists>r'. replay_lines L clock n r (map (record_line L) es @ ls)
    = replay_lines L clock (n + length es) r' ls"
  using assms
proof (induction es arbitrary: n r)
  case (Cons e es)
  then have e: "record_ok L e" "verify_event L e = Inr ()" by simp_all
  have IH: "\<exists>r'. replay_lines L clock (Suc n) x (map (record_line L) es @ ls)
    = replay_lines L clock (Suc n + length es) r' ls" for x
    by (rule Cons.IH) (use Cons.prems in simp)
  show ?case using record_okD(2,3) [OF e(1)] e(2) IH by simp
qed auto

lemma lines_log_torn:
  assumes "\<forall>e \<in> set es. record_ok L e" "\<forall>c \<in> set line. byte c \<noteq> 10" "strip_cr line = line"
  shows "lines (log_of L es @ line @ [CHR 10]) = map (record_line L) es @ [line]"
proof -
  have "lines (concat (map (\<lambda>r. r @ [CHR 10]) (map (record_line L) es @ [line])))
      = map (record_line L) es @ [line]"
    by (rule lines_records) (use assms in \<open>auto dest: record_okD\<close>)
  then show ?thesis by (simp add: log_of_def)
qed

lemma accept_storedD:
  assumes "accept L env st e = (st', Inr (write_accepted e ''stored'' True))"
  shows "st_journal st' = st_journal st @ [e]
    \<and> append_record L (ae_io env) (st_writer st) e = (st_writer st', None)"
  using assms unfolding accept_def
  by (auto simp: write_accepted_def write_rejected_def
      split: option.splits sum.splits event_decision.splits prod.splits)

lemma accept_IoD:
  assumes "accept L env st e = (st', Inl (Io err))"
  shows "st' = st\<lparr>st_writer := st_writer st'\<rparr>
    \<and> append_record L (ae_io env) (st_writer st) e = (st_writer st', Some (Io err))"
  using assms unfolding accept_def
  by (auto split: option.splits sum.splits event_decision.splits prod.splits)

lemma strip_cr_append: "strip_cr ys = ys \<Longrightarrow> ys \<noteq> [] \<Longrightarrow> strip_cr (xs @ ys) = xs @ ys"
  by (auto simp: strip_cr_def butlast_append split: if_splits)

lemma replay_torn_line:
  assumes "store_ok L st" "\<forall>x \<in> set (st_journal st). record_ok L x"
    and "\<forall>c \<in> set line. byte c \<noteq> 10" "strip_cr line = line" "\<not> is_blank line"
    and "l_event_from_str L line = Inl msg"
  shows "open_store L clock OpenOk (Durable (Contents (log_of L (st_journal st) @ line @ [CHR 10])))
    = Inl (MalformedRecord (length (st_journal st) + 1) msg)"
proof -
  have "\<forall>e \<in> set (st_journal st). record_ok L e \<and> verify_event L e = Inr ()"
    using assms(2) store_okD(3) [OF assms(1)] by blast
  from replay_records_then [OF this, of clock 1 replayed_log_default "[line]"] obtain r' where
    "replay_lines L clock 1 replayed_log_default (map (record_line L) (st_journal st) @ [line])
      = replay_lines L clock (1 + length (st_journal st)) r' [line]" by blast
  with assms(5,6) lines_log_torn [OF assms(2-4)] show ?thesis
    by (simp add: open_store_def replay_log_def)
qed



end
