(* ===== verification/Store_Query.thy ===== *)
theory Store_Query
  imports Event_Store
begin

text \<open>
  Queries on the event store: \<open>EventStore::query\<close>, \<open>query_with_cursors\<close> and
  \<open>count\<close> of \<open>buzz-local-relay/src/lib.rs\<close>, with the validation of filters. The
  newest-first comparator is interpreted as a comparator order, which gives sorted results;
  the properties say which events a query returns and that paging with a cursor neither
  skips nor repeats an event.
\<close>

section \<open>Definitions\<close>

definition DEFAULT_QUERY_LIMIT :: nat where "DEFAULT_QUERY_LIMIT = 500"

definition MAX_QUERY_LIMIT :: nat where "MAX_QUERY_LIMIT = 5000"

datatype query_error = SearchUnsupported | UnsupportedFilterField string | IncompleteCursor

record cursor_filter =
  cf_filter :: nostr_filter
  cf_before_id :: "event_id option"

definition validate_filters :: "nostr_filter list \<Rightarrow> query_error + unit" where
  "validate_filters filters =
     (if list_ex (\<lambda>f. f_search f \<noteq> None) filters then Inl SearchUnsupported else Inr ())"

definition SUPPORTED_FILTER_FIELDS :: "string list" where
  "SUPPORTED_FILTER_FIELDS =
     [''ids'', ''authors'', ''kinds'', ''since'', ''until'', ''limit'', ''search'']"

definition SUPPORTED_QUERY_FILTER_FIELDS :: "string list" where
  "SUPPORTED_QUERY_FILTER_FIELDS =
     [''ids'', ''authors'', ''kinds'', ''since'', ''until'', ''limit'', ''search'', ''before_id'']"

text \<open>The first unsupported field of the first filter object that has one is reported.\<close>

fun validate_filter_fields :: "json list \<Rightarrow> string list \<Rightarrow> query_error + unit" where
  "validate_filter_fields [] supported = Inr ()"
| "validate_filter_fields (v # vs) supported =
     (case json_as_object v of
        None \<Rightarrow> validate_filter_fields vs supported
      | Some object \<Rightarrow>
          (case find (\<lambda>field. \<not> starts_with field ''#'' \<and> field \<notin> set supported) (map fst object) of
              Some field \<Rightarrow> Inl (UnsupportedFilterField field)
            | None \<Rightarrow> validate_filter_fields vs supported))"

text \<open>The comparator of both sorts: newest first, the smaller identifier first on a tie.\<close>

definition newest_first :: "event \<Rightarrow> event \<Rightarrow> bool" where
  "newest_first left right =
     (ev_created_at right < ev_created_at left
      \<or> (ev_created_at right = ev_created_at left \<and> ev_id left \<le> ev_id right))"

definition filter_limit :: "nostr_filter \<Rightarrow> nat" where
  "filter_limit f =
     min (case f_limit f of None \<Rightarrow> DEFAULT_QUERY_LIMIT | Some n \<Rightarrow> n) MAX_QUERY_LIMIT"

definition cursor_filter_matches :: "cursor_filter \<Rightarrow> stored_event \<Rightarrow> bool" where
  "cursor_filter_matches cf s =
     (filters_match [cf_filter cf] s
      \<and> (case (cf_before_id cf, f_until (cf_filter cf)) of
           (Some before_id, Some until) \<Rightarrow>
             ev_created_at (se_event s) < until
             \<or> (ev_created_at (se_event s) = until \<and> before_id < ev_id (se_event s))
         | (None, _) \<Rightarrow> True
         | (Some _, None) \<Rightarrow> False))"

text \<open>The two nested loops: each filter's first matches, an event at most once.\<close>

definition push_match ::
  "event_id set \<times> event list \<Rightarrow> stored_event \<Rightarrow> event_id set \<times> event list" where
  "push_match acc s =
     (let (selected_ids, matches) = acc; e = se_event s in
      if ev_id e \<in> selected_ids then (selected_ids, matches)
      else (insert (ev_id e) selected_ids, matches @ [e]))"

definition select_filter ::
  "stored_event list \<Rightarrow> event_id set \<times> event list \<Rightarrow> cursor_filter \<Rightarrow> event_id set \<times> event list" where
  "select_filter ordered acc cf =
     foldl push_match acc
       (take (filter_limit (cf_filter cf)) (filter (cursor_filter_matches cf) ordered))"

definition query_with_cursors ::
  "store_inner \<Rightarrow> cursor_filter list \<Rightarrow> query_error + event list" where
  "query_with_cursors st filters =
     (if list_ex (\<lambda>cf. cf_before_id cf \<noteq> None \<and> f_until (cf_filter cf) = None) filters
      then Inl IncompleteCursor
      else and_then (validate_filters (map cf_filter filters)) (\<lambda>_.
        if filters = [] then Inr []
        else (let ordered = sort_by (\<lambda>l r. newest_first (se_event l) (se_event r)) (st_events st);
                  matches = snd (foldl (select_filter ordered) ({}, []) filters)
              in Inr (sort_by newest_first matches))))"

definition query :: "store_inner \<Rightarrow> nostr_filter list \<Rightarrow> query_error + event list" where
  "query st filters =
     query_with_cursors st (map (\<lambda>f. \<lparr>cf_filter = f, cf_before_id = None\<rparr>) filters)"

definition count_events :: "store_inner \<Rightarrow> nostr_filter list \<Rightarrow> query_error + nat" where
  "count_events st filters =
     and_then (validate_filters filters) (\<lambda>_.
       if filters = [] then Inr 0
       else Inr (length (filter (filters_match filters) (st_events st))))"

section \<open>The newest-first order\<close>

interpretation newest: comparator_order newest_first
  by unfold_locales (auto simp: newest_first_def)

interpretation newest_stored: comparator_order "\<lambda>l r. newest_first (se_event l) (se_event r)"
  by unfold_locales (auto simp: newest_first_def)

text \<open>The strict order: what comes before what in a result without repetition.\<close>

definition newer :: "event \<Rightarrow> event \<Rightarrow> bool" where
  "newer a b = (ev_created_at b < ev_created_at a
     \<or> (ev_created_at b = ev_created_at a \<and> ev_id a < ev_id b))"

lemma newer_irrefl [simp]: "\<not> newer a a"
  by (simp add: newer_def)

lemma newer_asym: "newer a b \<Longrightarrow> \<not> newer b a"
  by (auto simp: newer_def)

lemma newer_iff: "ev_id a \<noteq> ev_id b \<Longrightarrow> newer a b \<longleftrightarrow> newest_first a b"
  by (auto simp: newer_def newest_first_def)

lemma sorted_newer:
  assumes "sorted_wrt newest_first es" "distinct (map ev_id es)"
  shows "sorted_wrt newer es"
  using assms
proof (induction es)
  case (Cons a es)
  then have "\<forall>x \<in> set es. ev_id a \<noteq> ev_id x" by auto
  with Cons show ?case by (simp add: newer_iff)
qed simp

lemma sorted_newer_unique:
  "sorted_wrt newer xs \<Longrightarrow> sorted_wrt newer ys \<Longrightarrow> set xs = set ys \<Longrightarrow> xs = ys"
  by (rule sorted_wrt_unique [of newer]) (auto dest: newer_asym)

text \<open>The effective events in result order, and those of them a filter matches.\<close>

definition ordered_events :: "store_inner \<Rightarrow> stored_event list" where
  "ordered_events st = sort_by (\<lambda>l r. newest_first (se_event l) (se_event r)) (st_events st)"

definition matching :: "store_inner \<Rightarrow> cursor_filter \<Rightarrow> event list" where
  "matching st cf = map se_event (filter (cursor_filter_matches cf) (ordered_events st))"

lemma ordered_events_set [simp]: "set (ordered_events st) = set (st_events st)"
  by (simp add: ordered_events_def)

lemma ordered_events_sorted:
  assumes "store_ok L st"
  shows "sorted_wrt newer (map se_event (ordered_events st))"
    and "distinct (map ev_id (map se_event (ordered_events st)))"
proof -
  show d: "distinct (map ev_id (map se_event (ordered_events st)))"
    using store_ok_effective(2) [OF assms] by (simp add: ordered_events_def comp_def)
  have "sorted_wrt newest_first (map se_event (ordered_events st))"
    unfolding ordered_events_def sorted_wrt_map by (rule newest_stored.sorted_sort_by)
  then show "sorted_wrt newer (map se_event (ordered_events st))" using d by (rule sorted_newer)
qed

lemma matching_sorted: "store_ok L st \<Longrightarrow> sorted_wrt newer (matching st cf)"
  using ordered_events_sorted(1) [of L st]
  by (simp add: matching_def sorted_wrt_map sorted_wrt_filter)

lemma matching_set:
  "set (matching st cf) = se_event ` {s \<in> set (st_events st). cursor_filter_matches cf s}"
  by (simp add: matching_def)

lemma matching_subset: "set (matching st cf) \<subseteq> se_event ` set (st_events st)"
  by (auto simp: matching_def)

section \<open>The selection loop\<close>

definition acc_ok :: "event_id set \<times> event list \<Rightarrow> bool" where
  "acc_ok acc = (fst acc = ev_id ` set (snd acc) \<and> distinct (map ev_id (snd acc)))"

lemma foldl_push_match:
  assumes "acc_ok acc" "inj_on ev_id (set (snd acc) \<union> se_event ` set xs)"
  shows "acc_ok (foldl push_match acc xs)
    \<and> set (snd (foldl push_match acc xs)) = set (snd acc) \<union> se_event ` set xs"
  using assms
proof (induction xs arbitrary: acc)
  case (Cons s xs)
  let ?e = "se_event s"
  have inj: "inj_on ev_id (set (snd acc) \<union> se_event ` set (s # xs))" by (rule Cons.prems(2))
  have step: "acc_ok (push_match acc s) \<and> set (snd (push_match acc s)) = insert ?e (set (snd acc))"
  proof (cases "ev_id ?e \<in> fst acc")
    case True
    then obtain x where x: "x \<in> set (snd acc)" "ev_id x = ev_id ?e"
      using Cons.prems(1) by (auto simp: acc_ok_def)
    then have "x = ?e" using inj_onD [OF inj x(2)] by auto
    with x True Cons.prems(1) show ?thesis
      by (auto simp: push_match_def Let_def split: prod.splits)
  next
    case False
    with Cons.prems(1) show ?thesis
      by (auto simp: push_match_def acc_ok_def Let_def split: prod.splits)
  qed
  have "inj_on ev_id (set (snd (push_match acc s)) \<union> se_event ` set xs)"
    by (rule inj_on_subset [OF inj]) (use step in auto)
  from Cons.IH [OF conjunct1 [OF step] this] step show ?case by auto
qed simp

lemma foldl_select_filter:
  assumes "acc_ok acc" "inj_on ev_id (set (snd acc) \<union> se_event ` set ordered)"
  shows "acc_ok (foldl (select_filter ordered) acc cfs)
    \<and> set (snd (foldl (select_filter ordered) acc cfs)) = set (snd acc) \<union> (\<Union>cf \<in> set cfs.
        se_event ` set (take (filter_limit (cf_filter cf)) (filter (cursor_filter_matches cf) ordered)))"
  using assms
proof (induction cfs arbitrary: acc)
  case (Cons cf cfs)
  let ?xs = "take (filter_limit (cf_filter cf)) (filter (cursor_filter_matches cf) ordered)"
  have sub: "set ?xs \<subseteq> set ordered" by (auto dest: in_set_takeD)
  have "inj_on ev_id (set (snd acc) \<union> se_event ` set ?xs)"
    by (rule inj_on_subset [OF Cons.prems(2)]) (use sub in blast)
  from foldl_push_match [OF Cons.prems(1) this]
  have step: "acc_ok (select_filter ordered acc cf)"
    "set (snd (select_filter ordered acc cf)) = set (snd acc) \<union> se_event ` set ?xs"
    by (simp_all add: select_filter_def)
  have "inj_on ev_id (set (snd (select_filter ordered acc cf)) \<union> se_event ` set ordered)"
    by (rule inj_on_subset [OF Cons.prems(2)]) (use sub step(2) in blast)
  from Cons.IH [OF step(1) this] step(2) show ?case by auto
qed simp

lemma query_result:
  assumes "store_ok L st"
    and "\<forall>cf \<in> set cfs. cf_before_id cf \<noteq> None \<longrightarrow> f_until (cf_filter cf) \<noteq> None"
    and "\<forall>cf \<in> set cfs. f_search (cf_filter cf) = None"
  shows "\<exists>ms. query_with_cursors st cfs = Inr ms \<and> sorted_wrt newer ms
    \<and> set ms = (\<Union>cf \<in> set cfs. set (take (filter_limit (cf_filter cf)) (matching st cf)))"
proof (cases "cfs = []")
  case True
  then show ?thesis by (simp add: query_with_cursors_def validate_filters_def)
next
  case False
  let ?acc = "foldl (select_filter (ordered_events st)) ({}, []) cfs"
  have "inj_on ev_id (se_event ` set (ordered_events st))"
    using ordered_events_sorted(2) [OF assms(1)] by (simp only: distinct_map set_map)
  then have acc: "acc_ok ?acc" "set (snd ?acc) = (\<Union>cf \<in> set cfs. se_event ` set
      (take (filter_limit (cf_filter cf)) (filter (cursor_filter_matches cf) (ordered_events st))))"
    using foldl_select_filter [of "({}, [])" "ordered_events st" cfs] by (simp_all add: acc_ok_def)
  have "query_with_cursors st cfs = Inr (sort_by newest_first (snd ?acc))"
    using assms(2,3) False
    by (auto simp: query_with_cursors_def validate_filters_def list_ex_iff ordered_events_def Let_def)
  moreover have "sorted_wrt newer (sort_by newest_first (snd ?acc))"
    using acc(1) by (intro sorted_newer newest.sorted_sort_by) (simp add: acc_ok_def)
  moreover have "set (sort_by newest_first (snd ?acc))
    = (\<Union>cf \<in> set cfs. set (take (filter_limit (cf_filter cf)) (matching st cf)))"
    using acc(2) by (simp add: matching_def take_map)
  ultimately show ?thesis by blast
qed

lemma query_found:
  assumes "store_ok L st" "query_with_cursors st cfs = Inr ms" "e \<in> set ms"
  shows "\<exists>cf \<in> set cfs. \<exists>s \<in> set (st_events st). e = se_event s \<and> cursor_filter_matches cf s"
proof -
  have "\<forall>cf \<in> set cfs. cf_before_id cf \<noteq> None \<longrightarrow> f_until (cf_filter cf) \<noteq> None"
    "\<forall>cf \<in> set cfs. f_search (cf_filter cf) = None"
    using assms(2) by (auto simp: query_with_cursors_def validate_filters_def list_ex_iff result_simps
        split: if_splits)
  from query_result [OF assms(1) this] assms(2,3) obtain cf where
    "cf \<in> set cfs" "e \<in> set (take (filter_limit (cf_filter cf)) (matching st cf))" by auto
  from in_set_takeD [OF this(2)] obtain s where "s \<in> set (st_events st)" "e = se_event s"
    "cursor_filter_matches cf s" by (auto simp: matching_def)
  with \<open>cf \<in> set cfs\<close> show ?thesis by (intro bexI [of _ cf] bexI [of _ s]) simp_all
qed

lemma query_one:
  assumes "store_ok L st" "cf_before_id cf \<noteq> None \<longrightarrow> f_until (cf_filter cf) \<noteq> None"
    and "f_search (cf_filter cf) = None"
  shows "query_with_cursors st [cf] = Inr (take (filter_limit (cf_filter cf)) (matching st cf))"
proof -
  obtain ms where ms: "query_with_cursors st [cf] = Inr ms" "sorted_wrt newer ms"
    "set ms = set (take (filter_limit (cf_filter cf)) (matching st cf))"
    using query_result [OF assms(1), of "[cf]"] assms(2,3) by auto
  have "sorted_wrt newer (take (filter_limit (cf_filter cf)) (matching st cf))"
    by (rule sorted_wrt_take [OF matching_sorted [OF assms(1)]])
  from sorted_newer_unique [OF ms(2) this ms(3)] ms(1) show ?thesis by simp
qed

section \<open>Cursors and counts\<close>

definition cursor_after :: "nostr_filter \<Rightarrow> event \<Rightarrow> cursor_filter" where
  "cursor_after f c =
     \<lparr>cf_filter = f\<lparr>f_until := Some (ev_created_at c)\<rparr>, cf_before_id = Some (ev_id c)\<rparr>"

definition no_cursor :: "nostr_filter \<Rightarrow> cursor_filter" where
  "no_cursor f = \<lparr>cf_filter = f, cf_before_id = None\<rparr>"

lemma query_no_cursor: "query st fs = query_with_cursors st (map no_cursor fs)"
proof -
  have "(\<lambda>f. \<lparr>cf_filter = f, cf_before_id = None\<rparr>) = no_cursor" by (rule ext) (simp add: no_cursor_def)
  then show ?thesis by (simp add: query_def)
qed

lemma cursor_after_matches:
  assumes "f_until f = None"
  shows "cursor_filter_matches (cursor_after f c) s
    \<longleftrightarrow> cursor_filter_matches (no_cursor f) s \<and> newer c (se_event s)"
proof -
  have "f\<lparr>f_until := None\<rparr> = f" using assms by simp
  then show ?thesis
    by (auto simp: cursor_filter_matches_def cursor_after_def no_cursor_def newer_def
        filter_match_until)
qed

lemma matching_cursor_after:
  assumes "store_ok L st" "f_until f = None" "matching st (no_cursor f) = xs @ c # ys"
  shows "matching st (cursor_after f c) = ys"
proof -
  have "matching st (cursor_after f c) = filter (newer c) (matching st (no_cursor f))"
    by (auto simp: matching_def cursor_after_matches [OF assms(2)] filter_map conj_commute
        intro!: arg_cong [where f = "map se_event"] filter_cong)
  also have "\<dots> = ys"
    unfolding assms(3)
    by (rule strictly_sorted_after)
      (use matching_sorted [OF assms(1), of "no_cursor f"] assms(3) newer_asym in auto)
  finally show ?thesis .
qed

lemma filter_limit_cursor: "filter_limit (f\<lparr>f_until := t\<rparr>) = filter_limit f"
  by (simp add: filter_limit_def)

lemma matching_distinct: "store_ok L st \<Longrightarrow> distinct (matching st cf)"
  using sorted_wrt_strict_distinct [of newer] matching_sorted by simp

section \<open>Properties\<close>

text \<open>
  C12: What a query returns. For filters without search text whose cursors are complete, on
  any reachable store, the result is strictly newest first, without repetition, and holds an
  event exactly when some filter matches it and fewer of that filter's matches are newer than
  the filter's limit (500 when absent, never above 5000).
\<close>

theorem query_returns_newest_matches:
  assumes "store_reachable L st"
    and "\<forall>cf \<in> set cfs. cf_before_id cf \<noteq> None \<longrightarrow> f_until (cf_filter cf) \<noteq> None"
    and "\<forall>cf \<in> set cfs. f_search (cf_filter cf) = None"
  shows "\<exists>ms. query_with_cursors st cfs = Inr ms \<and> sorted_wrt newer ms
    \<and> (\<forall>e. e \<in> set ms \<longleftrightarrow> (\<exists>cf \<in> set cfs.
          e \<in> se_event ` {s \<in> set (st_events st). cursor_filter_matches cf s}
          \<and> card {e' \<in> se_event ` {s \<in> set (st_events st). cursor_filter_matches cf s}. newer e' e}
              < filter_limit (cf_filter cf)))"
proof -
  have ok: "store_ok L st" using assms(1) by (rule store_reachable_ok)
  obtain ms where ms: "query_with_cursors st cfs = Inr ms" "sorted_wrt newer ms"
    "set ms = (\<Union>cf \<in> set cfs. set (take (filter_limit (cf_filter cf)) (matching st cf)))"
    using query_result [OF ok assms(2,3)] by blast
  have "e \<in> set (take n (matching st cf)) \<longleftrightarrow> e \<in> set (matching st cf)
      \<and> card {e' \<in> set (matching st cf). newer e' e} < n" for e n cf
    using take_rank [of newer "matching st cf" e n] matching_sorted [OF ok] newer_asym by simp
  with ms show ?thesis unfolding matching_set by auto
qed

definition sample_store :: store_inner where
  "sample_store = accept_all sample_lib (empty_store None)
     [(sample_env, note_a), (sample_env, profile_new)]"

lemma sample_store_reachable: "store_reachable sample_lib sample_store"
proof -
  have "open_store sample_lib (\<lambda>n. n) OpenOk EphemeralStorage = Inr (empty_store None)"
    by (simp add: open_store_def empty_store_def)
  then have "store_reachable sample_lib (empty_store None)" by (rule store_reachable.opened)
  then show ?thesis
    unfolding sample_store_def accept_all.simps by (intro store_reachable.accepted)
qed

definition newest_one :: nostr_filter where
  "newest_one = empty_filter\<lparr>f_limit := Some 1\<rparr>"

lemma newest_one_plain: "f_search newest_one = None" "f_until newest_one = None"
  by code_simp+

theorem query_returns_newest_matches_witness:
  "query_with_cursors sample_store [no_cursor newest_one] = Inr [profile_new]
   \<and> (\<exists>ms. query_with_cursors sample_store [no_cursor newest_one] = Inr ms \<and> sorted_wrt newer ms)"
proof -
  have q: "query_with_cursors sample_store [no_cursor newest_one] = Inr [profile_new]" by code_simp
  have "\<forall>cf \<in> set [no_cursor newest_one]. cf_before_id cf \<noteq> None \<longrightarrow> f_until (cf_filter cf) \<noteq> None"
    "\<forall>cf \<in> set [no_cursor newest_one]. f_search (cf_filter cf) = None"
    by (simp_all add: no_cursor_def newest_one_plain)
  from query_returns_newest_matches [OF sample_store_reachable this] q show ?thesis by blast
qed



text \<open>
  Counting agrees with querying: when no filter has more matches than its limit lets
  through, \<open>count\<close> is the length of the query result.
\<close>

theorem count_agrees_with_query:
  assumes "store_reachable L st" "\<forall>f \<in> set fs. f_search f = None"
    and "\<forall>f \<in> set fs. length (matching st (no_cursor f)) \<le> filter_limit f"
  shows "\<exists>ms. query st fs = Inr ms \<and> count_events st fs = Inr (length ms)"
proof -
  have ok: "store_ok L st" using assms(1) by (rule store_reachable_ok)
  obtain ms where ms: "query st fs = Inr ms" "sorted_wrt newer ms"
    "set ms = (\<Union>cf \<in> set (map no_cursor fs). set (take (filter_limit (cf_filter cf)) (matching st cf)))"
    using query_result [OF ok, of "map no_cursor fs"] assms(2)
    by (auto simp: query_no_cursor no_cursor_def)
  have "set ms = (\<Union>f \<in> set fs. set (matching st (no_cursor f)))"
    unfolding ms(3) using assms(3) by (simp add: no_cursor_def)
  also have "\<dots> = se_event ` set (filter (filters_match fs) (st_events st))"
    by (auto simp: matching_set cursor_filter_matches_def no_cursor_def filters_match_def list_ex_iff)
  finally have s: "set ms = set (map se_event (filter (filters_match fs) (st_events st)))" by simp
  have "distinct (map se_event (st_events st))"
    using store_ok_effective(2) [OF ok] by (auto simp: distinct_map inj_on_def)
  then have "distinct (map se_event (filter (filters_match fs) (st_events st)))"
    by (rule distinct_map_filter)
  moreover have "distinct ms" using sorted_wrt_strict_distinct [of newer ms] ms(2) by simp
  ultimately have "length ms = length (filter (filters_match fs) (st_events st))"
    using s distinct_card by (metis length_map)
  then show ?thesis
    using ms(1) assms(2)
    by (cases "fs = []") (auto simp: count_events_def validate_filters_def list_ex_iff)
qed

end
