(* ===== verification/Replication.thy ===== *)
theory Replication
  imports Store_Query
begin

text \<open>
  The replication source: the portable records of \<open>buzz-core/src/replication.rs\<close> and
  \<open>LocalReplicationSource\<close> with its cursors and the source admission policies of
  \<open>buzz-local-relay/src/lib.rs\<close>. A source reads bounded pages of the journal; following
  the cursors from the start exports every selected journal event exactly once, in order.
\<close>

section \<open>Definitions\<close>

type_synonym source_id = string
type_synonym repl_cursor = string

record replication_record =
  rr_source :: source_id
  rr_cursor :: repl_cursor
  rr_event :: event

record replication_batch =
  rb_records :: "replication_record list"
  rb_next_cursor :: repl_cursor
  rb_caught_up :: bool

datatype ingest_outcome =
    OutcomeStored
  | OutcomeDuplicate
  | OutcomeSuperseded
  | OutcomeRejected string

record replication_receipt =
  rc_source :: source_id
  rc_cursor :: repl_cursor
  rc_event_id :: string
  rc_outcome :: ingest_outcome

definition checkpoint_safe :: "replication_receipt \<Rightarrow> bool" where
  "checkpoint_safe r = (case rc_outcome r of OutcomeRejected _ \<Rightarrow> False | _ \<Rightarrow> True)"

datatype replication_source_error =
    ZeroBatchLimit
  | InvalidCursor string
  | CursorOutOfRange nat nat

definition LOCAL_REPLICATION_CURSOR_PREFIX :: string where
  "LOCAL_REPLICATION_CURSOR_PREFIX = ''local-ndjson-v1:''"

definition MAX_REPLICATION_BATCH_SIZE :: nat where
  "MAX_REPLICATION_BATCH_SIZE = 1000"

definition local_replication_cursor :: "nat \<Rightarrow> repl_cursor" where
  "local_replication_cursor position = LOCAL_REPLICATION_CURSOR_PREFIX @ show_nat position"

definition parse_local_replication_cursor :: "repl_cursor \<Rightarrow> replication_source_error + nat" where
  "parse_local_replication_cursor cursor =
     ok_or (InvalidCursor cursor)
       (Option.bind (strip_prefix cursor LOCAL_REPLICATION_CURSOR_PREFIX) (parse_uint u64_max))"

record local_source =
  ls_source :: source_id
  ls_filter :: "nostr_filter list option"

definition source_new :: "source_id \<Rightarrow> local_source" where
  "source_new source = \<lparr>ls_source = source, ls_filter = None\<rparr>"

definition source_with_filter :: "source_id \<Rightarrow> nostr_filter list \<Rightarrow> local_source" where
  "source_with_filter source filters = \<lparr>ls_source = source, ls_filter = Some filters\<rparr>"

definition exports :: "nostr_lib \<Rightarrow> nat \<Rightarrow> local_source \<Rightarrow> event \<Rightarrow> bool" where
  "exports L now src e =
     (case ls_filter src of
        None \<Rightarrow> True
      | Some filters \<Rightarrow> filters_match filters (stored_event_of L now e))"

text \<open>
  The records of the page that starts at journal position \<open>p\<close>: each exported event with
  the position behind it.
\<close>

fun page_records ::
  "nostr_lib \<Rightarrow> nat \<Rightarrow> local_source \<Rightarrow> nat \<Rightarrow> event list \<Rightarrow> replication_record list" where
  "page_records L now src p [] = []"
| "page_records L now src p (e # es) =
     (if exports L now src e
      then \<lparr>rr_source = ls_source src, rr_cursor = local_replication_cursor (p + 1), rr_event = e\<rparr>
        # page_records L now src (p + 1) es
      else page_records L now src (p + 1) es)"

definition read_batch ::
  "nostr_lib \<Rightarrow> nat \<Rightarrow> local_source \<Rightarrow> store_inner \<Rightarrow> repl_cursor option \<Rightarrow> nat
     \<Rightarrow> replication_source_error + replication_batch" where
  "read_batch L now src st cursor limit =
     (if limit = 0 then Inl ZeroBatchLimit
      else and_then (case cursor of Some c \<Rightarrow> parse_local_replication_cursor c | None \<Rightarrow> Inr 0) (\<lambda>start.
        if length (st_journal st) < start
        then Inl (CursorOutOfRange start (length (st_journal st)))
        else (let page_size = min limit MAX_REPLICATION_BATCH_SIZE;
                  end' = min (saturating_add start page_size) (length (st_journal st))
              in Inr \<lparr>rb_records =
                     page_records L now src start (take (end' - start) (drop start (st_journal st))),
                   rb_next_cursor = local_replication_cursor end',
                   rb_caught_up = (end' = length (st_journal st))\<rparr>)))"

text \<open>Source admission policies: \<open>admit\<close> of the two implementations.\<close>

type_synonym replication_policy = "source_id \<Rightarrow> event \<Rightarrow> string + unit"

definition allowlist_admit :: "source_id set \<Rightarrow> replication_policy" where
  "allowlist_admit sources source e =
     (if source \<in> sources then Inr () else Inl (''replication source denied: '' @ source))"

definition disabled_admit :: replication_policy where
  "disabled_admit source e = Inl ''replication is disabled''"

section \<open>Cursors\<close>

lemma parse_local_cursor [simp]:
  "n \<le> u64_max \<Longrightarrow> parse_local_replication_cursor (local_replication_cursor n) = Inr n"
  by (simp add: parse_local_replication_cursor_def local_replication_cursor_def parse_show_nat)

lemma local_replication_cursor_inj:
  "local_replication_cursor m = local_replication_cursor n \<Longrightarrow> m = n"
  by (simp add: local_replication_cursor_def show_nat_inj)

section \<open>Pages\<close>

lemma exports_clock: "exports L now src e = exports L now' src e"
  unfolding exports_def
  by (cases "ls_filter src") (simp_all add: filters_match_event_channel [of "stored_event_of L now e" "stored_event_of L now' e"])

lemma page_records_events:
  "map rr_event (page_records L now src p es) = filter (exports L now src) es"
  by (induction es arbitrary: p) simp_all

lemma page_records_append:
  "page_records L now src p (xs @ ys) =
     page_records L now src p xs @ page_records L now src (p + length xs) ys"
  by (induction xs arbitrary: p) simp_all

lemma page_records_clock: "page_records L now src p es = page_records L now' src p es"
  by (induction es arbitrary: p) (simp_all add: exports_clock [of L now src _ now'])

lemma page_records_cursor:
  "r \<in> set (page_records L now src p es) \<Longrightarrow>
   \<exists>i < length es. rr_event r = es ! i \<and> rr_cursor r = local_replication_cursor (p + i + 1)
     \<and> rr_source r = ls_source src"
proof (induction es arbitrary: p)
  case (Cons e es)
  consider "r = \<lparr>rr_source = ls_source src, rr_cursor = local_replication_cursor (p + 1), rr_event = e\<rparr>"
    | "r \<in> set (page_records L now src (p + 1) es)"
    using Cons.prems by (auto split: if_splits)
  then show ?case
  proof cases
    case 2
    from Cons.IH [OF this] obtain i where "i < length es" "rr_event r = es ! i"
      "rr_cursor r = local_replication_cursor (p + 1 + i + 1)" "rr_source r = ls_source src" by blast
    then show ?thesis by (intro exI [of _ "Suc i"]) simp
  qed (auto intro!: exI [of _ 0])
qed simp

text \<open>What one page is, from a position of the journal.\<close>

definition page_end :: "store_inner \<Rightarrow> nat \<Rightarrow> nat \<Rightarrow> nat" where
  "page_end st p limit = min (p + min limit MAX_REPLICATION_BATCH_SIZE) (length (st_journal st))"

lemma read_batch_page:
  assumes "0 < limit" "p \<le> length (st_journal st)" "length (st_journal st) \<le> u64_max"
    and "cursor = Some (local_replication_cursor p) \<or> cursor = None \<and> p = 0"
  shows "read_batch L now src st cursor limit = Inr
    \<lparr>rb_records = page_records L now src p
       (take (page_end st p limit - p) (drop p (st_journal st))),
     rb_next_cursor = local_replication_cursor (page_end st p limit),
     rb_caught_up = (page_end st p limit = length (st_journal st))\<rparr>"
proof -
  have "min (saturating_add p (min limit MAX_REPLICATION_BATCH_SIZE)) (length (st_journal st))
      = page_end st p limit"
    using assms(3) by (auto simp: saturating_add_def page_end_def)
  moreover have "(case cursor of Some c \<Rightarrow> parse_local_replication_cursor c | None \<Rightarrow> Inr 0) = Inr p"
    using assms(2-4) by auto
  ultimately show ?thesis using assms(1,2) by (simp add: read_batch_def Let_def)
qed

lemma page_end_progress:
  "0 < limit \<Longrightarrow> p < length (st_journal st) \<Longrightarrow> p < page_end st p limit"
  by (auto simp: page_end_def MAX_REPLICATION_BATCH_SIZE_def)

lemma page_end_bounds:
  "p \<le> length (st_journal st) \<Longrightarrow>
   p \<le> page_end st p limit \<and> page_end st p limit \<le> length (st_journal st)"
  by (auto simp: page_end_def)

text \<open>
  A consumer that follows the cursors, for at most \<open>fuel\<close> pages: the records it was given
  and whether it was told that it is caught up.
\<close>

fun follow ::
  "nat \<Rightarrow> nostr_lib \<Rightarrow> nat \<Rightarrow> local_source \<Rightarrow> store_inner \<Rightarrow> repl_cursor option \<Rightarrow> nat
     \<Rightarrow> (replication_source_error + replication_record list) option" where
  "follow 0 L now src st cursor limit = None"
| "follow (Suc fuel) L now src st cursor limit =
     (case read_batch L now src st cursor limit of
        Inl err \<Rightarrow> Some (Inl err)
      | Inr b \<Rightarrow>
          if rb_caught_up b then Some (Inr (rb_records b))
          else map_option (map_sum id (\<lambda>rs. rb_records b @ rs))
            (follow fuel L now src st (Some (rb_next_cursor b)) limit))"

lemma follow_all:
  assumes "0 < limit" "p \<le> length (st_journal st)" "length (st_journal st) \<le> u64_max"
    and "cursor = Some (local_replication_cursor p) \<or> cursor = None \<and> p = 0"
    and "length (st_journal st) - p < fuel"
  shows "follow fuel L now src st cursor limit
    = Some (Inr (page_records L now src p (drop p (st_journal st))))"
  using assms(2,4,5)
proof (induction fuel arbitrary: p cursor)
  case (Suc fuel)
  let ?q = "page_end st p limit" and ?j = "st_journal st"
  note page = read_batch_page [OF assms(1) Suc.prems(1) assms(3) Suc.prems(2), of L now src]
  have q: "p \<le> ?q" "?q \<le> length ?j" using page_end_bounds [OF Suc.prems(1)] by blast+
  show ?case
  proof (cases "?q = length ?j")
    case True
    with page show ?thesis by simp
  next
    case False
    then have "p < length ?j" using q by simp
    then have "p < ?q" using page_end_progress [OF assms(1)] by blast
    then have "length ?j - ?q < fuel" using Suc.prems(3) q by simp
    then have IH: "follow fuel L now src st (Some (local_replication_cursor ?q)) limit
      = Some (Inr (page_records L now src ?q (drop ?q ?j)))"
      using Suc.IH [of ?q] q by blast
    have "drop p ?j = take (?q - p) (drop p ?j) @ drop ?q ?j"
      using q append_take_drop_id [of "?q - p" "drop p ?j"] by simp
    then have "page_records L now src p (drop p ?j)
      = page_records L now src p (take (?q - p) (drop p ?j)) @ page_records L now src ?q (drop ?q ?j)"
      using page_records_append [of L now src p "take (?q - p) (drop p ?j)" "drop ?q ?j"] q by simp
    with page False IH show ?thesis by simp
  qed
qed simp

section \<open>Properties\<close>

text \<open>
  Cursors round-trip: the position printed in a cursor is the position it parses to, for
  every position a 64-bit journal length can have, so two positions never share a cursor.
\<close>

theorem cursor_round_trip:
  assumes "n \<le> u64_max"
  shows "parse_local_replication_cursor (local_replication_cursor n) = Inr n"
  using assms by simp

text \<open>
  C10: Following the cursors terminates and exports the journal. From no cursor, with any
  positive page size, a consumer is told that it is caught up after at most one page more than
  the journal has events, and has then received exactly the journal events the stream selects,
  each once and in journal order, each with the cursor of the position behind it. Pages that
  select nothing do not stop it.
\<close>

theorem following_cursors_exports_journal:
  assumes "0 < limit" "length (st_journal st) \<le> u64_max"
    and "length (st_journal st) < fuel"
  shows "\<exists>rs. follow fuel L now src st None limit = Some (Inr rs)
    \<and> map rr_event rs = filter (exports L now src) (st_journal st)
    \<and> (\<forall>r \<in> set rs. rr_source r = ls_source src \<and> (\<exists>i < length (st_journal st).
          rr_event r = st_journal st ! i \<and> rr_cursor r = local_replication_cursor (i + 1)))"
proof -
  let ?rs = "page_records L now src 0 (st_journal st)"
  have "follow fuel L now src st None limit = Some (Inr ?rs)"
    using follow_all [of limit 0 st None fuel L now src] assms by simp
  moreover have "\<forall>r \<in> set ?rs. rr_source r = ls_source src \<and> (\<exists>i < length (st_journal st).
          rr_event r = st_journal st ! i \<and> rr_cursor r = local_replication_cursor (i + 1))"
    using page_records_cursor [of _ L now src 0 "st_journal st"] by fastforce
  ultimately show ?thesis using page_records_events by blast
qed

theorem following_cursors_exports_journal_witness:
  "\<exists>rs. follow 3 sample_lib 0 (source_with_filter ''laptop'' [empty_filter\<lparr>f_kinds := Some [1]\<rparr>])
      sample_store None 1 = Some (Inr rs) \<and> map rr_event rs = [note_a]"
proof -
  let ?src = "source_with_filter ''laptop'' [empty_filter\<lparr>f_kinds := Some [1]\<rparr>]"
  have "(0::nat) < 1" "length (st_journal sample_store) \<le> u64_max" "length (st_journal sample_store) < 3"
    "filter (exports sample_lib 0 ?src) (st_journal sample_store) = [note_a]" by code_simp+
  with following_cursors_exports_journal [of 1 sample_store 3 sample_lib 0 ?src] show ?thesis by auto
qed

text \<open>
  A source never exports an ephemeral event and only verified ones, from a store that was
  opened empty and filled by submissions.
\<close>

theorem exported_events_are_durable:
  assumes "read_batch L now src (accept_all L (empty_store w) hist) cursor limit = Inr b"
    and "r \<in> set (rb_records b)"
  shows "\<not> is_ephemeral_kind (ev_kind (rr_event r)) \<and> verify_event L (rr_event r) = Inr ()"
proof -
  let ?st = "accept_all L (empty_store w) hist"
  have ok: "store_ok L ?st" by (rule accept_all_ok [OF empty_store_ok])
  have clean: "journal_clean ?st"
    by (rule accept_all_clean [OF empty_store_ok]) (simp add: journal_clean_def empty_store_def)
  obtain p n where "rb_records b = page_records L now src p (take n (drop p (st_journal ?st)))"
    using assms(1) by (auto simp: read_batch_def and_then_eq_Inr Let_def split: if_splits)
  with assms(2) have "rr_event r \<in> set (filter (exports L now src) (take n (drop p (st_journal ?st))))"
    using page_records_events [of L now src p] by (metis image_eqI set_map)
  then have "rr_event r \<in> set (st_journal ?st)" by (auto dest: in_set_takeD in_set_dropD)
  with clean store_okD(3) [OF ok] show ?thesis by (auto simp: journal_clean_def)
qed

end
