(* ===== verification/Identity.thy ===== *)
theory Identity
  imports Auth_Evidence Replication "HOL-Library.AList"
begin

text \<open>
  The identity adapter of the local relay, \<open>buzz-local-relay/src/identity.rs\<close>: the ledger
  of consumed proofs with its append-only file, authentication of callers and peers, peer
  trust, and the append and read policies.

  The ledger's mutex makes one consumption atomic. The evaluation time and the outcome of the
  file write are arguments. \<open>consumed_at + PROOF_RETENTION_SECS\<close> is unchecked 64-bit
  addition, which wraps in a release build. Times are seconds. A lock poisoned by a panic of
  another thread is not modelled.
\<close>

section \<open>Definitions\<close>

definition PROOF_RETENTION_SECS :: nat where "PROOF_RETENTION_SECS = 600"

datatype local_evidence =
    Nip42Evidence event string
  | Nip98Evidence string string string

record local_peer_evidence =
  pe_event :: event
  pe_challenge :: string

text \<open>\<open>iter.collect::<HashMap<_, _>>()\<close>: a later entry replaces an earlier one.\<close>

definition collect_hash_map :: "('k \<times> 'v) list \<Rightarrow> ('k \<times> 'v) list" where
  "collect_hash_map xs = foldl (\<lambda>m kv. AList.update (fst kv) (snd kv) m) [] xs"

record relay_peer_trust =
  pt_source :: source_id
  pt_relay_node_principal :: string
  pt_verification_methods :: "(pubkey \<times> string) list"

definition relay_peer_trust_new ::
  "source_id \<Rightarrow> string \<Rightarrow> (pubkey \<times> string) list \<Rightarrow> relay_peer_trust" where
  "relay_peer_trust_new source node_principal methods =
     \<lparr>pt_source = source, pt_relay_node_principal = node_principal,
      pt_verification_methods = collect_hash_map methods\<rparr>"

datatype local_identity_error = Denied identity_denial_code | Internal string

fun denial_code :: "local_identity_error \<Rightarrow> identity_denial_code option" where
  "denial_code (Denied code) = Some code"
| "denial_code (Internal m) = None"

record proof_ledger =
  pl_consumed :: "event_id \<Rightarrow> nat option"
  pl_store :: "string option"

definition load_line ::
  "nostr_lib \<Rightarrow> (event_id \<Rightarrow> nat option) \<Rightarrow> string \<Rightarrow> local_identity_error + (event_id \<Rightarrow> nat option)" where
  "load_line L consumed line =
     and_then (ok_or (Internal ''malformed proof store line'') (split_once line (CHR '' ''))) (\<lambda>(i, ts).
     and_then (ok_or (Internal (l_event_id_error L i)) (l_event_id_from_hex L i)) (\<lambda>i.
     and_then (ok_or (Internal (parse_uint_error u64_max ts)) (parse_uint u64_max ts)) (\<lambda>t.
     Inr (consumed(i := Some t)))))"

fun load_lines ::
  "nostr_lib \<Rightarrow> (event_id \<Rightarrow> nat option) \<Rightarrow> string list \<Rightarrow> local_identity_error + (event_id \<Rightarrow> nat option)" where
  "load_lines L consumed [] = Inr consumed"
| "load_lines L consumed (line # ls) =
     (if line = [] then load_lines L consumed ls
      else and_then (load_line L consumed line) (\<lambda>consumed. load_lines L consumed ls))"

text \<open>The argument is the store path's content, \<open>None\<close> without a path.\<close>

definition ledger_load ::
  "nostr_lib \<Rightarrow> file_read option \<Rightarrow> local_identity_error + proof_ledger" where
  "ledger_load L store_path =
     (case store_path of
        None \<Rightarrow> Inr \<lparr>pl_consumed = (\<lambda>_. None), pl_store = None\<rparr>
      | Some NotFound \<Rightarrow> Inr \<lparr>pl_consumed = (\<lambda>_. None), pl_store = Some ''''\<rparr>
      | Some (ReadError err) \<Rightarrow> Inl (Internal err)
      | Some (Contents text) \<Rightarrow>
          and_then (load_lines L (\<lambda>_. None) (lines text)) (\<lambda>consumed.
            Inr \<lparr>pl_consumed = consumed, pl_store = Some text\<rparr>))"

definition retain_fresh :: "nat \<Rightarrow> (event_id \<Rightarrow> nat option) \<Rightarrow> event_id \<Rightarrow> nat option" where
  "retain_fresh now consumed i =
     (case consumed i of
        None \<Rightarrow> None
      | Some consumed_at \<Rightarrow>
          if now \<le> wrapping_add consumed_at PROOF_RETENTION_SECS then Some consumed_at else None)"

definition proof_record :: "event_id \<Rightarrow> nat \<Rightarrow> string" where
  "proof_record i now = i @ CHR '' '' # show_nat now"

text \<open>
  A failed open, write or sync of the file leaves the first bytes of the record in it
  and the proof is not accepted.
\<close>

definition consume ::
  "io_outcome \<Rightarrow> proof_ledger \<Rightarrow> event_id \<Rightarrow> nat \<Rightarrow> proof_ledger \<times> (local_identity_error + unit)" where
  "consume io ledger i now =
     (let consumed = retain_fresh now (pl_consumed ledger) in
      if consumed i \<noteq> None
      then (ledger\<lparr>pl_consumed := consumed\<rparr>, Inl (Denied ReplayDetected))
      else (case pl_store ledger of
          None \<Rightarrow> (\<lparr>pl_consumed = consumed(i := Some now), pl_store = None\<rparr>, Inr ())
        | Some text \<Rightarrow>
            (case io of
                IoFail n err \<Rightarrow>
                  (\<lparr>pl_consumed = consumed,
                    pl_store = Some (text @ take n (proof_record i now @ [CHR 10]))\<rparr>,
                   Inl (Internal err))
              | IoOk \<Rightarrow>
                  (\<lparr>pl_consumed = consumed(i := Some now),
                    pl_store = Some (text @ proof_record i now @ [CHR 10])\<rparr>, Inr ()))))"

record identity_adapter =
  ia_ledger :: proof_ledger
  ia_peer_trust :: "(source_id \<times> relay_peer_trust) list"

definition adapter_new :: identity_adapter where
  "adapter_new =
     \<lparr>ia_ledger = \<lparr>pl_consumed = (\<lambda>_. None), pl_store = None\<rparr>, ia_peer_trust = []\<rparr>"

definition with_peer_trust_and_proof_store ::
  "nostr_lib \<Rightarrow> relay_peer_trust list \<Rightarrow> file_read option \<Rightarrow> local_identity_error + identity_adapter" where
  "with_peer_trust_and_proof_store L peer_trust proof_store =
     and_then (ledger_load L proof_store) (\<lambda>ledger.
       Inr \<lparr>ia_ledger = ledger,
         ia_peer_trust = collect_hash_map (map (\<lambda>trust. (pt_source trust, trust)) peer_trust)\<rparr>)"

definition with_proof_store :: "nostr_lib \<Rightarrow> file_read \<Rightarrow> local_identity_error + identity_adapter" where
  "with_proof_store L path = with_peer_trust_and_proof_store L [] (Some path)"

definition with_peer_trust :: "relay_peer_trust list \<Rightarrow> identity_adapter" where
  "with_peer_trust peer_trust =
     \<lparr>ia_ledger = \<lparr>pl_consumed = (\<lambda>_. None), pl_store = None\<rparr>,
      ia_peer_trust = collect_hash_map (map (\<lambda>trust. (pt_source trust, trust)) peer_trust)\<rparr>"

definition is_admitted_verification_key :: "identity_adapter \<Rightarrow> pubkey \<Rightarrow> bool" where
  "is_admitted_verification_key ia pubkey =
     list_ex (\<lambda>st. map_of (pt_verification_methods (snd st)) pubkey \<noteq> None) (ia_peer_trust ia)"

definition bind_peer_key ::
  "identity_adapter \<Rightarrow> source_id \<Rightarrow> pubkey \<Rightarrow> local_identity_error + peer_binding" where
  "bind_peer_key ia source pubkey =
     and_then (ok_or (Denied PeerUnbound) (map_of (ia_peer_trust ia) source)) (\<lambda>trust.
     and_then (ok_or (Denied SourceMismatch) (map_of (pt_verification_methods trust) pubkey)) (\<lambda>vm.
     Inr \<lparr>pb_source = source, pb_relay_node_principal = pt_relay_node_principal trust,
          pb_verification_method = vm\<rparr>))"

fun map_nip42_error :: "auth_error \<Rightarrow> local_identity_error" where
  "map_nip42_error EventExpired = Denied EvidenceExpired"
| "map_nip42_error ChallengeMismatch = Denied AudienceMismatch"
| "map_nip42_error RelayUrlMismatch = Denied AudienceMismatch"
| "map_nip42_error _ = Denied InvalidEvidence"

fun map_nip98_error :: "auth_error \<Rightarrow> local_identity_error" where
  "map_nip98_error Nip98Replay = Denied ReplayDetected"
| "map_nip98_error (Nip98Invalid m) =
     (if contains m ''timestamp'' then Denied EvidenceExpired
      else if contains m ''URL mismatch'' \<or> contains m ''method mismatch''
      then Denied AudienceMismatch
      else Denied InvalidEvidence)"
| "map_nip98_error _ = Denied InvalidEvidence"

definition authenticated_nostr_principal ::
  "pubkey \<Rightarrow> authentication_method \<Rightarrow> string \<Rightarrow> nat \<Rightarrow> event_id \<Rightarrow> authenticated_principal" where
  "authenticated_nostr_principal pubkey method audience now proof_id =
     \<lparr>ap_principal = NostrPrincipal pubkey, ap_method = method, ap_audience = audience,
      ap_authenticated_at = now, ap_expires_at = None, ap_proof_id = Some proof_id\<rparr>"

definition consume_proof ::
  "io_outcome \<Rightarrow> identity_adapter \<Rightarrow> event_id \<Rightarrow> nat \<Rightarrow> identity_adapter \<times> (local_identity_error + unit)" where
  "consume_proof io ia i now =
     (case consume io (ia_ledger ia) i now of (ledger, r) \<Rightarrow> (ia\<lparr>ia_ledger := ledger\<rparr>, r))"

definition authenticate_at ::
  "nostr_lib \<Rightarrow> io_outcome \<Rightarrow> identity_adapter \<Rightarrow> local_evidence \<Rightarrow> string \<Rightarrow> nat
     \<Rightarrow> identity_adapter \<times> (local_identity_error + authenticated_principal)" where
  "authenticate_at L io ia evidence audience now =
     (case evidence of
        Nip42Evidence e challenge \<Rightarrow>
          (case map_err map_nip42_error (verify_nip42_event_at L e challenge audience now) of
              Inl err \<Rightarrow> (ia, Inl err)
            | Inr _ \<Rightarrow>
                (case consume_proof io ia (ev_id e) now of
                    (ia, Inl err) \<Rightarrow> (ia, Inl err)
                  | (ia, Inr _) \<Rightarrow> (ia, Inr (authenticated_nostr_principal
                      (ev_pubkey e) Nip42Method audience now (ev_id e)))))
      | Nip98Evidence event_json method body \<Rightarrow>
          (case l_event_from_str L event_json of
              Inl _ \<Rightarrow> (ia, Inl (Denied InvalidEvidence))
            | Inr e \<Rightarrow>
                (if tag_find (ev_tags e) ''payload'' = None then (ia, Inl (Denied InvalidEvidence))
                 else (case map_err map_nip98_error
                         (verify_nip98_event_at L event_json audience method (Some body) now) of
                     Inl err \<Rightarrow> (ia, Inl err)
                   | Inr pubkey \<Rightarrow>
                       (case consume_proof io ia (ev_id e) now of
                           (ia, Inl err) \<Rightarrow> (ia, Inl err)
                         | (ia, Inr _) \<Rightarrow> (ia, Inr (authenticated_nostr_principal
                             pubkey Nip98Method audience now (ev_id e))))))))"

definition authenticate_peer_at ::
  "nostr_lib \<Rightarrow> io_outcome \<Rightarrow> identity_adapter \<Rightarrow> local_peer_evidence \<Rightarrow> string \<Rightarrow> source_id \<Rightarrow> nat
     \<Rightarrow> identity_adapter \<times> (local_identity_error + peer_binding)" where
  "authenticate_peer_at L io ia evidence audience source now =
     (case map_of (ia_peer_trust ia) source of
        None \<Rightarrow> (ia, Inl (Denied PeerUnbound))
      | Some trust \<Rightarrow>
          (case map_err map_nip42_error
              (verify_nip42_event_at L (pe_event evidence) (pe_challenge evidence) audience now) of
              Inl err \<Rightarrow> (ia, Inl err)
            | Inr _ \<Rightarrow>
                (case map_of (pt_verification_methods trust) (ev_pubkey (pe_event evidence)) of
                    None \<Rightarrow> (ia, Inl (Denied SourceMismatch))
                  | Some vm \<Rightarrow>
                      (case consume_proof io ia (ev_id (pe_event evidence)) now of
                          (ia, Inl err) \<Rightarrow> (ia, Inl err)
                        | (ia, Inr _) \<Rightarrow> (ia, Inr
                            \<lparr>pb_source = source,
                             pb_relay_node_principal = pt_relay_node_principal trust,
                             pb_verification_method = vm\<rparr>)))))"

definition event_has_recipient :: "event \<Rightarrow> string \<Rightarrow> bool" where
  "event_has_recipient e reader =
     list_ex (\<lambda>t. tag_content t = Some reader) (filter (\<lambda>t. tag_name t = ''p'') (ev_tags e))"

definition event_has_valid_recipient :: "nostr_lib \<Rightarrow> event \<Rightarrow> bool" where
  "event_has_valid_recipient L e =
     list_ex (\<lambda>v. l_pubkey_from_hex L v \<noteq> None)
       (List.map_filter tag_content (filter (\<lambda>t. tag_name t = ''p'') (ev_tags e)))"

definition authorize_append ::
  "nostr_lib \<Rightarrow> authenticated_principal \<Rightarrow> append_context \<Rightarrow> event \<Rightarrow> authorization_decision" where
  "authorize_append L caller ctxt e =
     (case ctxt of
        Direct \<Rightarrow>
          (case nostr_pubkey (ap_principal caller) of
              None \<Rightarrow> DeniedBy AuthorMismatch
            | Some pubkey \<Rightarrow>
                (let kind = event_kind_u32 e in
                 if kind = KIND_AUTH \<or> kind = KIND_HTTP_AUTH then DeniedBy ScopeDenied
                 else if ev_pubkey e = pubkey
                   \<or> (kind = KIND_GIFT_WRAP \<and> event_has_valid_recipient L e) then Allowed
                 else DeniedBy AuthorMismatch))
      | FromReplication source \<Rightarrow>
          (if relay_node_id (ap_principal caller) \<noteq> None then Allowed else DeniedBy PeerUnbound)
      | FromSystem \<Rightarrow> DeniedBy ScopeDenied)"

definition authorize_direct ::
  "nostr_lib \<Rightarrow> authenticated_principal \<Rightarrow> event \<Rightarrow> authorization_decision" where
  "authorize_direct L caller e = authorize_append L caller Direct e"

definition authorize_query ::
  "authenticated_principal \<Rightarrow> read_operation \<Rightarrow> nostr_filter list \<Rightarrow> authorization_decision" where
  "authorize_query caller operation filters = Allowed"

definition authorize_event_delivery ::
  "authenticated_principal \<Rightarrow> read_operation \<Rightarrow> event \<Rightarrow> authorization_decision" where
  "authorize_event_delivery caller operation e =
     (case nostr_pubkey (ap_principal caller) of
        None \<Rightarrow> DeniedBy EventDisclosureDenied
      | Some reader \<Rightarrow>
          (let kind = event_kind_u32 e in
           if kind \<in> set AUTHOR_ONLY_KINDS \<and> ev_pubkey e \<noteq> reader
           then DeniedBy EventDisclosureDenied
           else if kind \<in> set P_GATED_KINDS \<and> \<not> event_has_recipient e reader
           then DeniedBy EventDisclosureDenied
           else if \<not> reader_authorized_for_event e reader then DeniedBy EventDisclosureDenied
           else Allowed))"

definition authorize_local_query ::
  "authenticated_principal \<Rightarrow> read_operation \<Rightarrow> nostr_filter list \<Rightarrow> authorization_decision" where
  "authorize_local_query caller operation filters = authorize_query caller operation filters"

definition authorize_local_event ::
  "authenticated_principal \<Rightarrow> read_operation \<Rightarrow> event \<Rightarrow> authorization_decision" where
  "authorize_local_event caller operation e = authorize_event_delivery caller operation e"

section \<open>Properties\<close>

lemma event_has_recipient_iff:
  "event_has_recipient e reader \<longleftrightarrow>
     (\<exists>t \<in> set (ev_tags e). tag_name t = ''p'' \<and> tag_content t = Some reader)"
  by (auto simp: event_has_recipient_def list_ex_iff)

lemma reader_authorized_recipient:
  "event_has_recipient e reader \<Longrightarrow> reader_authorized_for_event e reader"
  by (simp add: event_has_recipient_def reader_authorized_for_event_def Let_def)

lemma reader_authorized_other_kind:
  "event_kind_u32 e \<notin> set P_GATED_KINDS \<Longrightarrow> reader_authorized_for_event e reader"
  by (simp add: reader_authorized_for_event_def P_GATED_KINDS_def Let_def)

text \<open>
  C28: The disclosure policy, exactly: an event is delivered to a caller if and only if the
  caller is a Nostr key, reminders and push leases are the caller's own, and events of the
  recipient-gated kinds name the caller in a \<open>p\<close> tag.
\<close>

theorem delivery_policy_exact:
  "authorize_event_delivery caller operation e = Allowed \<longleftrightarrow>
     (\<exists>reader. nostr_pubkey (ap_principal caller) = Some reader
        \<and> (ev_kind e \<in> {30300, 30350} \<longrightarrow> ev_pubkey e = reader)
        \<and> (ev_kind e \<in> {24200, 44100, 44101, 1059, 30622, 44200} \<longrightarrow>
              (\<exists>t \<in> set (ev_tags e). tag_name t = ''p'' \<and> tag_content t = Some reader)))"
proof (cases "nostr_pubkey (ap_principal caller)")
  case (Some reader)
  have a: "set AUTHOR_ONLY_KINDS = {30300, 30350}"
    by (simp add: AUTHOR_ONLY_KINDS_def kind_defs)
  have p: "set P_GATED_KINDS = {24200, 44100, 44101, 1059, 30622, 44200}"
    by (simp add: P_GATED_KINDS_def kind_defs)
  have "authorize_event_delivery caller operation e = Allowed \<longleftrightarrow>
      (ev_kind e \<in> set AUTHOR_ONLY_KINDS \<longrightarrow> ev_pubkey e = reader)
      \<and> (ev_kind e \<in> set P_GATED_KINDS \<longrightarrow> event_has_recipient e reader)"
    using Some reader_authorized_recipient [of e reader] reader_authorized_other_kind [of e reader]
    by (auto simp: authorize_event_delivery_def event_kind_u32_def Let_def)
  with Some show ?thesis unfolding a p event_has_recipient_iff by auto
qed (simp add: authorize_event_delivery_def)

definition caller_of :: "pubkey \<Rightarrow> authenticated_principal" where
  "caller_of k = authenticated_nostr_principal k Nip42Method ''ws://relay/'' 100 ''aa''"

theorem delivery_policy_exact_witness:
  "authorize_event_delivery (caller_of ''bob'') QueryOp
      (sample_event ''d1'' ''alice'' 5 1059 [Tag ''p'' [''bob'']] '''') = Allowed
   \<and> authorize_event_delivery (caller_of ''carol'') QueryOp
      (sample_event ''d1'' ''alice'' 5 1059 [Tag ''p'' [''bob'']] '''') \<noteq> Allowed"
  using delivery_policy_exact [of "caller_of ''bob''" QueryOp
      "sample_event ''d1'' ''alice'' 5 1059 [Tag ''p'' [''bob'']] ''''"]
    delivery_policy_exact [of "caller_of ''carol''" QueryOp
      "sample_event ''d1'' ''alice'' 5 1059 [Tag ''p'' [''bob'']] ''''"]
  by (simp add: caller_of_def authenticated_nostr_principal_def sample_event_def tag_content_def)



text \<open>
  Direct writes, exactly: a caller may append an event if and only if the caller is a Nostr
  key, the event is no authentication event, and it is the caller's own or a gift wrap with a
  well-formed recipient.
\<close>

theorem direct_append_policy_exact:
  "authorize_direct L caller e = Allowed \<longleftrightarrow>
     (\<exists>pubkey. nostr_pubkey (ap_principal caller) = Some pubkey
        \<and> ev_kind e \<noteq> 22242 \<and> ev_kind e \<noteq> 27235
        \<and> (ev_pubkey e = pubkey
           \<or> (ev_kind e = 1059 \<and> (\<exists>t \<in> set (ev_tags e). \<exists>v p. tag_name t = ''p''
                \<and> tag_content t = Some v \<and> l_pubkey_from_hex L v = Some p))))"
proof -
  have "event_has_valid_recipient L e \<longleftrightarrow> (\<exists>t \<in> set (ev_tags e). \<exists>v p. tag_name t = ''p''
      \<and> tag_content t = Some v \<and> l_pubkey_from_hex L v = Some p)"
    by (auto simp: event_has_valid_recipient_def list_ex_iff map_filter_set)
  then show ?thesis
    by (cases "nostr_pubkey (ap_principal caller)")
      (auto simp: authorize_direct_def authorize_append_def event_kind_u32_def kind_defs Let_def)
qed

text \<open>
  C27: What HTTP authentication establishes. If it succeeds for a request, the proof is a
  verified event of kind 27235 signed by the reported key, created within a minute of the
  evaluation time, naming the request's URL and method, and its \<open>payload\<close> tag, if it has
  a value, is the hash of exactly this body.
\<close>

theorem nip98_binds_request:
  assumes "authenticate_at L io ia (Nip98Evidence json method body) audience now = (ia', Inr caller)"
  shows "\<exists>e. l_event_from_str L json = Inr e \<and> verify_event L e = Inr () \<and> ev_kind e = 27235
    \<and> ap_principal caller = NostrPrincipal (ev_pubkey e) \<and> ap_proof_id caller = Some (ev_id e)
    \<and> abs_diff now (ev_created_at e) \<le> 60
    \<and> (\<exists>u. tag_find_content (ev_tags e) ''u'' = Some u \<and> normalize_url L u = normalize_url L audience)
    \<and> (\<exists>m. tag_find_content (ev_tags e) ''method'' = Some m \<and> eq_ignore_ascii_case m method)
    \<and> tag_find (ev_tags e) ''payload'' \<noteq> None
    \<and> (\<forall>h. tag_find_content (ev_tags e) ''payload'' = Some h \<longrightarrow> l_sha256_hex L body = h)"
proof -
  obtain e where e: "l_event_from_str L json = Inr e" "tag_find (ev_tags e) ''payload'' \<noteq> None"
    using assms by (auto simp: authenticate_at_def split: sum.splits if_splits)
  obtain p where p: "verify_nip98_event_at L json audience method (Some body) now = Inr p"
    using assms e
    by (cases "verify_nip98_event_at L json audience method (Some body) now")
      (auto simp: authenticate_at_def)
  have c: "caller = authenticated_nostr_principal p Nip98Method audience now (ev_id e)"
    using assms e p by (auto simp: authenticate_at_def split: prod.splits sum.splits)
  show ?thesis
    using p e c unfolding verify_nip98_accepts
    by (auto simp: authenticated_nostr_principal_def KIND_HTTP_AUTH_def)
qed

definition http_proof :: event where
  "http_proof = sample_event ''e1'' ''alice'' 100 27235
     [Tag ''u'' [''http://relay/events''], Tag ''method'' [''POST''], Tag ''payload'' [''body'']] ''''"

definition loose_http_proof :: event where
  "loose_http_proof = sample_event ''e2'' ''alice'' 100 27235
     [Tag ''u'' [''http://relay/events''], Tag ''method'' [''POST''], Tag ''payload'' []] ''''"

definition http_lib :: nostr_lib where
  "http_lib = sample_lib\<lparr>l_event_from_str := (\<lambda>s. if s = ''{e1}'' then Inr http_proof
     else if s = ''{e2}'' then Inr loose_http_proof else Inl ''syntax'')\<rparr>"

theorem nip98_binds_request_witness:
  "\<exists>e. l_event_from_str http_lib ''{e1}'' = Inr e \<and> verify_event http_lib e = Inr ()
    \<and> ev_kind e = 27235 \<and> abs_diff 130 (ev_created_at e) \<le> 60"
proof -
  let ?r = "authenticate_at http_lib IoOk adapter_new (Nip98Evidence ''{e1}'' ''post'' ''body'')
    ''http://relay/events'' 130"
  have "snd ?r = Inr (authenticated_nostr_principal ''alice'' Nip98Method ''http://relay/events'' 130 ''e1'')"
    by code_simp
  then have "?r = (fst ?r, Inr (authenticated_nostr_principal ''alice'' Nip98Method
      ''http://relay/events'' 130 ''e1''))" by (metis prod.collapse)
  from nip98_binds_request [OF this] show ?thesis by blast
qed

text \<open>
  C31: A \<open>payload\<close> tag without a value passes the adapter's requirement that a
  \<open>payload\<close> tag be present and binds nothing: the proof authenticates every body alike.
\<close>

theorem empty_payload_tag_binds_no_body:
  assumes "l_event_from_str L json = Inr e" "tag_find (ev_tags e) ''payload'' = Some (Tag ''payload'' [])"
  shows "authenticate_at L io ia (Nip98Evidence json method body) audience now
    = authenticate_at L io ia (Nip98Evidence json method body') audience now"
proof -
  have "tag_find_content (ev_tags e) ''payload'' = None"
    using assms(2) by (simp add: tag_find_content_def tag_content_def)
  then have "verify_nip98_event_at L json audience method (Some body) now
    = verify_nip98_event_at L json audience method (Some body') now"
    using assms(1) by (simp add: verify_nip98_event_at_def)
  then show ?thesis using assms by (simp add: authenticate_at_def)
qed

theorem empty_payload_tag_binds_no_body_witness:
  "is_ok (snd (authenticate_at http_lib IoOk adapter_new
     (Nip98Evidence ''{e2}'' ''POST'' ''other'') ''http://relay/events'' 130))"
proof -
  have "l_event_from_str http_lib ''{e2}'' = Inr loose_http_proof"
    "tag_find (ev_tags loose_http_proof) ''payload'' = Some (Tag ''payload'' [])" by code_simp+
  moreover have "is_ok (snd (authenticate_at http_lib IoOk adapter_new
     (Nip98Evidence ''{e2}'' ''POST'' ''signed'') ''http://relay/events'' 130))" by code_simp
  ultimately show ?thesis
    using empty_payload_tag_binds_no_body [of http_lib "''{e2}''" loose_http_proof IoOk adapter_new
        "''POST''" "''signed''" "''http://relay/events''" 130 "''other''"] by metis
qed

end
