(* ===== verification/Beacon.thy ===== *)
theory Beacon
  imports Identity
begin

text \<open>
  The Beacon parts of \<open>buzz-local-relay/src/lib.rs\<close> that do not touch the event store:
  the registry of authenticated sessions and its leases, and the recognition rounds a pulse
  opens and Beacon responses fill. Both live behind a mutex of their own. Map-valued fields
  are association lists: the session counts in any order, the responses sorted by key as the
  \<open>BTreeMap\<close> of the code is.
\<close>

section \<open>Sessions\<close>

type_synonym active_sessions = "(pubkey \<times> nat) list"

definition session_enter :: "active_sessions \<Rightarrow> pubkey \<Rightarrow> active_sessions" where
  "session_enter counts pubkey =
     AList.update pubkey ((case map_of counts pubkey of None \<Rightarrow> 0 | Some n \<Rightarrow> n) + 1) counts"

text \<open>Dropping a lease.\<close>

definition session_drop :: "active_sessions \<Rightarrow> pubkey \<Rightarrow> active_sessions" where
  "session_drop counts pubkey =
     (case map_of counts pubkey of
        None \<Rightarrow> counts
      | Some n \<Rightarrow>
          if n - 1 = 0 then AList.delete pubkey counts else AList.update pubkey (n - 1) counts)"

definition session_snapshot :: "active_sessions \<Rightarrow> nat \<times> string list" where
  "session_snapshot counts = (sum_list (map snd counts), sort (map fst counts))"

section \<open>Recognition rounds\<close>

definition DEFAULT_RECOGNITION_WINDOW_SECS :: nat where
  "DEFAULT_RECOGNITION_WINDOW_SECS = 300"

definition BEACON_STANCES :: "string list" where
  "BEACON_STANCES = [''recognize'', ''advanced'', ''conflict'', ''diverged'', ''unsatisfied'']"

record beacon_round =
  br_pulse_id :: string
  br_head :: string
  br_created_at :: nat
  br_responses :: "(string \<times> string) list"

record current_pulse =
  cp_event :: event
  cp_head :: "string option"

text \<open>\<open>BTreeMap::insert\<close>\<close>

fun btree_insert :: "string \<Rightarrow> 'v \<Rightarrow> (string \<times> 'v) list \<Rightarrow> (string \<times> 'v) list" where
  "btree_insert k v [] = [(k, v)]"
| "btree_insert k v ((k', v') # xs) =
     (if k < k' then (k, v) # (k', v') # xs
      else if k = k' then (k, v) # xs
      else (k', v') # btree_insert k v xs)"

definition event_tag_value :: "event \<Rightarrow> string \<Rightarrow> string option" where
  "event_tag_value e name = tag_lookup (ev_tags e) name"

definition is_lower_hex_event_id :: "string \<Rightarrow> bool" where
  "is_lower_hex_event_id value = (length value = 64 \<and> list_all is_lower_hexdigit value)"

definition nonempty_str :: "(string \<times> json) list \<Rightarrow> string \<Rightarrow> bool" where
  "nonempty_str observed field =
     (case obj_str observed field of None \<Rightarrow> False | Some value \<Rightarrow> value \<noteq> [])"

definition valid_beacon_observed :: "string \<Rightarrow> (string \<times> json) list \<Rightarrow> bool" where
  "valid_beacon_observed stance observed =
     (if stance = ''recognize'' then True
      else if stance = ''advanced'' then Option.bind (obj_get observed ''since'') json_as_u64 \<noteq> None
      else if stance = ''conflict'' then list_all (nonempty_str observed) [''claim'', ''mine'']
      else if stance = ''diverged'' then
        (obj_str observed ''measure'' = Some ''head-unknown''
          \<or> obj_str observed ''measure'' = Some ''agreements'') \<and> nonempty_str observed ''detail''
      else if stance = ''unsatisfied'' then list_all (nonempty_str observed) [''agreement'', ''reason'']
      else False)"

definition register_pulse :: "beacon_round list \<Rightarrow> current_pulse \<Rightarrow> beacon_round list" where
  "register_pulse rounds pulse =
     (let cutoff = ev_created_at (cp_event pulse) - DEFAULT_RECOGNITION_WINDOW_SECS;
          kept = filter (\<lambda>r. cutoff \<le> br_created_at r) rounds
      in case cp_head pulse of
           None \<Rightarrow> kept
         | Some head \<Rightarrow> kept @ [\<lparr>br_pulse_id = ev_id (cp_event pulse), br_head = head,
             br_created_at = ev_created_at (cp_event pulse), br_responses = []\<rparr>])"

definition response_in_window :: "nat \<Rightarrow> beacon_round \<Rightarrow> event \<Rightarrow> bool" where
  "response_in_window now r e =
     (let deadline = saturating_add (br_created_at r) DEFAULT_RECOGNITION_WINDOW_SECS in
      \<not> (ev_created_at e < br_created_at r \<or> deadline < ev_created_at e \<or> deadline < now))"

text \<open>
  The checks on the content of a response, in the code's order; the stance when all pass.
\<close>

definition response_stance :: "nostr_lib \<Rightarrow> beacon_round \<Rightarrow> event \<Rightarrow> string option" where
  "response_stance L r e =
     Option.bind (ok (l_json_from_str L (ev_content e))) (\<lambda>v.
     Option.bind (json_as_object v) (\<lambda>content.
     Option.bind (obj_str content ''stance'') (\<lambda>stance.
     if stance \<notin> set BEACON_STANCES \<or> obj_str content ''head'' \<noteq> Some (br_head r) then None
     else
     Option.bind (Option.bind (obj_get content ''mine'') json_as_object) (\<lambda>mine.
     if Option.bind (obj_get mine ''sequence'') json_as_u64 = None
       \<or> \<not> (case obj_get mine ''head'' of
              None \<Rightarrow> False
            | Some head \<Rightarrow> head = JNull
                \<or> (case json_as_str head of None \<Rightarrow> False | Some s \<Rightarrow> is_lower_hex_event_id s))
       \<or> \<not> (case Option.bind (obj_get content ''observed'') json_as_object of
              None \<Rightarrow> False
            | Some observed \<Rightarrow> valid_beacon_observed stance observed)
     then None
     else Some stance))))"

definition record_beacon_response ::
  "nostr_lib \<Rightarrow> nat \<Rightarrow> secret_keys option \<Rightarrow> beacon_round list \<Rightarrow> event \<Rightarrow> beacon_round list \<times> bool" where
  "record_beacon_response L now relay_keys rounds e =
     (case relay_keys of
        None \<Rightarrow> (rounds, False)
      | Some keys \<Rightarrow>
     (case event_tag_value e ''e'' of
        None \<Rightarrow> (rounds, False)
      | Some pulse_id \<Rightarrow>
     (case find_index (\<lambda>r. br_pulse_id r = pulse_id) rounds of
        None \<Rightarrow> (rounds, False)
      | Some i \<Rightarrow>
          (let r = rounds ! i in
           if \<not> response_in_window now r e
             \<or> event_tag_value e ''p'' \<noteq> Some (l_public_key L keys)
           then (rounds, False)
           else (case response_stance L r e of
               None \<Rightarrow> (rounds, False)
             | Some stance \<Rightarrow>
                 (rounds[i := r\<lparr>br_responses := btree_insert (ev_pubkey e) stance (br_responses r)\<rparr>],
                  True))))))"

definition pulse_recognition :: "nat \<Rightarrow> beacon_round list \<Rightarrow> string option \<Rightarrow> json option" where
  "pulse_recognition now rounds head =
     Option.bind head (\<lambda>head.
     Option.bind (find (\<lambda>r. br_head r = head
         \<and> now \<le> saturating_add (br_created_at r) DEFAULT_RECOGNITION_WINDOW_SECS
         \<and> br_responses r \<noteq> []) (rev rounds)) (\<lambda>r.
     Some (JObject
       [(''head'', JString (br_head r)),
        (''pulse'', JString (br_pulse_id r)),
        (''responses'', JObject (map (\<lambda>kv. (fst kv, JString (snd kv))) (br_responses r))),
        (''window_secs'', JNumber (PosInt DEFAULT_RECOGNITION_WINDOW_SECS))])))"

section \<open>The session registry counts leases\<close>

text \<open>
  What the registry promises: it represents the multiset of the leases that are held. The
  laws are stated for any representation with its invariant.
\<close>

locale lease_registry =
  fixes enter :: "'r \<Rightarrow> 'p \<Rightarrow> 'r"
    and drop_lease :: "'r \<Rightarrow> 'p \<Rightarrow> 'r"
    and leases :: "'r \<Rightarrow> 'p multiset"
    and invar :: "'r \<Rightarrow> bool"
  assumes enter_leases: "invar r \<Longrightarrow> leases (enter r p) = add_mset p (leases r)"
    and enter_invar: "invar r \<Longrightarrow> invar (enter r p)"
    and drop_leases: "invar r \<Longrightarrow> leases (drop_lease r p) = leases r - {#p#}"
    and drop_invar: "invar r \<Longrightarrow> invar (drop_lease r p)"
begin

lemma enter_drop: "invar r \<Longrightarrow> leases (drop_lease (enter r p) p) = leases r"
  by (simp add: drop_leases enter_leases enter_invar)

lemma foldl_enter: "invar r \<Longrightarrow> leases (foldl enter r ps) = mset ps + leases r \<and> invar (foldl enter r ps)"
  by (induction ps arbitrary: r) (simp_all add: enter_leases enter_invar)

lemma foldl_drop:
  "invar r \<Longrightarrow> leases (foldl drop_lease r ps) = leases r - mset ps \<and> invar (foldl drop_lease r ps)"
  by (induction ps arbitrary: r) (simp_all add: drop_leases drop_invar)

lemma enter_then_drop_some:
  "invar r \<Longrightarrow> mset qs \<subseteq># mset ps \<Longrightarrow> leases (foldl drop_lease (foldl enter r ps) qs) = mset ps - mset qs + leases r
    \<and> invar (foldl drop_lease (foldl enter r ps) qs)"
proof -
  assume a: "invar r" "mset qs \<subseteq># mset ps"
  have "leases (foldl drop_lease (foldl enter r ps) qs) = (mset ps + leases r) - mset qs"
    using foldl_enter [OF a(1)] foldl_drop [of "foldl enter r ps" qs] by simp
  also have "\<dots> = mset ps - mset qs + leases r"
    using a(2) by (rule subset_mset.add_diff_assoc2 [symmetric])
  finally show ?thesis using foldl_enter [OF a(1)] foldl_drop [of "foldl enter r ps" qs] by simp
qed

end

definition lease_count :: "active_sessions \<Rightarrow> pubkey \<Rightarrow> nat" where
  "lease_count counts p = (case map_of counts p of None \<Rightarrow> 0 | Some n \<Rightarrow> n)"

definition session_leases :: "active_sessions \<Rightarrow> pubkey multiset" where
  "session_leases counts = sum_list (map (\<lambda>pn. replicate_mset (snd pn) (fst pn)) counts)"

definition sessions_ok :: "active_sessions \<Rightarrow> bool" where
  "sessions_ok counts \<longleftrightarrow> distinct (map fst counts) \<and> (\<forall>pn \<in> set counts. 0 < snd pn)"

lemma count_session_leases:
  "distinct (map fst counts) \<Longrightarrow> count (session_leases counts) p = lease_count counts p"
proof (induction counts)
  case (Cons pn counts)
  obtain q n where pn: "pn = (q, n)" by (cases pn)
  have "map_of counts q = None" using Cons.prems pn by (simp add: map_of_eq_None_iff)
  with Cons pn show ?case
    by (cases "p = q") (simp_all add: session_leases_def lease_count_def)
qed (simp add: session_leases_def lease_count_def)

lemma map_of_pos: "sessions_ok counts \<Longrightarrow> map_of counts p = Some n \<Longrightarrow> 0 < n"
  by (force simp: sessions_ok_def dest: map_of_SomeD)

lemma sessions_update: "sessions_ok counts \<Longrightarrow> 0 < n \<Longrightarrow> sessions_ok (AList.update p n counts)"
proof -
  assume a: "sessions_ok counts" "0 < n"
  have "set (AList.update p n counts) \<subseteq> insert (p, n) (set counts)"
    by (induction counts) auto
  with a show ?thesis by (auto simp: sessions_ok_def distinct_update)
qed

lemma sessions_delete: "sessions_ok counts \<Longrightarrow> sessions_ok (AList.delete p counts)"
  by (auto simp: sessions_ok_def AList.delete_eq intro: distinct_map_filter)

lemma session_enter_ok: "sessions_ok counts \<Longrightarrow> sessions_ok (session_enter counts p)"
  by (simp add: session_enter_def sessions_update)

lemma session_drop_ok: "sessions_ok counts \<Longrightarrow> sessions_ok (session_drop counts p)"
  by (auto simp: session_drop_def sessions_update sessions_delete split: option.splits)

lemma lease_count_enter:
  "lease_count (session_enter counts p) q = lease_count counts q + (if q = p then 1 else 0)"
  by (simp add: lease_count_def session_enter_def update_conv')

lemma lease_count_drop:
  "sessions_ok counts \<Longrightarrow>
   lease_count (session_drop counts p) q = lease_count counts q - (if q = p then 1 else 0)"
  by (auto simp: lease_count_def session_drop_def update_conv' delete_conv' split: option.splits)

interpretation sessions: lease_registry session_enter session_drop session_leases sessions_ok
proof unfold_locales
  fix r :: active_sessions and p
  assume ok: "sessions_ok r"
  show "sessions_ok (session_enter r p)" "sessions_ok (session_drop r p)"
    using ok by (rule session_enter_ok session_drop_ok)+
  then have d: "distinct (map fst r)" "distinct (map fst (session_enter r p))"
    "distinct (map fst (session_drop r p))" using ok by (simp_all add: sessions_ok_def)
  show "session_leases (session_enter r p) = add_mset p (session_leases r)"
    by (rule multiset_eqI) (simp add: count_session_leases [OF d(1)] count_session_leases [OF d(2)]
        lease_count_enter)
  show "session_leases (session_drop r p) = session_leases r - {#p#}"
    by (rule multiset_eqI) (simp add: count_session_leases [OF d(1)] count_session_leases [OF d(3)]
        lease_count_drop [OF ok])
qed

section \<open>Rounds\<close>

lemma btree_insert_set: "set (btree_insert k v xs) \<subseteq> insert (k, v) (set xs)"
  by (induction k v xs rule: btree_insert.induct) (auto split: if_splits)

lemma btree_insert_keys: "set (map fst (btree_insert k v xs)) = insert k (set (map fst xs))"
proof (induction k v xs rule: btree_insert.induct)
  case (2 k v k' v' xs)
  then show ?case by (cases "k < k'"; cases "k = k'") (simp_all add: insert_commute)
qed simp

lemma btree_insert_lookup:
  "sorted_wrt (<) (map fst xs) \<Longrightarrow> map_of (btree_insert k v xs) = (map_of xs)(k \<mapsto> v)"
proof (induction xs)
  case (Cons x xs)
  obtain k' v' where x: "x = (k', v')" by (cases x)
  show ?case using Cons x by (auto simp: fun_eq_iff)
qed simp

lemma btree_insert_sorted:
  "sorted_wrt (<) (map fst xs) \<Longrightarrow> sorted_wrt (<) (map fst (btree_insert k v xs))"
proof (induction xs)
  case (Cons x xs)
  obtain k' v' where x: "x = (k', v')" by (cases x)
  show ?case
  proof (cases "k' < k")
    case True
    have "\<forall>y \<in> set (map fst (btree_insert k v xs)). k' < y"
      unfolding btree_insert_keys using Cons.prems x True by auto
    with Cons x True show ?thesis by auto
  next
    case False
    with Cons.prems x show ?thesis by (auto intro: less_trans)
  qed
qed simp

definition round_ok :: "beacon_round \<Rightarrow> bool" where
  "round_ok r \<longleftrightarrow> sorted_wrt (<) (map fst (br_responses r))
     \<and> (\<forall>kv \<in> set (br_responses r). snd kv \<in> set BEACON_STANCES)"

lemma response_stance_valid: "response_stance L r e = Some stance \<Longrightarrow> stance \<in> set BEACON_STANCES"
  by (auto simp: response_stance_def bind_eq_Some_conv split: if_splits)

lemma response_stance_head:
  "response_stance L r e = Some stance \<Longrightarrow> \<exists>content. l_json_from_str L (ev_content e) = Inr (JObject content)
    \<and> obj_str content ''stance'' = Some stance \<and> obj_str content ''head'' = Some (br_head r)"
proof -
  assume a: "response_stance L r e = Some stance"
  have "json_as_object v = Some o' \<Longrightarrow> v = JObject o'" for v o' by (cases v) auto
  with a show ?thesis
    by (auto simp: response_stance_def bind_eq_Some_conv ok_eq_Some split: if_splits)
qed

lemma record_beacon_response_True:
  assumes "record_beacon_response L now keys rounds e = (rounds', True)"
  obtains k pulse_id i stance where "keys = Some k" "event_tag_value e ''e'' = Some pulse_id"
    "find_index (\<lambda>r. br_pulse_id r = pulse_id) rounds = Some i"
    "response_in_window now (rounds ! i) e" "event_tag_value e ''p'' = Some (l_public_key L k)"
    "response_stance L (rounds ! i) e = Some stance"
    "rounds' = rounds[i := (rounds ! i)\<lparr>br_responses :=
       btree_insert (ev_pubkey e) stance (br_responses (rounds ! i))\<rparr>]"
  using assms by (auto simp: record_beacon_response_def Let_def split: option.splits if_splits)

lemma record_beacon_response_False:
  "record_beacon_response L now keys rounds e = (rounds', False) \<Longrightarrow> rounds' = rounds"
  by (auto simp: record_beacon_response_def Let_def split: option.splits if_splits)

lemma record_keeps_ok:
  assumes "\<forall>r \<in> set rounds. round_ok r"
  shows "\<forall>r \<in> set (fst (record_beacon_response L now keys rounds e)). round_ok r"
proof (cases "record_beacon_response L now keys rounds e")
  case (Pair rounds' b)
  show ?thesis
  proof (cases b)
    case False
    then have "rounds' = rounds" using Pair record_beacon_response_False by simp
    with Pair assms show ?thesis by simp
  next
    case True
    with Pair have "record_beacon_response L now keys rounds e = (rounds', True)" by simp
    then obtain pulse_id i stance where r:
      "find_index (\<lambda>r. br_pulse_id r = pulse_id) rounds = Some i"
      "response_stance L (rounds ! i) e = Some stance"
      "rounds' = rounds[i := (rounds ! i)\<lparr>br_responses :=
         btree_insert (ev_pubkey e) stance (br_responses (rounds ! i))\<rparr>]"
      by (rule record_beacon_response_True)
    then have i: "i < length rounds" "stance \<in> set BEACON_STANCES"
      using find_index_Some [OF r(1)] response_stance_valid [OF r(2)] by blast+
    then have "round_ok (rounds ! i)" using assms by simp
    then have "round_ok ((rounds ! i)\<lparr>br_responses :=
         btree_insert (ev_pubkey e) stance (br_responses (rounds ! i))\<rparr>)"
      using i(2) btree_insert_set [of "ev_pubkey e" stance "br_responses (rounds ! i)"]
      by (auto simp: round_ok_def btree_insert_sorted)
    with assms r(3) Pair show ?thesis by (auto dest!: set_update_subset_insert [THEN subsetD])
  qed
qed

lemma register_keeps_ok:
  "\<forall>r \<in> set rounds. round_ok r \<Longrightarrow> \<forall>r \<in> set (register_pulse rounds pulse). round_ok r"
  by (auto simp: register_pulse_def round_ok_def Let_def split: option.splits)

text \<open>The rounds a relay can hold: any pulses registered and any responses offered.\<close>

inductive rounds_reachable :: "nostr_lib \<Rightarrow> beacon_round list \<Rightarrow> bool" for L where
  none: "rounds_reachable L []"
| pulse: "rounds_reachable L rounds \<Longrightarrow> rounds_reachable L (register_pulse rounds pulse)"
| response: "rounds_reachable L rounds
    \<Longrightarrow> rounds_reachable L (fst (record_beacon_response L now keys rounds e))"

lemma rounds_reachable_ok: "rounds_reachable L rounds \<Longrightarrow> \<forall>r \<in> set rounds. round_ok r"
  by (induction rule: rounds_reachable.induct) (auto dest: record_keeps_ok register_keeps_ok)

section \<open>Properties\<close>

datatype session_op = Connect pubkey | Disconnect pubkey

fun run_session :: "active_sessions \<Rightarrow> session_op \<Rightarrow> active_sessions" where
  "run_session counts (Connect p) = session_enter counts p"
| "run_session counts (Disconnect p) = session_drop counts p"

fun held_leases :: "pubkey multiset \<Rightarrow> session_op \<Rightarrow> pubkey multiset" where
  "held_leases m (Connect p) = add_mset p m"
| "held_leases m (Disconnect p) = m - {#p#}"

lemma run_sessions_refine:
  "sessions_ok counts \<Longrightarrow> sessions_ok (foldl run_session counts ops)
    \<and> session_leases (foldl run_session counts ops) = foldl held_leases (session_leases counts) ops"
proof (induction ops arbitrary: counts)
  case (Cons op ops)
  then show ?case
    using sessions.enter_invar sessions.drop_invar sessions.enter_leases sessions.drop_leases
    by (cases op) simp_all
qed simp

lemma session_leases_size: "size (session_leases counts) = sum_list (map snd counts)"
  by (induction counts) (simp_all add: session_leases_def)

lemma session_leases_set: "sessions_ok counts \<Longrightarrow> set_mset (session_leases counts) = set (map fst counts)"
proof (induction counts)
  case (Cons pn counts)
  then show ?case by (cases pn) (auto simp: sessions_ok_def session_leases_def)
qed (simp add: session_leases_def)

text \<open>
  The session registry refines the multiset of held leases: after any sequence of connects
  and disconnects, the snapshot a pulse reports is the number of leases held and the ascending
  list of the principals holding at least one, each once.
\<close>

theorem session_snapshot_counts_leases:
  "session_snapshot (foldl run_session [] ops) =
     (size (foldl held_leases {#} ops), sorted_list_of_set (set_mset (foldl held_leases {#} ops)))"
proof -
  let ?c = "foldl run_session [] ops"
  have "sessions_ok []" "session_leases [] = {#}" by (simp_all add: sessions_ok_def session_leases_def)
  then have r: "sessions_ok ?c" "session_leases ?c = foldl held_leases {#} ops"
    using run_sessions_refine [of "[]" ops] by simp_all
  have "distinct (map fst ?c)" using r(1) by (simp add: sessions_ok_def)
  then have "sort (map fst ?c) = sorted_list_of_set (set (map fst ?c))"
    unfolding sorted_list_of_set_sort_remdups by (simp add: distinct_remdups_id)
  then show ?thesis
    using session_leases_size [of ?c] session_leases_set [OF r(1)] r(2)
    by (simp add: session_snapshot_def)
qed

text \<open>
  A Beacon response is recorded only for the round whose pulse it names, addressed to the
  relay's witness key, created and arriving within five minutes of the pulse, and stating the
  round's head with one of the five stances; what is recorded is that stance under the
  responder's key, and no other round or responder changes.
\<close>

theorem beacon_response_recorded:
  assumes "record_beacon_response L now keys rounds e = (rounds', True)"
    and "\<forall>r \<in> set rounds. round_ok r"
  shows "\<exists>i < length rounds. \<exists>k stance content.
     keys = Some k \<and> event_tag_value e ''e'' = Some (br_pulse_id (rounds ! i))
     \<and> event_tag_value e ''p'' = Some (l_public_key L k)
     \<and> br_created_at (rounds ! i) \<le> ev_created_at e
     \<and> ev_created_at e \<le> br_created_at (rounds ! i) + 300 \<and> now \<le> br_created_at (rounds ! i) + 300
     \<and> l_json_from_str L (ev_content e) = Inr (JObject content)
     \<and> obj_str content ''stance'' = Some stance \<and> stance \<in> set BEACON_STANCES
     \<and> obj_str content ''head'' = Some (br_head (rounds ! i))
     \<and> length rounds' = length rounds
     \<and> map_of (br_responses (rounds' ! i)) = (map_of (br_responses (rounds ! i)))(ev_pubkey e \<mapsto> stance)
     \<and> (\<forall>j < length rounds. j \<noteq> i \<longrightarrow> rounds' ! j = rounds ! j)"
proof -
  from assms(1) obtain k pulse_id i stance where r: "keys = Some k"
    "event_tag_value e ''e'' = Some pulse_id" "find_index (\<lambda>r. br_pulse_id r = pulse_id) rounds = Some i"
    "response_in_window now (rounds ! i) e" "event_tag_value e ''p'' = Some (l_public_key L k)"
    "response_stance L (rounds ! i) e = Some stance"
    "rounds' = rounds[i := (rounds ! i)\<lparr>br_responses :=
       btree_insert (ev_pubkey e) stance (br_responses (rounds ! i))\<rparr>]"
    by (rule record_beacon_response_True)
  have i: "i < length rounds" "br_pulse_id (rounds ! i) = pulse_id" using find_index_Some [OF r(3)] by auto
  have w: "br_created_at (rounds ! i) \<le> ev_created_at e"
    "ev_created_at e \<le> br_created_at (rounds ! i) + 300" "now \<le> br_created_at (rounds ! i) + 300"
    using r(4) by (auto simp: response_in_window_def saturating_add_def
        DEFAULT_RECOGNITION_WINDOW_SECS_def Let_def)
  have "round_ok (rounds ! i)" using assms(2) i(1) by simp
  then have "map_of (br_responses (rounds' ! i)) = (map_of (br_responses (rounds ! i)))(ev_pubkey e \<mapsto> stance)"
    using r(7) i(1) by (simp add: round_ok_def btree_insert_lookup)
  moreover obtain content where "l_json_from_str L (ev_content e) = Inr (JObject content)"
    "obj_str content ''stance'' = Some stance" "obj_str content ''head'' = Some (br_head (rounds ! i))"
    using response_stance_head [OF r(6)] by blast
  moreover have "\<forall>j < length rounds. j \<noteq> i \<longrightarrow> rounds' ! j = rounds ! j" "length rounds' = length rounds"
    using r(7) by simp_all
  ultimately show ?thesis using r(1,2,5) i w response_stance_valid [OF r(6)] by blast
qed

definition open_round :: beacon_round where
  "open_round = \<lparr>br_pulse_id = ''ab'', br_head = ''a1'', br_created_at = 1000, br_responses = []\<rparr>"

definition beacon_reply :: event where
  "beacon_reply = sample_event ''cd'' ''bob'' 1010 20701
     [Tag ''e'' [''ab''], Tag ''p'' [''relay-key'']] ''{reply}''"

definition beacon_lib :: nostr_lib where
  "beacon_lib = sample_lib\<lparr>l_json_from_str := (\<lambda>s. if s = ''{reply}'' then Inr (JObject
     [(''stance'', JString ''recognize''), (''head'', JString ''a1''),
      (''mine'', JObject [(''sequence'', JNumber (PosInt 3)), (''head'', JNull)]),
      (''observed'', JObject [])]) else Inl ''syntax'')\<rparr>"

text \<open>
  What a pulse reports as recognition is sound: it comes from a round for exactly the
  reported head whose five-minute window is still open, with at least one response, responders
  ascending and each listed once, and every stance one of the five the protocol knows.
\<close>

theorem recognition_is_sound:
  assumes "rounds_reachable L rounds" "pulse_recognition now rounds head = Some j"
  shows "\<exists>r \<in> set rounds. head = Some (br_head r) \<and> now \<le> br_created_at r + 300 \<and> br_responses r \<noteq> []
     \<and> sorted_wrt (<) (map fst (br_responses r))
     \<and> (\<forall>kv \<in> set (br_responses r). snd kv \<in> set BEACON_STANCES)
     \<and> json_get j ''head'' = Some (JString (br_head r)) \<and> json_get j ''pulse'' = Some (JString (br_pulse_id r))
     \<and> json_get j ''responses'' = Some (JObject (map (\<lambda>kv. (fst kv, JString (snd kv))) (br_responses r)))"
proof -
  let ?P = "\<lambda>h r. br_head r = h
         \<and> now \<le> saturating_add (br_created_at r) DEFAULT_RECOGNITION_WINDOW_SECS \<and> br_responses r \<noteq> []"
  obtain h r where h: "head = Some h" "find (?P h) (rev rounds) = Some r"
    and j: "j = JObject [(''head'', JString (br_head r)), (''pulse'', JString (br_pulse_id r)),
        (''responses'', JObject (map (\<lambda>kv. (fst kv, JString (snd kv))) (br_responses r))),
        (''window_secs'', JNumber (PosInt DEFAULT_RECOGNITION_WINDOW_SECS))]"
    using assms(2) by (auto simp: pulse_recognition_def bind_eq_Some_conv)
  from find_Some_in [OF h(2)] have r: "r \<in> set rounds" "?P h r" by auto
  moreover have "round_ok r" using rounds_reachable_ok [OF assms(1)] r(1) by blast
  ultimately show ?thesis using h(1) j
    by (intro bexI [of _ r])
      (auto simp: round_ok_def saturating_add_def DEFAULT_RECOGNITION_WINDOW_SECS_def
        json_get_def obj_get_def)
qed

end
