(* ===== verification/Declarations.thy ===== *)
theory Declarations
  imports Identity
begin

text \<open>
  Operator configuration derived from the journal, \<open>buzz-local-relay/src/declarations.rs\<close>:
  which replication peers the owner's declaration heads admit, and which artifacts a reader may
  fetch. Both read the owner's kind-30700 heads through the ordinary event query.
\<close>

section \<open>Definitions\<close>

datatype declaration_error =
    DeclarationQuery query_error
  | MalformedDeclaration string event_id string

definition d_tag :: "event \<Rightarrow> string option" where
  "d_tag e = tag_lookup (ev_tags e) ''d''"

definition n_tag :: "event \<Rightarrow> string option" where
  "n_tag e = tag_lookup (ev_tags e) ''n''"

definition p_tags :: "event \<Rightarrow> string list" where
  "p_tags e = List.map_filter tag_content (filter (\<lambda>t. tag_name t = ''p'') (ev_tags e))"

definition malformed :: "event \<Rightarrow> string \<Rightarrow> declaration_error" where
  "malformed e reason =
     MalformedDeclaration (case d_tag e of None \<Rightarrow> ''<missing>'' | Some d \<Rightarrow> d) (ev_id e) reason"

definition active :: "nostr_lib \<Rightarrow> event \<Rightarrow> bool" where
  "active L e =
     (case Option.bind (ok (l_json_from_str L (ev_content e)))
        (\<lambda>content. map_option (\<lambda>status. status = ''active'') (json_as_str (json_index content ''status''))) of
        None \<Rightarrow> True
      | Some b \<Rightarrow> b)"

definition declaration_filter :: "pubkey \<Rightarrow> nostr_filter" where
  "declaration_filter owner =
     empty_filter\<lparr>f_authors := Some [owner], f_kinds := Some [KIND_SYNC_DECLARATION]\<rparr>"

text \<open>One active admit head: the keys of its \<open>p\<close> tags, each for the same principal.\<close>

definition admit_keys ::
  "nostr_lib \<Rightarrow> event \<Rightarrow> string \<Rightarrow> declaration_error + (pubkey \<times> string) list" where
  "admit_keys L e node_principal =
     collect_results (map (\<lambda>hex.
       and_then (ok_or (malformed e (''invalid p-tag pubkey '' @ l_debug_str L hex)) (l_pubkey_from_hex L hex))
         (\<lambda>pubkey. Inr (pubkey, node_principal @ ''#nostr-key''))) (p_tags e))"

text \<open>The loop over the heads, with \<open>claimed\<close> and \<open>entries\<close>.\<close>

fun admit_loop ::
  "nostr_lib \<Rightarrow> string \<Rightarrow> bool \<times> (source_id \<times> relay_peer_trust) list \<Rightarrow> event list
     \<Rightarrow> declaration_error + bool \<times> (source_id \<times> relay_peer_trust) list" where
  "admit_loop L node_label (claimed, entries) [] = Inr (claimed, entries)"
| "admit_loop L node_label (claimed, entries) (e # es) =
     (case Option.bind (d_tag e) (\<lambda>d. strip_prefix d ''admit/'') of
        None \<Rightarrow> admit_loop L node_label (claimed, entries) es
      | Some source \<Rightarrow>
          if n_tag e \<noteq> Some node_label then admit_loop L node_label (claimed, entries) es
          else
            and_then (map_err (malformed e) (l_json_from_str L (ev_content e))) (\<lambda>content.
            if (case json_as_str (json_index content ''status'') of None \<Rightarrow> ''active'' | Some s \<Rightarrow> s)
                 \<noteq> ''active''
            then admit_loop L node_label (True, entries) es
            else
              and_then (ok_or (malformed e ''active admit head requires a string principal'')
                (json_as_str (json_index content ''principal''))) (\<lambda>node_principal.
              and_then (admit_keys L e node_principal) (\<lambda>keys.
              if keys = []
              then Inl (malformed e ''active admit head requires at least one p-tag verification key'')
              else admit_loop L node_label
                (True, entries @ [(source, relay_peer_trust_new source node_principal keys)]) es))))"

definition admit_domain_from_journal ::
  "nostr_lib \<Rightarrow> store_inner \<Rightarrow> pubkey \<Rightarrow> string
     \<Rightarrow> declaration_error + (source_id \<times> relay_peer_trust) list option" where
  "admit_domain_from_journal L st owner node_label =
     and_then (map_err DeclarationQuery (query st [declaration_filter owner])) (\<lambda>heads.
     and_then (admit_loop L node_label (False, []) heads) (\<lambda>(claimed, entries).
     Inr (if claimed then Some entries else None)))"

definition granted_streams :: "nostr_lib \<Rightarrow> string \<Rightarrow> pubkey \<Rightarrow> event list \<Rightarrow> string list" where
  "granted_streams L node_label caller heads =
     List.map_filter (\<lambda>e. Option.bind (d_tag e) (\<lambda>d. strip_prefix d ''read/''))
       (filter (\<lambda>e. list_ex (\<lambda>hex. hex = caller) (p_tags e))
         (filter (\<lambda>e. n_tag e = Some node_label \<and> active L e) heads))"

fun streams_select ::
  "nostr_lib \<Rightarrow> nat \<Rightarrow> string \<Rightarrow> event list \<Rightarrow> event list \<Rightarrow> string list \<Rightarrow> declaration_error + bool" where
  "streams_select L now node_label heads referencing [] = Inr False"
| "streams_select L now node_label heads referencing (stream # streams) =
     (case find (\<lambda>e. n_tag e = Some node_label \<and> active L e \<and> d_tag e = Some (''export/'' @ stream)) heads of
        None \<Rightarrow> streams_select L now node_label heads referencing streams
      | Some export \<Rightarrow>
          and_then (map_err (malformed export) (l_json_from_str L (ev_content export))) (\<lambda>content.
            let selection = json_index content ''selection'' in
            if json_index selection ''mirror'' = JBool True then Inr True
            else (case Option.bind (json_get selection ''filter'') json_as_array of
                None \<Rightarrow> streams_select L now node_label heads referencing streams
              | Some filters_json \<Rightarrow>
                  and_then (map_err (malformed export)
                    (collect_results (map (l_filter_from_value L) filters_json))) (\<lambda>filters.
                    if list_ex (\<lambda>e. filters_match filters (stored_event_new now e None)) referencing
                    then Inr True
                    else streams_select L now node_label heads referencing streams))))"

definition artifact_fetch_allowed ::
  "nostr_lib \<Rightarrow> nat \<Rightarrow> store_inner \<Rightarrow> pubkey \<Rightarrow> string \<Rightarrow> pubkey \<Rightarrow> string \<Rightarrow> declaration_error + bool" where
  "artifact_fetch_allowed L now st owner node_label caller sha256 =
     (let referencing = journal_events_referencing st sha256 in
      if referencing = [] then Inr False
      else and_then (map_err DeclarationQuery (query st [declaration_filter owner])) (\<lambda>heads.
        let streams = granted_streams L node_label caller heads in
        if streams = [] then Inr False
        else streams_select L now node_label heads referencing streams))"

section \<open>Lemmas\<close>

lemma query_declarations:
  assumes "store_ok L st"
  shows "query st [declaration_filter owner]
    = Inr (take 500 (matching st (no_cursor (declaration_filter owner))))"
proof -
  have "filter_limit (declaration_filter owner) = 500"
    by (simp add: filter_limit_def declaration_filter_def empty_filter_def DEFAULT_QUERY_LIMIT_def
        MAX_QUERY_LIMIT_def)
  moreover have "f_search (declaration_filter owner) = None"
    by (simp add: declaration_filter_def empty_filter_def)
  ultimately show ?thesis
    using query_one [OF assms, of "no_cursor (declaration_filter owner)"]
    by (simp add: query_no_cursor no_cursor_def)
qed

lemma matching_declarations:
  assumes "e \<in> set (matching st (no_cursor (declaration_filter owner)))"
  shows "e \<in> se_event ` set (st_events st)" "ev_pubkey e = owner" "ev_kind e = 30700"
  using assms
  by (auto simp: matching_set cursor_filter_matches_def no_cursor_def declaration_filter_def
      filter_match_one_def empty_filter_def KIND_SYNC_DECLARATION_def)

lemma collect_hash_map_keys:
  "set (map fst (collect_hash_map xs)) = set (map fst xs)"
  unfolding collect_hash_map_def
proof (induction xs rule: rev_induct)
  case (snoc x xs)
  then show ?case by (cases x) (simp add: dom_update)
qed simp

text \<open>What justifies an entry of the admit domain.\<close>

definition admit_justified ::
  "nostr_lib \<Rightarrow> string \<Rightarrow> event \<Rightarrow> source_id \<times> relay_peer_trust \<Rightarrow> bool" where
  "admit_justified L node_label e entry \<longleftrightarrow>
     d_tag e = Some (''admit/'' @ fst entry) \<and> n_tag e = Some node_label \<and> active L e
     \<and> pt_source (snd entry) = fst entry
     \<and> (\<exists>content. l_json_from_str L (ev_content e) = Inr content
          \<and> json_as_str (json_index content ''principal'') = Some (pt_relay_node_principal (snd entry)))
     \<and> pt_verification_methods (snd entry) \<noteq> []
     \<and> (\<forall>k \<in> set (map fst (pt_verification_methods (snd entry))).
          \<exists>hex \<in> set (p_tags e). l_pubkey_from_hex L hex = Some k)"

lemma admit_keys_from_tags:
  assumes "admit_keys L e node_principal = Inr keys" "k \<in> set (map fst keys)"
  shows "\<exists>hex \<in> set (p_tags e). l_pubkey_from_hex L hex = Some k"
proof -
  from assms(1) have "map (\<lambda>hex. and_then (ok_or (malformed e (''invalid p-tag pubkey '' @ l_debug_str L hex))
      (l_pubkey_from_hex L hex)) (\<lambda>pubkey. Inr (pubkey, node_principal @ ''#nostr-key''))) (p_tags e)
    = map Inr keys"
    by (simp add: admit_keys_def collect_results_eq_Inr)
  moreover from assms(2) obtain kv where "kv \<in> set keys" "k = fst kv" by auto
  ultimately obtain hex where "hex \<in> set (p_tags e)"
    "and_then (ok_or (malformed e (''invalid p-tag pubkey '' @ l_debug_str L hex))
      (l_pubkey_from_hex L hex)) (\<lambda>pubkey. Inr (pubkey, node_principal @ ''#nostr-key'')) = Inr kv"
    by (metis (no_types, lifting) image_eqI image_iff set_map)
  with \<open>k = fst kv\<close> show ?thesis by (auto simp: result_simps)
qed

lemma collect_hash_map_Nil: "collect_hash_map xs = [] \<longleftrightarrow> xs = []"
  by (metis collect_hash_map_keys list.map_disc_iff list.set_map set_empty2 image_is_empty)

lemma admit_head_justified:
  assumes "d_tag e = Some d" "strip_prefix d ''admit/'' = Some source" "n_tag e = Some node_label"
    and "l_json_from_str L (ev_content e) = Inr content"
    and "(case json_as_str (json_index content ''status'') of None \<Rightarrow> ''active'' | Some s \<Rightarrow> s) = ''active''"
    and "json_as_str (json_index content ''principal'') = Some node_principal"
    and "admit_keys L e node_principal = Inr keys" "keys \<noteq> []"
  shows "admit_justified L node_label e (source, relay_peer_trust_new source node_principal keys)"
proof -
  have "d_tag e = Some (''admit/'' @ source)"
    using assms(1,2) by (simp add: strip_prefix_eq_Some)
  moreover have "active L e"
    using assms(4,5) by (auto simp: active_def split: option.splits)
  moreover have "\<exists>hex \<in> set (p_tags e). l_pubkey_from_hex L hex = Some k"
    if "k \<in> set (map fst (collect_hash_map keys))" for k
    using admit_keys_from_tags [OF assms(7)] that unfolding collect_hash_map_keys .
  ultimately show ?thesis
    using assms(3,4,6,8) unfolding admit_justified_def relay_peer_trust_new_def
    by (simp add: collect_hash_map_Nil)
qed

lemma admit_loop_justified:
  assumes "admit_loop L node_label (claimed, entries) es = Inr (claimed', entries')"
    and "\<forall>x \<in> set entries. \<exists>e \<in> S. admit_justified L node_label e x" "set es \<subseteq> S"
  shows "\<forall>x \<in> set entries'. \<exists>e \<in> S. admit_justified L node_label e x"
  using assms
proof (induction es arbitrary: claimed entries)
  case (Cons e es)
  show ?case
  proof (cases "Option.bind (d_tag e) (\<lambda>d. strip_prefix d ''admit/'')")
    case None
    with Cons show ?thesis by simp
  next
    case (Some source)
    then obtain d where d: "d_tag e = Some d" "strip_prefix d ''admit/'' = Some source"
      by (cases "d_tag e") auto
    show ?thesis
    proof (cases "n_tag e = Some node_label")
      case False
      with Some Cons show ?thesis by simp
    next
      case n: True
      then obtain content where c: "l_json_from_str L (ev_content e) = Inr content"
        using Cons.prems(1) Some by (auto simp: result_simps)
      let ?act = "(case json_as_str (json_index content ''status'') of None \<Rightarrow> ''active'' | Some s \<Rightarrow> s) = ''active''"
      show ?thesis
      proof (cases ?act)
        case False
        with Some n c Cons show ?thesis by simp
      next
        case act: True
        then obtain node_principal keys where k:
          "json_as_str (json_index content ''principal'') = Some node_principal"
          "admit_keys L e node_principal = Inr keys" "keys \<noteq> []"
          "admit_loop L node_label
            (True, entries @ [(source, relay_peer_trust_new source node_principal keys)]) es
            = Inr (claimed', entries')"
          using Cons.prems(1) Some n c by (auto simp: result_simps split: if_splits)
        have "admit_justified L node_label e (source, relay_peer_trust_new source node_principal keys)"
          by (rule admit_head_justified [OF d n c act k(1-3)])
        then show ?thesis using Cons.IH [OF k(4)] Cons.prems(2,3) by auto
      qed
    qed
  qed
qed simp

lemma admit_loop_unclaimed:
  "\<forall>e \<in> set es. Option.bind (d_tag e) (\<lambda>d. strip_prefix d ''admit/'') = None \<Longrightarrow>
   admit_loop L node_label (claimed, entries) es = Inr (claimed, entries)"
  by (induction es) simp_all

text \<open>What justifies disclosing a blob to a reader who is not the owner.\<close>

definition fetch_justified ::
  "nostr_lib \<Rightarrow> nat \<Rightarrow> string \<Rightarrow> event set \<Rightarrow> event list \<Rightarrow> string \<Rightarrow> bool" where
  "fetch_justified L now node_label heads referencing stream \<longleftrightarrow>
     (\<exists>export \<in> heads. \<exists>content. n_tag export = Some node_label \<and> active L export
        \<and> d_tag export = Some (''export/'' @ stream)
        \<and> l_json_from_str L (ev_content export) = Inr content
        \<and> (json_index (json_index content ''selection'') ''mirror'' = JBool True
           \<or> (\<exists>fs filters. json_get (json_index content ''selection'') ''filter'' = Some (JArray fs)
                \<and> collect_results (map (l_filter_from_value L) fs) = Inr filters
                \<and> (\<exists>e \<in> set referencing. filters_match filters (stored_event_new now e None)))))"

lemma json_as_array_Some: "json_as_array v = Some xs \<longleftrightarrow> v = JArray xs"
  by (cases v) auto

lemma fetch_justifiedI:
  assumes "export \<in> heads" "n_tag export = Some node_label" "active L export"
    "d_tag export = Some (''export/'' @ stream)" "l_json_from_str L (ev_content export) = Inr content"
    and "json_index (json_index content ''selection'') ''mirror'' = JBool True
      \<or> (json_get (json_index content ''selection'') ''filter'' = Some (JArray fs)
         \<and> collect_results (map (l_filter_from_value L) fs) = Inr filters
         \<and> e \<in> set referencing \<and> filters_match filters (stored_event_new now e None))"
  shows "fetch_justified L now node_label heads referencing stream"
  unfolding fetch_justified_def using assms by blast

lemma streams_select_justified:
  assumes "streams_select L now node_label heads referencing streams = Inr True"
  shows "\<exists>stream \<in> set streams. fetch_justified L now node_label (set heads) referencing stream"
  using assms
proof (induction streams)
  case (Cons stream streams)
  let ?P = "\<lambda>e. n_tag e = Some node_label \<and> active L e \<and> d_tag e = Some (''export/'' @ stream)"
  show ?case
  proof (cases "find ?P heads")
    case None
    with Cons show ?thesis by simp
  next
    case (Some export)
    then have x: "export \<in> set heads" "?P export" using find_Some_in [OF Some] by blast+
    obtain content where c: "l_json_from_str L (ev_content export) = Inr content"
      using Cons.prems Some by (auto simp: result_simps)
    note J = fetch_justifiedI [OF x(1) _ _ _ c, of node_label stream]
    let ?sel = "json_index content ''selection''"
    show ?thesis
    proof (cases "json_index ?sel ''mirror'' = JBool True")
      case True
      then show ?thesis using J x(2) by auto
    next
      case m: False
      show ?thesis
      proof (cases "Option.bind (json_get ?sel ''filter'') json_as_array")
        case None
        with Cons Some c m show ?thesis by (simp add: Let_def)
      next
        case f: (Some fs)
        then have g: "json_get ?sel ''filter'' = Some (JArray fs)"
          by (cases "json_get ?sel ''filter''") (auto simp: json_as_array_Some)
        obtain filters where fl: "collect_results (map (l_filter_from_value L) fs) = Inr filters"
          using Cons.prems Some c m f by (auto simp: Let_def result_simps)
        show ?thesis
        proof (cases "list_ex (\<lambda>e. filters_match filters (stored_event_new now e None)) referencing")
          case True
          then obtain e where "e \<in> set referencing" "filters_match filters (stored_event_new now e None)"
            by (auto simp: list_ex_iff)
          then show ?thesis using J [OF _ _ _ disjI2 [OF conjI [OF g conjI [OF fl conjI]]]] x(2) by auto
        next
          case False
          with Cons Some c m f fl show ?thesis by (simp add: Let_def)
        qed
      qed
    qed
  qed
qed simp

section \<open>Properties\<close>

text \<open>
  C25: Admission is the owner's, for this node. Every peer the journal admits comes from an
  effective event signed by the owner, of the declaration kind, tagged for this node, whose
  \<open>d\<close> tag names the source, whose content names the principal and is not revoked, and
  every trusted key is a \<open>p\<close> tag of that same event.
\<close>

theorem admitted_peers_justified:
  assumes "store_reachable L st" "admit_domain_from_journal L st owner node_label = Inr (Some entries)"
    and "entry \<in> set entries"
  shows "\<exists>e \<in> se_event ` set (st_events st). ev_pubkey e = owner \<and> ev_kind e = 30700
    \<and> admit_justified L node_label e entry"
proof -
  let ?heads = "take 500 (matching st (no_cursor (declaration_filter owner)))"
  have "store_ok L st" using assms(1) by (rule store_reachable_ok)
  then have "query st [declaration_filter owner] = Inr ?heads" by (rule query_declarations)
  then obtain claimed where loop: "admit_loop L node_label (False, []) ?heads = Inr (claimed, entries)"
    using assms(2) by (auto simp: admit_domain_from_journal_def result_simps split: if_splits)
  obtain e where e: "e \<in> set ?heads" "admit_justified L node_label e entry"
    using admit_loop_justified [OF loop, of "set ?heads"] assms(3) by auto
  from in_set_takeD [OF e(1)] have "e \<in> set (matching st (no_cursor (declaration_filter owner)))" .
  from matching_declarations [OF this] e(2) show ?thesis by blast
qed

definition admit_head :: event where
  "admit_head = sample_event ''d1'' ''owner'' 40 30700
     [Tag ''d'' [''admit/laptop''], Tag ''n'' [''home''], Tag ''p'' [''peer'']] ''{admit}''"

definition declaration_lib :: nostr_lib where
  "declaration_lib = sample_lib\<lparr>l_json_from_str := (\<lambda>s.
     if s = ''{admit}'' then Inr (JObject [(''principal'', JString ''node-a'')])
     else if s = ''{mirror}'' then Inr (JObject [(''selection'', JObject [(''mirror'', JBool True)])])
     else Inl ''syntax'')\<rparr>"

lemma filled_store_reachable:
  "store_reachable L (accept_all L (empty_store None) hist)"
proof -
  have o: "open_store L (\<lambda>n. n) OpenOk EphemeralStorage = Inr (empty_store None)"
    by (simp add: open_store_def empty_store_def)
  have "store_reachable L st \<Longrightarrow> store_reachable L (accept_all L st hist)" for st
  proof (induction hist arbitrary: st)
    case (Cons x hist)
    then show ?case by (cases x) (simp add: store_reachable.accepted)
  qed simp
  with store_reachable.opened [OF o] show ?thesis by blast
qed

theorem admitted_peers_justified_witness:
  "\<exists>e. ev_pubkey e = ''owner'' \<and> admit_justified declaration_lib ''home'' e
     (''laptop'', relay_peer_trust_new ''laptop'' ''node-a'' [(''peer'', ''node-a#nostr-key'')])"
proof -
  let ?st = "accept_all declaration_lib (empty_store None) [(sample_env, admit_head)]"
  let ?x = "(''laptop'', relay_peer_trust_new ''laptop'' ''node-a'' [(''peer'', ''node-a#nostr-key'')])"
  have "admit_domain_from_journal declaration_lib ?st ''owner'' ''home'' = Inr (Some [?x])" by code_simp
  from admitted_peers_justified [OF filled_store_reachable this, of ?x] show ?thesis by auto
qed

text \<open>
  Heads past the query limit are dropped. The evaluation reads the 500 newest declaration
  heads of the owner; when none of those is an admit head the domain counts as unclaimed,
  whatever older active admit heads the journal holds, and the caller falls back to the
  bootstrap configuration the journal is meant to replace.
\<close>

theorem admit_heads_past_limit_dropped:
  assumes "store_reachable L st"
    and "\<forall>e \<in> set (take 500 (matching st (no_cursor (declaration_filter owner)))).
           \<forall>d. d_tag e = Some d \<longrightarrow> \<not> starts_with d ''admit/''"
  shows "admit_domain_from_journal L st owner node_label = Inr None"
proof -
  let ?heads = "take 500 (matching st (no_cursor (declaration_filter owner)))"
  have "\<forall>e \<in> set ?heads. Option.bind (d_tag e) (\<lambda>d. strip_prefix d ''admit/'') = None"
  proof
    fix e assume "e \<in> set ?heads"
    with assms(2) show "Option.bind (d_tag e) (\<lambda>d. strip_prefix d ''admit/'') = None"
      by (cases "d_tag e") (auto simp: strip_prefix_def)
  qed
  then have "admit_loop L node_label (False, []) ?heads = Inr (False, [])"
    by (rule admit_loop_unclaimed)
  moreover have "query st [declaration_filter owner] = Inr ?heads"
    by (rule query_declarations [OF store_reachable_ok [OF assms(1)]])
  ultimately show ?thesis by (simp add: admit_domain_from_journal_def)
qed

definition export_head :: event where
  "export_head = sample_event ''d2'' ''owner'' 50 30700
     [Tag ''d'' [''export/notes''], Tag ''n'' [''home'']] ''{mirror}''"

text \<open>
  C26: Disclosure of an artifact is justified. When a reader other than the owner may fetch a
  blob, some journal event references it, the owner's effective heads for this node hold an
  active read grant on a stream that names the reader, and an active export declaration of
  that stream which mirrors everything or whose filters select a referencing event.
\<close>

theorem artifact_disclosure_justified:
  assumes "store_reachable L st"
    and "artifact_fetch_allowed L now st owner node_label caller sha256 = Inr True"
  shows "(\<exists>e \<in> set (st_journal st). \<exists>t \<in> set (ev_tags e).
        tag_name t = ''x'' \<and> tag_content t = Some sha256)
    \<and> (\<exists>stream. (\<exists>grant \<in> se_event ` set (st_events st). ev_pubkey grant = owner
          \<and> d_tag grant = Some (''read/'' @ stream) \<and> n_tag grant = Some node_label
          \<and> active L grant \<and> caller \<in> set (p_tags grant))
        \<and> fetch_justified L now node_label
            {e \<in> se_event ` set (st_events st). ev_pubkey e = owner}
            (journal_events_referencing st sha256) stream)"
proof -
  let ?heads = "take 500 (matching st (no_cursor (declaration_filter owner)))"
  let ?ref = "journal_events_referencing st sha256"
  have ok: "store_ok L st" using assms(1) by (rule store_reachable_ok)
  have heads: "set ?heads \<subseteq> {e \<in> se_event ` set (st_events st). ev_pubkey e = owner}"
    using matching_declarations [of _ st owner] by (auto dest: in_set_takeD)
  have sel: "?ref \<noteq> []"
    "streams_select L now node_label ?heads ?ref (granted_streams L node_label caller ?heads) = Inr True"
    using assms(2) query_declarations [OF ok, of owner]
    by (auto simp: artifact_fetch_allowed_def Let_def split: if_splits)
  from streams_select_justified [OF sel(2)] obtain stream where
    stream: "stream \<in> set (granted_streams L node_label caller ?heads)"
      "fetch_justified L now node_label (set ?heads) ?ref stream" by blast
  obtain grant where grant: "grant \<in> set ?heads" "n_tag grant = Some node_label" "active L grant"
    "caller \<in> set (p_tags grant)" "d_tag grant = Some (''read/'' @ stream)"
    using stream(1)
    by (auto simp: granted_streams_def map_filter_set list_ex_iff bind_eq_Some_conv strip_prefix_eq_Some)
  have "fetch_justified L now node_label
      {e \<in> se_event ` set (st_events st). ev_pubkey e = owner} ?ref stream"
    using stream(2) heads unfolding fetch_justified_def by blast
  moreover have "\<exists>grant \<in> se_event ` set (st_events st). ev_pubkey grant = owner
          \<and> d_tag grant = Some (''read/'' @ stream) \<and> n_tag grant = Some node_label
          \<and> active L grant \<and> caller \<in> set (p_tags grant)"
    using grant heads by blast
  moreover have "\<exists>e \<in> set (st_journal st). \<exists>t \<in> set (ev_tags e). tag_name t = ''x'' \<and> tag_content t = Some sha256"
    using sel(1) by (auto simp: journal_events_referencing_def filter_empty_conv list_ex_iff)
  ultimately show ?thesis by blast
qed

definition grant_head :: event where
  "grant_head = sample_event ''d3'' ''owner'' 60 30700
     [Tag ''d'' [''read/notes''], Tag ''n'' [''home''], Tag ''p'' [''reader'']] ''{}''"

definition attachment_note :: event where
  "attachment_note = sample_event ''e9'' ''alice'' 70 1 [Tag ''x'' [''ff'']] ''see file''"

theorem artifact_disclosure_justified_witness:
  "\<exists>stream. fetch_justified declaration_lib 0 ''home'' {e. ev_pubkey e = ''owner''}
     [attachment_note] stream"
proof -
  let ?st = "accept_all declaration_lib (empty_store None)
    [(sample_env, export_head), (sample_env, grant_head), (sample_env, attachment_note)]"
  have a: "artifact_fetch_allowed declaration_lib 0 ?st ''owner'' ''home'' ''reader'' ''ff'' = Inr True"
    by code_simp
  have r: "journal_events_referencing ?st ''ff'' = [attachment_note]" by code_simp
  from artifact_disclosure_justified [OF filled_store_reachable a] obtain stream where
    "fetch_justified declaration_lib 0 ''home''
      {e \<in> se_event ` set (st_events ?st). ev_pubkey e = ''owner''} [attachment_note] stream"
    unfolding r by blast
  then show ?thesis unfolding fetch_justified_def by blast
qed

end
