(* ===== verification/Local_Relay.thy ===== *)
theory Local_Relay
  imports Beacon Declarations
begin

text \<open>
  The relay behind its HTTP and WebSocket surfaces, \<open>LocalRelay\<close> of
  \<open>buzz-local-relay/src/lib.rs\<close>: submission with its Beacon and group projections,
  pulses, the read paths and the replication sink.

  The state is the record \<open>local_relay\<close>; the broadcast channel is the list of events sent
  on it, and the artifact directory the map from file names to contents. An operation takes the
  environment of the call: the time, and for each of its calls to \<open>accept\<close>, in order, what
  that call meets. Operations run one after the other; the interleaving of two concurrent
  submissions between their steps is not modelled. \<open>Tag::parse\<close> fails only on an empty
  array, which no caller passes.
\<close>

section \<open>Errors and their texts\<close>

fun store_error_text :: "store_error \<Rightarrow> string" where
  "store_error_text (Io e) = ''event log I/O failed: '' @ e"
| "store_error_text (MalformedRecord line source) =
     ''event log line '' @ show_nat line @ '' is malformed: '' @ source"
| "store_error_text (InvalidRecord line reason) =
     ''event log line '' @ show_nat line @ '' failed verification: '' @ reason"
| "store_error_text (VerificationTask e) = ''event verification task failed: '' @ e"
| "store_error_text (Serialization e) = ''event serialization failed: '' @ e"
| "store_error_text (Materialization e) = ''relay state materialization failed: '' @ e"

fun query_error_text :: "query_error \<Rightarrow> string" where
  "query_error_text SearchUnsupported = ''NIP-50 search filters require the production relay''"
| "query_error_text (UnsupportedFilterField f) = ''unsupported filter field: '' @ f"
| "query_error_text IncompleteCursor = ''before_id requires until to be set''"

datatype nip29_projection_error = InvalidCommand string | Signing string

datatype replication_sink_error =
    SinkIdentity local_identity_error
  | SinkStore store_error
  | UnexpectedAcceptedOutcome string

datatype api_error =
    ApiIdentity local_identity_error
  | BadRequest string
  | ApiNotFound string
  | ApiStore store_error
  | ApiQuery query_error

section \<open>The relay state\<close>

record local_relay =
  lr_store :: store_inner
  lr_live :: "event list"
  lr_policy :: replication_policy
  lr_identity :: "identity_adapter option"
  lr_artifacts :: "(string \<Rightarrow> string option) option"
  lr_governance :: "(pubkey \<times> string) option"
  lr_relay_keys :: "secret_keys option"
  lr_sessions :: active_sessions
  lr_rounds :: "beacon_round list"

record relay_env =
  re_now :: nat
  re_accept :: "nat \<Rightarrow> accept_env"

definition open_governed_with_keys ::
  "store_inner \<Rightarrow> replication_policy \<Rightarrow> identity_adapter option \<Rightarrow> (string \<Rightarrow> string option) option
     \<Rightarrow> (pubkey \<times> string) option \<Rightarrow> secret_keys option \<Rightarrow> local_relay" where
  "open_governed_with_keys st policy identity artifacts governance relay_keys =
     \<lparr>lr_store = st, lr_live = [], lr_policy = policy, lr_identity = identity,
      lr_artifacts = artifacts, lr_governance = governance, lr_relay_keys = relay_keys,
      lr_sessions = [], lr_rounds = []\<rparr>"

definition open_governed ::
  "store_inner \<Rightarrow> replication_policy \<Rightarrow> identity_adapter option \<Rightarrow> (string \<Rightarrow> string option) option
     \<Rightarrow> (pubkey \<times> string) option \<Rightarrow> local_relay" where
  "open_governed st policy identity artifacts governance =
     open_governed_with_keys st policy identity artifacts governance None"

definition open_full_with_store_and_keys ::
  "store_inner \<Rightarrow> replication_policy \<Rightarrow> identity_adapter option \<Rightarrow> (string \<Rightarrow> string option) option
     \<Rightarrow> secret_keys option \<Rightarrow> local_relay" where
  "open_full_with_store_and_keys st policy identity artifacts relay_keys =
     open_governed_with_keys st policy identity artifacts None relay_keys"

definition open_full_with_store ::
  "store_inner \<Rightarrow> replication_policy \<Rightarrow> identity_adapter option \<Rightarrow> (string \<Rightarrow> string option) option
     \<Rightarrow> local_relay" where
  "open_full_with_store st policy identity artifacts = open_governed st policy identity artifacts None"

definition open_full ::
  "nostr_lib \<Rightarrow> (nat \<Rightarrow> nat) \<Rightarrow> open_outcome \<Rightarrow> storage_mode \<Rightarrow> replication_policy
     \<Rightarrow> identity_adapter option \<Rightarrow> (string \<Rightarrow> string option) option \<Rightarrow> store_error + local_relay" where
  "open_full L clock io mode policy identity artifacts =
     and_then (open_store L clock io mode) (\<lambda>st.
       Inr (open_full_with_store st policy identity artifacts))"

definition open_with_adapters ::
  "nostr_lib \<Rightarrow> (nat \<Rightarrow> nat) \<Rightarrow> open_outcome \<Rightarrow> storage_mode \<Rightarrow> replication_policy
     \<Rightarrow> identity_adapter option \<Rightarrow> store_error + local_relay" where
  "open_with_adapters L clock io mode policy identity = open_full L clock io mode policy identity None"

definition open_with_replication_policy ::
  "nostr_lib \<Rightarrow> (nat \<Rightarrow> nat) \<Rightarrow> open_outcome \<Rightarrow> storage_mode \<Rightarrow> replication_policy
     \<Rightarrow> store_error + local_relay" where
  "open_with_replication_policy L clock io mode policy = open_with_adapters L clock io mode policy None"

definition open_with_identity ::
  "nostr_lib \<Rightarrow> (nat \<Rightarrow> nat) \<Rightarrow> open_outcome \<Rightarrow> storage_mode \<Rightarrow> identity_adapter
     \<Rightarrow> store_error + local_relay" where
  "open_with_identity L clock io mode identity =
     open_with_adapters L clock io mode disabled_admit (Some identity)"

definition open_relay ::
  "nostr_lib \<Rightarrow> (nat \<Rightarrow> nat) \<Rightarrow> open_outcome \<Rightarrow> storage_mode \<Rightarrow> store_error + local_relay" where
  "open_relay L clock io mode = open_with_adapters L clock io mode disabled_admit None"

definition send_live :: "local_relay \<Rightarrow> event \<Rightarrow> local_relay" where
  "send_live relay e = relay\<lparr>lr_live := lr_live relay @ [e]\<rparr>"

section \<open>Principals and visibility\<close>

definition principal_pubkey :: "authenticated_principal \<Rightarrow> pubkey option" where
  "principal_pubkey caller =
     (case ap_principal caller of NostrPrincipal pubkey \<Rightarrow> Some pubkey | _ \<Rightarrow> None)"

definition pulse_visible_to :: "local_relay \<Rightarrow> authenticated_principal option \<Rightarrow> bool" where
  "pulse_visible_to relay caller =
     (case lr_identity relay of
        None \<Rightarrow> True
      | Some identity \<Rightarrow>
          (case Option.bind caller principal_pubkey of
              None \<Rightarrow> False
            | Some pubkey \<Rightarrow>
                (case lr_governance relay of
                   Some (owner, _) \<Rightarrow> owner = pubkey \<or> is_admitted_verification_key identity pubkey
                 | None \<Rightarrow> is_admitted_verification_key identity pubkey)))"

fun decision_result :: "authorization_decision \<Rightarrow> local_identity_error + unit" where
  "decision_result Allowed = Inr ()"
| "decision_result (DeniedBy code) = Inl (Denied code)"

definition relay_authorize_direct ::
  "nostr_lib \<Rightarrow> local_relay \<Rightarrow> authenticated_principal option \<Rightarrow> event \<Rightarrow> local_identity_error + unit" where
  "relay_authorize_direct L relay caller e =
     (case lr_identity relay of
        None \<Rightarrow> Inr ()
      | Some identity \<Rightarrow>
          and_then (ok_or (Denied AuthenticationRequired) caller) (\<lambda>caller.
            decision_result (authorize_direct L caller e)))"

definition relay_authorize_query ::
  "local_relay \<Rightarrow> authenticated_principal option \<Rightarrow> read_operation \<Rightarrow> nostr_filter list
     \<Rightarrow> local_identity_error + unit" where
  "relay_authorize_query relay caller operation filters =
     (case lr_identity relay of
        None \<Rightarrow> Inr ()
      | Some identity \<Rightarrow>
          and_then (ok_or (Denied AuthenticationRequired) caller) (\<lambda>caller.
            decision_result (authorize_local_query caller operation filters)))"

definition event_is_visible ::
  "local_relay \<Rightarrow> authenticated_principal option \<Rightarrow> read_operation \<Rightarrow> event \<Rightarrow> bool" where
  "event_is_visible relay caller operation e =
     (case (lr_identity relay, caller) of
        (None, _) \<Rightarrow> True
      | (Some identity, Some caller) \<Rightarrow> is_allowed (authorize_local_event caller operation e)
      | (Some _, None) \<Rightarrow> False)"

section \<open>Pulses\<close>

definition PULSE_ADAPTER_ID :: string where
  "PULSE_ADAPTER_ID = ''portable-relay-laptop-v0.1''"

definition PULSE_ROLE_SOVEREIGN :: string where
  "PULSE_ROLE_SOVEREIGN = ''sovereign''"

fun opt_json :: "string option \<Rightarrow> json" where
  "opt_json None = JNull"
| "opt_json (Some s) = JString s"

text \<open>
  The agreements an owner's effective declaration heads for this node state, by \<open>d\<close> tag,
  and whether one of them claims the admit domain.
\<close>

definition pulse_agreement ::
  "pubkey \<Rightarrow> string \<Rightarrow> (string \<times> json) list \<times> bool \<Rightarrow> event \<Rightarrow> (string \<times> json) list \<times> bool" where
  "pulse_agreement owner node_label acc e =
     (if event_kind_u32 e \<noteq> KIND_SYNC_DECLARATION \<or> ev_pubkey e \<noteq> owner then acc
      else (case event_tag_value e ''d'' of
          None \<Rightarrow> acc
        | Some d \<Rightarrow>
            if event_tag_value e ''n'' \<noteq> Some node_label then acc
            else (btree_insert d (JString (ev_id e)) (fst acc),
                  snd acc \<or> starts_with d ''admit/'')))"

definition pulse_agreements :: "local_relay \<Rightarrow> (string \<times> json) list \<times> bool" where
  "pulse_agreements relay =
     (case lr_governance relay of
        None \<Rightarrow> ([], False)
      | Some (owner, node_label) \<Rightarrow>
          foldl (pulse_agreement owner node_label) ([], False) (map se_event (st_events (lr_store relay))))"

definition pulse_coherence :: "nat \<Rightarrow> local_relay \<Rightarrow> string option \<Rightarrow> bool \<Rightarrow> json" where
  "pulse_coherence now relay head admit_claimed =
     JObject
       ([(''governance'', JObject [(''peers'', JString (if admit_claimed then ''journal'' else ''bootstrap''))])]
        @ (case lr_identity relay of
             None \<Rightarrow> []
           | Some _ \<Rightarrow>
               (let (n, principals) = session_snapshot (lr_sessions relay) in
                [(''sessions'', JObject [(''count'', JNumber (PosInt n)),
                   (''principals'', JArray (map JString principals))])]))
        @ (case pulse_recognition now (lr_rounds relay) head of
             None \<Rightarrow> []
           | Some recognition \<Rightarrow> [(''recognition'', recognition)]))"

definition current_pulse :: "nostr_lib \<Rightarrow> nat \<Rightarrow> local_relay \<Rightarrow> current_pulse option" where
  "current_pulse L now relay =
     Option.bind (lr_relay_keys relay) (\<lambda>keys.
       let journal = st_journal (lr_store relay);
           sequence = length journal;
           head = map_option ev_id (last_of journal);
           previous = (if sequence < 2 then None else map_option ev_id (get_at journal (sequence - 2)));
           (agreements, admit_claimed) = pulse_agreements relay;
           label = (case lr_governance relay of None \<Rightarrow> '''' | Some (_, label) \<Rightarrow> label);
           content = JObject
             [(''node'', JString label), (''label'', JString label), (''adapter'', JString PULSE_ADAPTER_ID),
              (''journal'', JObject [(''sequence'', JNumber (PosInt sequence)), (''head'', opt_json head)]),
              (''previous'', opt_json previous), (''checkpoints'', JObject []),
              (''agreements'', JObject agreements),
              (''coherence'', pulse_coherence now relay head admit_claimed)];
           tags = (if label \<noteq> [] then [Tag ''n'' [label]] else []) @ [Tag ''role'' [PULSE_ROLE_SOVEREIGN]]
       in map_option (\<lambda>e. \<lparr>cp_event = e, cp_head = head\<rparr>)
            (ok (l_sign L keys \<lparr>eb_kind = KIND_BEACON_PULSE, eb_content = l_json_to_string L content,
               eb_tags = tags, eb_created_at = now\<rparr>)))"

section \<open>Group projections\<close>

definition required_tag :: "event \<Rightarrow> string \<Rightarrow> nip29_projection_error + string" where
  "required_tag e name =
     ok_or (InvalidCommand (''missing required '' @ name @ '' tag'')) (event_tag_value e name)"

definition tag_or :: "event \<Rightarrow> string \<Rightarrow> string \<Rightarrow> string" where
  "tag_or e name fallback = (case event_tag_value e name of None \<Rightarrow> fallback | Some v \<Rightarrow> v)"

definition optional_tag :: "event \<Rightarrow> string \<Rightarrow> tag list" where
  "optional_tag e name =
     (case event_tag_value e name of
        None \<Rightarrow> []
      | Some value \<Rightarrow> if value \<noteq> [] then [Tag name [value]] else [])"

definition project_group_create ::
  "nostr_lib \<Rightarrow> local_relay \<Rightarrow> event \<Rightarrow> nip29_projection_error + event list" where
  "project_group_create L relay e =
     (case lr_relay_keys relay of
        None \<Rightarrow> Inr []
      | Some keys \<Rightarrow>
     and_then (required_tag e ''h'') (\<lambda>group_id.
     and_then (map_err (\<lambda>err. InvalidCommand (''invalid h tag UUID: '' @ err)) (l_uuid_parse L group_id)) (\<lambda>_.
     and_then (required_tag e ''name'') (\<lambda>name.
     and_then (require (\<not> is_blank name) (InvalidCommand ''name tag cannot be empty'')) (\<lambda>_.
     let visibility = tag_or e ''visibility'' ''open'' in
     and_then (require (visibility = ''open'' \<or> visibility = ''private'')
       (InvalidCommand (''unsupported visibility '' @ l_debug_str L visibility))) (\<lambda>_.
     let channel_type = tag_or e ''channel_type'' ''stream'' in
     and_then (require (channel_type = ''stream'' \<or> channel_type = ''forum'' \<or> channel_type = ''dm'')
       (InvalidCommand (''unsupported channel_type '' @ l_debug_str L channel_type))) (\<lambda>_.
     let metadata = [Tag ''d'' [group_id], Tag ''name'' [name]] @ optional_tag e ''about''
           @ [Tag (if visibility = ''private'' then ''private'' else ''public'') [], Tag ''closed'' [],
              Tag ''t'' [channel_type]] @ optional_tag e ''ttl'';
         creator = ev_pubkey e;
         admins = [Tag ''d'' [group_id], Tag ''p'' [creator, ''owner'']];
         members = [Tag ''d'' [group_id], Tag ''p'' [creator, '''', ''owner'']]
     in collect_results (map (\<lambda>(kind, tags). map_err Signing (l_sign L keys
          \<lparr>eb_kind = kind, eb_content = '''', eb_tags = tags, eb_created_at = ev_created_at e\<rparr>))
          [(KIND_NIP29_GROUP_METADATA, metadata), (KIND_NIP29_GROUP_ADMINS, admins),
           (KIND_NIP29_GROUP_MEMBERS, members)]))))))))"

text \<open>\<open>n\<close> counts the calls to \<open>accept\<close> the operation has made.\<close>

fun publish_projected_events ::
  "nostr_lib \<Rightarrow> relay_env \<Rightarrow> nat \<Rightarrow> local_relay \<Rightarrow> event list \<Rightarrow> local_relay \<times> (store_error + nat)" where
  "publish_projected_events L env n relay [] = (relay, Inr n)"
| "publish_projected_events L env n relay (e # es) =
     (case accept L (re_accept env n) (lr_store relay) e of
        (st, Inl err) \<Rightarrow> (relay\<lparr>lr_store := st\<rparr>, Inl err)
      | (st, Inr result) \<Rightarrow>
          (let relay = relay\<lparr>lr_store := st\<rparr>;
               relay = (if wr_publish_live result then send_live relay e else relay)
           in publish_projected_events L env (Suc n) relay es))"

section \<open>Submission\<close>

text \<open>What follows an accepted submission that is published.\<close>

definition publish_accepted ::
  "nostr_lib \<Rightarrow> relay_env \<Rightarrow> local_relay \<Rightarrow> event \<Rightarrow> event list \<Rightarrow> write_result
     \<Rightarrow> local_relay \<times> (store_error + write_result)" where
  "publish_accepted L env relay e projected result =
     (case publish_projected_events L env 1 (send_live relay e) projected of
        (relay, Inl err) \<Rightarrow> (relay, Inl err)
      | (relay, Inr _) \<Rightarrow>
          if wr_message result = ''stored''
          then (case current_pulse L (re_now env) relay of
                  None \<Rightarrow> (relay, Inr result)
                | Some pulse \<Rightarrow>
                    (send_live (relay\<lparr>lr_rounds := register_pulse (lr_rounds relay) pulse\<rparr>) (cp_event pulse),
                     Inr result))
          else (relay, Inr result))"

definition submit_from ::
  "nostr_lib \<Rightarrow> relay_env \<Rightarrow> local_relay \<Rightarrow> event \<Rightarrow> authenticated_principal option
     \<Rightarrow> local_relay \<times> (store_error + write_result)" where
  "submit_from L env relay e caller =
     (let is_beacon_response = (event_kind_u32 e = KIND_BEACON_RESPONSE) in
      if is_beacon_response \<and> lr_identity relay \<noteq> None \<and> \<not> pulse_visible_to relay caller
      then (relay, Inr (write_rejected e ''invalid: responder lacks Beacon standing''))
      else
     (case (if event_kind_u32 e = KIND_NIP29_CREATE_GROUP then project_group_create L relay e else Inr []) of
        Inl (InvalidCommand reason) \<Rightarrow> (relay, Inr (write_rejected e reason))
      | Inl (Signing reason) \<Rightarrow> (relay, Inl (Materialization reason))
      | Inr projected \<Rightarrow>
     (case accept L (re_accept env 0) (lr_store relay) e of
        (st, Inl err) \<Rightarrow> (relay\<lparr>lr_store := st\<rparr>, Inl err)
      | (st, Inr result) \<Rightarrow>
          (let relay = relay\<lparr>lr_store := st\<rparr>;
               needs_record = (is_beacon_response \<and> wr_accepted result \<and> wr_message result = ''ephemeral'');
               (rounds, recorded) = (if needs_record
                 then record_beacon_response L (re_now env) (lr_relay_keys relay) (lr_rounds relay) e
                 else (lr_rounds relay, True));
               relay = relay\<lparr>lr_rounds := rounds\<rparr>
           in if \<not> recorded
              then (relay, Inr (write_rejected e
                ''invalid: response does not answer the active Beacon pulse''))
              else if wr_publish_live result then publish_accepted L env relay e projected result
              else (relay, Inr result)))))"

definition submit ::
  "nostr_lib \<Rightarrow> relay_env \<Rightarrow> local_relay \<Rightarrow> event \<Rightarrow> local_relay \<times> (store_error + write_result)" where
  "submit L env relay e = submit_from L env relay e None"

fun materialize_loop ::
  "nostr_lib \<Rightarrow> relay_env \<Rightarrow> nat \<Rightarrow> local_relay \<Rightarrow> event list \<Rightarrow> local_relay \<times> (store_error + unit)" where
  "materialize_loop L env n relay [] = (relay, Inr ())"
| "materialize_loop L env n relay (create # creates) =
     (case project_group_create L relay create of
        Inl (InvalidCommand reason) \<Rightarrow> materialize_loop L env n relay creates
      | Inl (Signing reason) \<Rightarrow> (relay, Inl (Materialization reason))
      | Inr projected \<Rightarrow>
          (case publish_projected_events L env n relay projected of
             (relay, Inl err) \<Rightarrow> (relay, Inl err)
           | (relay, Inr n) \<Rightarrow> materialize_loop L env n relay creates))"

definition materialize_existing_nip29_state ::
  "nostr_lib \<Rightarrow> relay_env \<Rightarrow> local_relay \<Rightarrow> local_relay \<times> (store_error + unit)" where
  "materialize_existing_nip29_state L env relay =
     (if lr_relay_keys relay = None then (relay, Inr ())
      else (case query (lr_store relay) [empty_filter\<lparr>f_kinds := Some [KIND_NIP29_CREATE_GROUP]\<rparr>] of
          Inl err \<Rightarrow> (relay, Inl (Materialization (query_error_text err)))
        | Inr creates \<Rightarrow> materialize_loop L env 0 relay creates))"

section \<open>Reads\<close>

definition query_for_cursors ::
  "nostr_lib \<Rightarrow> nat \<Rightarrow> local_relay \<Rightarrow> authenticated_principal option \<Rightarrow> read_operation
     \<Rightarrow> cursor_filter list \<Rightarrow> local_relay \<times> (api_error + event list)" where
  "query_for_cursors L now relay caller operation cfs =
     (case relay_authorize_query relay caller operation (map cf_filter cfs) of
        Inl err \<Rightarrow> (relay, Inl (ApiIdentity err))
      | Inr _ \<Rightarrow>
     (case query_with_cursors (lr_store relay) cfs of
        Inl err \<Rightarrow> (relay, Inl (ApiQuery err))
      | Inr found \<Rightarrow>
          (let events = filter (event_is_visible relay caller operation) found;
               pulse_filters = filter (\<lambda>f. case f_kinds f of None \<Rightarrow> False
                 | Some kinds \<Rightarrow> KIND_BEACON_PULSE \<in> set kinds) (map cf_filter cfs)
           in if pulse_filters \<noteq> [] \<and> pulse_visible_to relay caller
              then (case current_pulse L now relay of
                  None \<Rightarrow> (relay, Inr events)
                | Some pulse \<Rightarrow>
                    if filters_match pulse_filters (stored_event_of L now (cp_event pulse))
                    then (relay\<lparr>lr_rounds := register_pulse (lr_rounds relay) pulse\<rparr>,
                          Inr (cp_event pulse # events))
                    else (relay, Inr events))
              else (relay, Inr events))))"

definition query_for ::
  "nostr_lib \<Rightarrow> nat \<Rightarrow> local_relay \<Rightarrow> authenticated_principal option \<Rightarrow> read_operation
     \<Rightarrow> nostr_filter list \<Rightarrow> local_relay \<times> (api_error + event list)" where
  "query_for L now relay caller operation filters =
     query_for_cursors L now relay caller operation
       (map (\<lambda>f. \<lparr>cf_filter = f, cf_before_id = None\<rparr>) filters)"

definition count_for ::
  "local_relay \<Rightarrow> authenticated_principal option \<Rightarrow> nostr_filter list \<Rightarrow> api_error + nat" where
  "count_for relay caller filters =
     and_then (map_err ApiIdentity (relay_authorize_query relay caller CountOp filters)) (\<lambda>_.
     and_then (map_err ApiQuery (validate_filters filters)) (\<lambda>_.
     if filters = [] then Inr 0
     else Inr (length (filter (\<lambda>s. event_is_visible relay caller CountOp (se_event s))
       (filter (filters_match filters) (st_events (lr_store relay)))))))"

section \<open>The replication sink\<close>

definition rejected_receipt :: "replication_record \<Rightarrow> string \<Rightarrow> replication_receipt" where
  "rejected_receipt r reason =
     \<lparr>rc_source = rr_source r, rc_cursor = rr_cursor r, rc_event_id = ev_id (rr_event r),
      rc_outcome = OutcomeRejected reason\<rparr>"

definition accepted_outcome :: "string \<Rightarrow> ingest_outcome option" where
  "accepted_outcome message =
     (if message = ''stored'' then Some OutcomeStored
      else if message = ''duplicate'' then Some OutcomeDuplicate
      else if message = ''superseded'' then Some OutcomeSuperseded
      else None)"

definition ingest_replication ::
  "nostr_lib \<Rightarrow> relay_env \<Rightarrow> local_relay \<Rightarrow> replication_record
     \<Rightarrow> local_relay \<times> (replication_sink_error + replication_receipt)" where
  "ingest_replication L env relay r =
     (case lr_policy relay (rr_source r) (rr_event r) of
        Inl reason \<Rightarrow> (relay, Inr (rejected_receipt r reason))
      | Inr _ \<Rightarrow>
          if is_ephemeral_kind (ev_kind (rr_event r))
          then (relay, Inr (rejected_receipt r ''ephemeral events are not part of durable replication''))
          else if ev_kind (rr_event r) = KIND_AUTH \<or> ev_kind (rr_event r) = KIND_HTTP_AUTH
          then (relay, Inr (rejected_receipt r ''authentication events are never journaled''))
          else (case submit L env relay (rr_event r) of
              (relay, Inl err) \<Rightarrow> (relay, Inl (SinkStore err))
            | (relay, Inr result) \<Rightarrow>
                if \<not> wr_accepted result then (relay, Inr (rejected_receipt r (wr_message result)))
                else (case accepted_outcome (wr_message result) of
                    None \<Rightarrow> (relay, Inl (UnexpectedAcceptedOutcome (wr_message result)))
                  | Some outcome \<Rightarrow>
                      (relay, Inr \<lparr>rc_source = rr_source r, rc_cursor = rr_cursor r,
                         rc_event_id = ev_id (rr_event r), rc_outcome = outcome\<rparr>))))"

definition ingest_replication_from_peer ::
  "nostr_lib \<Rightarrow> relay_env \<Rightarrow> io_outcome \<Rightarrow> local_relay \<Rightarrow> local_peer_evidence \<Rightarrow> string \<Rightarrow> replication_record
     \<Rightarrow> local_relay \<times> (replication_sink_error + replication_receipt)" where
  "ingest_replication_from_peer L env io relay evidence audience r =
     (case lr_identity relay of
        None \<Rightarrow> (relay, Inl (SinkIdentity (Denied AuthenticationRequired)))
      | Some identity \<Rightarrow>
     (case authenticate_peer_at L io identity evidence audience (rr_source r) (re_now env) of
        (identity, Inl err) \<Rightarrow> (relay\<lparr>lr_identity := Some identity\<rparr>, Inl (SinkIdentity err))
      | (identity, Inr binding) \<Rightarrow>
          (let relay = relay\<lparr>lr_identity := Some identity\<rparr> in
           if pb_source binding \<noteq> rr_source r
           then (relay, Inl (SinkIdentity (Denied SourceMismatch)))
           else ingest_replication L env relay r)))"

section \<open>What the operations keep\<close>

definition relay_ok :: "nostr_lib \<Rightarrow> local_relay \<Rightarrow> bool" where
  "relay_ok L relay \<longleftrightarrow> store_reachable L (lr_store relay) \<and> rounds_reachable L (lr_rounds relay)
     \<and> sessions_ok (lr_sessions relay)"

text \<open>The configuration of a relay never changes while it runs.\<close>

definition same_config :: "local_relay \<Rightarrow> local_relay \<Rightarrow> bool" where
  "same_config a b \<longleftrightarrow> lr_policy a = lr_policy b \<and> lr_artifacts a = lr_artifacts b
     \<and> lr_governance a = lr_governance b \<and> lr_relay_keys a = lr_relay_keys b
     \<and> lr_identity a = lr_identity b \<and> lr_sessions a = lr_sessions b"

lemma same_config_refl [simp]: "same_config a a"
  by (simp add: same_config_def)

lemma same_config_trans: "same_config a b \<Longrightarrow> same_config b c \<Longrightarrow> same_config a c"
  by (simp add: same_config_def)

lemma relay_ok_accept:
  "relay_ok L relay \<Longrightarrow> accept L env (lr_store relay) e = (st, r) \<Longrightarrow> relay_ok L (relay\<lparr>lr_store := st\<rparr>)"
  using store_reachable.accepted [of L "lr_store relay" env e] by (simp add: relay_ok_def)

lemma relay_ok_send [simp]: "relay_ok L (send_live relay e) = relay_ok L relay"
  by (simp add: relay_ok_def send_live_def)

lemma send_live_simps [simp]:
  "lr_store (send_live relay e) = lr_store relay" "lr_rounds (send_live relay e) = lr_rounds relay"
  "lr_live (send_live relay e) = lr_live relay @ [e]" "same_config relay (send_live relay e)"
  "lr_relay_keys (send_live relay e) = lr_relay_keys relay"
  by (simp_all add: send_live_def same_config_def)

lemma publish_projected_ok:
  "relay_ok L relay \<Longrightarrow> relay_ok L (fst (publish_projected_events L env n relay es))"
proof (induction es arbitrary: n relay)
  case (Cons e es)
  obtain st r where a: "accept L (re_accept env n) (lr_store relay) e = (st, r)" by fastforce
  have "relay_ok L (relay\<lparr>lr_store := st\<rparr>)" using Cons.prems a by (rule relay_ok_accept)
  with Cons.IH a show ?case by (cases r) (simp_all add: Let_def)
qed simp

lemma publish_projected_config:
  "same_config relay (fst (publish_projected_events L env n relay es))
   \<and> lr_rounds (fst (publish_projected_events L env n relay es)) = lr_rounds relay"
proof (induction es arbitrary: n relay)
  case (Cons e es)
  obtain st r where a: "accept L (re_accept env n) (lr_store relay) e = (st, r)" by fastforce
  show ?case
  proof (cases r)
    case (Inr result)
    let ?r = "if wr_publish_live result then send_live (relay\<lparr>lr_store := st\<rparr>) e else relay\<lparr>lr_store := st\<rparr>"
    have "same_config relay ?r" "lr_rounds ?r = lr_rounds relay"
      by (simp_all add: same_config_def send_live_def)
    with Cons.IH [of ?r "Suc n"] a Inr show ?thesis
      using same_config_trans [of relay ?r] by (simp add: Let_def)
  qed (simp add: a same_config_def)
qed simp

lemma publish_accepted_ok:
  assumes "relay_ok L relay"
  shows "relay_ok L (fst (publish_accepted L env relay e projected result))"
    and "same_config relay (fst (publish_accepted L env relay e projected result))"
proof -
  obtain relay' r where p: "publish_projected_events L env 1 (send_live relay e) projected = (relay', r)"
    by fastforce
  have ok: "relay_ok L relay'"
    using publish_projected_ok [of L "send_live relay e" env 1 projected] assms p by simp
  have c: "same_config relay relay'"
    using publish_projected_config [of "send_live relay e" L env 1 projected] p
      same_config_trans [OF send_live_simps(4)] by auto
  have ok': "relay_ok L (relay'\<lparr>lr_rounds := register_pulse (lr_rounds relay') pulse\<rparr>)" for pulse
    using ok by (simp add: relay_ok_def rounds_reachable.pulse)
  show "relay_ok L (fst (publish_accepted L env relay e projected result))"
    using ok ok' p by (auto simp: publish_accepted_def split: sum.splits option.splits)
  show "same_config relay (fst (publish_accepted L env relay e projected result))"
    using c p by (auto simp: publish_accepted_def same_config_def send_live_def
        split: sum.splits option.splits)
qed

text \<open>The ways a submission ends.\<close>

lemma submit_from_cases:
  obtains (untouched) r where "submit_from L env relay e caller = (relay, r)"
      "\<And>w. r = Inr w \<Longrightarrow> \<not> wr_accepted w"
  | (failed) st err where "submit_from L env relay e caller = (relay\<lparr>lr_store := st\<rparr>, Inl err)"
      "accept L (re_accept env 0) (lr_store relay) e = (st, Inl err)"
  | (unrecorded) st result where "submit_from L env relay e caller = (relay\<lparr>lr_store := st\<rparr>,
        Inr (write_rejected e ''invalid: response does not answer the active Beacon pulse''))"
      "accept L (re_accept env 0) (lr_store relay) e = (st, Inr result)"
      "event_kind_u32 e = KIND_BEACON_RESPONSE" "wr_accepted result" "wr_message result = ''ephemeral''"
      "snd (record_beacon_response L (re_now env) (lr_relay_keys relay) (lr_rounds relay) e) = False"
  | (finished) st result projected rounds where
      "submit_from L env relay e caller = (let relay = relay\<lparr>lr_store := st, lr_rounds := rounds\<rparr> in
         if wr_publish_live result then publish_accepted L env relay e projected result
         else (relay, Inr result))"
      "accept L (re_accept env 0) (lr_store relay) e = (st, Inr result)"
      "rounds = lr_rounds relay \<or>
         (event_kind_u32 e = KIND_BEACON_RESPONSE
          \<and> rounds = fst (record_beacon_response L (re_now env) (lr_relay_keys relay) (lr_rounds relay) e))"
      "(event_kind_u32 e \<noteq> KIND_NIP29_CREATE_GROUP \<and> projected = [])
        \<or> (event_kind_u32 e = KIND_NIP29_CREATE_GROUP \<and> project_group_create L relay e = Inr projected)"
proof -
  let ?b = "event_kind_u32 e = KIND_BEACON_RESPONSE"
  let ?p = "if event_kind_u32 e = KIND_NIP29_CREATE_GROUP then project_group_create L relay e else Inr []"
  show thesis
  proof (cases "?b \<and> lr_identity relay \<noteq> None \<and> \<not> pulse_visible_to relay caller")
    case True
    then have "submit_from L env relay e caller
      = (relay, Inr (write_rejected e ''invalid: responder lacks Beacon standing''))"
      by (simp add: submit_from_def)
    then show thesis by (rule untouched) (simp add: write_rejected_def)
  next
    case vis: False
    show thesis
    proof (cases ?p)
      case (Inl err)
      show thesis
      proof (cases err)
        case (InvalidCommand reason)
        then have "submit_from L env relay e caller = (relay, Inr (write_rejected e reason))"
          using vis Inl by (auto simp: submit_from_def split: if_splits)
        then show thesis by (rule untouched) (simp add: write_rejected_def)
      next
        case (Signing reason)
        then have "submit_from L env relay e caller = (relay, Inl (Materialization reason))"
          using vis Inl by (auto simp: submit_from_def split: if_splits)
        then show thesis by (rule untouched) simp
      qed
    next
      case (Inr projected)
      have pr: "(event_kind_u32 e \<noteq> KIND_NIP29_CREATE_GROUP \<and> projected = [])
        \<or> (event_kind_u32 e = KIND_NIP29_CREATE_GROUP \<and> project_group_create L relay e = Inr projected)"
        using Inr by (auto split: if_splits)
      obtain st r where a: "accept L (re_accept env 0) (lr_store relay) e = (st, r)" by fastforce
      show thesis
      proof (cases r)
        case (Inl err)
        with vis Inr a failed show thesis by (auto simp: submit_from_def Let_def)
      next
        case r: (Inr result)
        let ?need = "?b \<and> wr_accepted result \<and> wr_message result = ''ephemeral''"
        let ?rec = "record_beacon_response L (re_now env) (lr_relay_keys relay) (lr_rounds relay) e"
        have s: "submit_from L env relay e caller = (let (rounds, recorded) =
            (if ?need then ?rec else (lr_rounds relay, True)) in
            if \<not> recorded then (relay\<lparr>lr_store := st, lr_rounds := rounds\<rparr>,
               Inr (write_rejected e ''invalid: response does not answer the active Beacon pulse''))
            else if wr_publish_live result
              then publish_accepted L env (relay\<lparr>lr_store := st, lr_rounds := rounds\<rparr>) e projected result
              else (relay\<lparr>lr_store := st, lr_rounds := rounds\<rparr>, Inr result))"
          unfolding submit_from_def Let_def if_not_P [OF vis] Inr a r by (simp add: case_prod_unfold)
        show thesis
        proof (cases ?need)
          case False
          then have "submit_from L env relay e caller
            = (let relay = relay\<lparr>lr_store := st, lr_rounds := lr_rounds relay\<rparr> in
               if wr_publish_live result then publish_accepted L env relay e projected result
               else (relay, Inr result))"
            using s unfolding if_not_P [OF False] by simp
          then show thesis by (rule finished [OF _ a [unfolded r] disjI1 [OF refl] pr])
        next
          case need: True
          obtain rounds b where rec: "?rec = (rounds, b)" by fastforce
          show thesis
          proof (cases b)
            case True
            have "submit_from L env relay e caller
              = (let relay = relay\<lparr>lr_store := st, lr_rounds := rounds\<rparr> in
                 if wr_publish_live result then publish_accepted L env relay e projected result
                 else (relay, Inr result))"
              using s unfolding if_P [OF need] rec by (simp add: True)
            then show thesis
              by (rule finished [OF _ a [unfolded r] _ pr]) (use need rec in simp)
          next
            case False
            then have "rounds = lr_rounds relay" using rec by (simp add: record_beacon_response_False)
            then have "submit_from L env relay e caller = (relay\<lparr>lr_store := st\<rparr>,
              Inr (write_rejected e ''invalid: response does not answer the active Beacon pulse''))"
              using s unfolding if_P [OF need] rec by (simp add: False)
            then show thesis by (rule unrecorded [OF _ a [unfolded r]]) (use need rec False in simp_all)
          qed
        qed
      qed
    qed
  qed
qed

lemma submit_from_keeps:
  assumes "relay_ok L relay"
  shows "relay_ok L (fst (submit_from L env relay e caller))
    \<and> same_config relay (fst (submit_from L env relay e caller))"
proof (cases rule: submit_from_cases [of L env relay e caller])
  case (finished st result projected rounds)
  let ?r = "relay\<lparr>lr_store := st, lr_rounds := rounds\<rparr>"
  have "rounds_reachable L rounds"
    using finished(3) assms rounds_reachable.response by (auto simp: relay_ok_def)
  then have ok: "relay_ok L ?r"
    using relay_ok_accept [OF assms finished(2)] by (simp add: relay_ok_def)
  have c: "same_config relay ?r" by (simp add: same_config_def)
  show ?thesis
    using finished(1) ok c publish_accepted_ok(1) [OF ok]
      same_config_trans [OF c publish_accepted_ok(2) [OF ok]] by (simp add: Let_def)
qed (use assms relay_ok_accept [OF assms] in \<open>auto simp: same_config_def\<close>)

lemmas submit_from_ok = submit_from_keeps [THEN conjunct1]

lemma materialize_loop_keeps:
  "relay_ok L relay \<Longrightarrow> relay_ok L (fst (materialize_loop L env n relay creates))
    \<and> same_config relay (fst (materialize_loop L env n relay creates))"
proof (induction creates arbitrary: n relay)
  case (Cons create creates)
  show ?case
  proof (cases "project_group_create L relay create")
    case (Inl err)
    with Cons show ?thesis by (cases err) simp_all
  next
    case (Inr projected)
    obtain relay' r where p: "publish_projected_events L env n relay projected = (relay', r)"
      by fastforce
    have ok: "relay_ok L relay'" using publish_projected_ok [OF Cons.prems, of env n projected] p by simp
    have c: "same_config relay relay'" using publish_projected_config [of relay L env n projected] p by simp
    show ?thesis
      using Inr p ok c Cons.IH [OF ok] same_config_trans [OF c] by (cases r) auto
  qed
qed simp

lemma materialize_keeps:
  "relay_ok L relay \<Longrightarrow> relay_ok L (fst (materialize_existing_nip29_state L env relay))
    \<and> same_config relay (fst (materialize_existing_nip29_state L env relay))"
  using materialize_loop_keeps
  by (auto simp: materialize_existing_nip29_state_def split: sum.splits)

lemma query_for_cursors_keeps:
  "relay_ok L relay \<Longrightarrow> relay_ok L (fst (query_for_cursors L' now relay caller operation cfs))
    \<and> same_config relay (fst (query_for_cursors L' now relay caller operation cfs))
    \<and> lr_store (fst (query_for_cursors L' now relay caller operation cfs)) = lr_store relay"
  by (auto simp: query_for_cursors_def relay_ok_def same_config_def Let_def rounds_reachable.pulse
      split: sum.splits option.splits)

lemma ingest_replication_keeps:
  "relay_ok L relay \<Longrightarrow> relay_ok L (fst (ingest_replication L env relay r))
    \<and> same_config relay (fst (ingest_replication L env relay r))"
  using submit_from_keeps [of L relay env "rr_event r" None]
  by (auto simp: ingest_replication_def submit_def split: sum.splits prod.splits option.splits)

text \<open>
  The states of a running relay: opened around a reachable store, then any submissions, reads,
  replicated records, backfills, authentications, uploads, connects and disconnects.
\<close>

inductive relay_reachable :: "nostr_lib \<Rightarrow> local_relay \<Rightarrow> bool" for L where
  opened: "store_reachable L st \<Longrightarrow>
    relay_reachable L (open_governed_with_keys st policy identity artifacts governance keys)"
| submitted: "relay_reachable L relay \<Longrightarrow> relay_reachable L (fst (submit_from L env relay e caller))"
| queried: "relay_reachable L relay \<Longrightarrow>
    relay_reachable L (fst (query_for_cursors L now relay caller operation cfs))"
| replicated: "relay_reachable L relay \<Longrightarrow> relay_reachable L (fst (ingest_replication L env relay r))"
| backfilled: "relay_reachable L relay \<Longrightarrow>
    relay_reachable L (fst (materialize_existing_nip29_state L env relay))"
| authenticated: "relay_reachable L relay \<Longrightarrow> relay_reachable L (relay\<lparr>lr_identity := Some identity\<rparr>)"
| uploaded: "relay_reachable L relay \<Longrightarrow> relay_reachable L (relay\<lparr>lr_artifacts := artifacts\<rparr>)"
| connected: "relay_reachable L relay \<Longrightarrow>
    relay_reachable L (relay\<lparr>lr_sessions := session_enter (lr_sessions relay) p\<rparr>)"
| disconnected: "relay_reachable L relay \<Longrightarrow>
    relay_reachable L (relay\<lparr>lr_sessions := session_drop (lr_sessions relay) p\<rparr>)"

lemma relay_reachable_ok: "relay_reachable L relay \<Longrightarrow> relay_ok L relay"
proof (induction rule: relay_reachable.induct)
  case (opened st policy identity artifacts governance keys)
  then show ?case
    by (simp add: relay_ok_def open_governed_with_keys_def rounds_reachable.none sessions_ok_def)
next
  case (submitted relay env e caller)
  then show ?case by (simp add: submit_from_ok)
next
  case (queried relay now caller operation cfs)
  then show ?case using query_for_cursors_keeps by blast
next
  case (replicated relay env r)
  then show ?case using ingest_replication_keeps by blast
next
  case (backfilled relay env)
  then show ?case using materialize_keeps by blast
qed (simp_all add: relay_ok_def session_enter_ok session_drop_ok)

section \<open>Live publication and growth\<close>

definition store_grows :: "store_inner \<Rightarrow> store_inner \<Rightarrow> bool" where
  "store_grows st st' \<longleftrightarrow> prefix (st_journal st) (st_journal st') \<and> st_seen_ids st \<subseteq> st_seen_ids st'"

lemma store_grows_refl [simp]: "store_grows st st"
  by (simp add: store_grows_def)

lemma store_grows_trans: "store_grows a b \<Longrightarrow> store_grows b c \<Longrightarrow> store_grows a c"
  unfolding store_grows_def by (meson prefix_order.trans subset_trans)

lemma accept_grows: "accept L env st e = (st', r) \<Longrightarrow> store_grows st st'"
  by (cases rule: accept_cases [of L env st e]) (auto simp: store_grows_def)

lemma accept_publishes:
  assumes "accept L env st e = (st', Inr w)" "wr_publish_live w"
  shows "ev_id e \<notin> st_seen_ids st" "ev_id e \<in> st_seen_ids st'" "verify_event L e = Inr ()"
proof -
  have d: "decide_event ss True e = Duplicate" for ss by (simp add: decide_event_def)
  have "ev_id e \<notin> st_seen_ids st \<and> ev_id e \<in> st_seen_ids st' \<and> verify_event L e = Inr ()"
    using assms by (cases "ev_id e \<in> st_seen_ids st")
      (auto simp: accept_def d write_rejected_def write_accepted_def
        split: option.splits sum.splits event_decision.splits prod.splits)
  then show "ev_id e \<notin> st_seen_ids st" "ev_id e \<in> st_seen_ids st'" "verify_event L e = Inr ()"
    by simp_all
qed

text \<open>What subscribers are sent, leaving out the relay's own pulses.\<close>

definition published :: "local_relay \<Rightarrow> event list" where
  "published relay = filter (\<lambda>e. ev_kind e \<noteq> KIND_BEACON_PULSE) (lr_live relay)"

definition live_ok :: "nostr_lib \<Rightarrow> local_relay \<Rightarrow> bool" where
  "live_ok L relay \<longleftrightarrow> distinct (map ev_id (published relay))
     \<and> ev_id ` set (published relay) \<subseteq> st_seen_ids (lr_store relay)
     \<and> (\<forall>e \<in> set (published relay). verify_event L e = Inr ())"

text \<open>Signing keeps the fields it is given, as \<open>EventBuilder::sign_with_keys\<close> documents.\<close>

definition sign_faithful :: "nostr_lib \<Rightarrow> bool" where
  "sign_faithful L \<longleftrightarrow> (\<forall>keys b e. l_sign L keys b = Inr e \<longrightarrow>
     ev_kind e = eb_kind b \<and> ev_tags e = eb_tags b \<and> ev_content e = eb_content b
     \<and> ev_created_at e = eb_created_at b \<and> ev_pubkey e = l_public_key L keys)"

lemma live_ok_grow:
  assumes "live_ok L relay" "store_grows (lr_store relay) st"
  shows "live_ok L (relay\<lparr>lr_store := st\<rparr>)"
  using assms by (auto simp: live_ok_def published_def store_grows_def)

lemma live_ok_rounds [simp]: "live_ok L (relay\<lparr>lr_rounds := rounds\<rparr>) = live_ok L relay"
  by (simp add: live_ok_def published_def)

lemma live_ok_publish:
  assumes "live_ok L relay" "accept L env (lr_store relay) e = (st, Inr w)" "wr_publish_live w"
  shows "live_ok L (send_live (relay\<lparr>lr_store := st\<rparr>) e)"
proof -
  note p = accept_publishes [OF assms(2,3)]
  have sub: "st_seen_ids (lr_store relay) \<subseteq> st_seen_ids st"
    using accept_grows [OF assms(2)] by (simp add: store_grows_def)
  have pub: "published (send_live (relay\<lparr>lr_store := st\<rparr>) e)
    = published relay @ (if ev_kind e \<noteq> KIND_BEACON_PULSE then [e] else [])"
    by (simp add: published_def send_live_def)
  have "ev_id e \<notin> ev_id ` set (published relay)"
    using assms(1) p(1) by (auto simp: live_ok_def)
  with assms(1) p sub show ?thesis by (auto simp: live_ok_def pub)
qed

lemma current_pulse_signed:
  assumes "current_pulse L now relay = Some pulse"
  obtains keys b where "lr_relay_keys relay = Some keys" "l_sign L keys b = Inr (cp_event pulse)"
    "eb_kind b = KIND_BEACON_PULSE" "eb_created_at b = now"
    "cp_head pulse = map_option ev_id (last_of (st_journal (lr_store relay)))"
proof -
  have ok_Some: "ok m = Some a \<Longrightarrow> m = Inr a" for m :: "string + event" and a
    by (cases m) (simp_all add: ok_def)
  obtain keys where k: "lr_relay_keys relay = Some keys"
    using assms by (auto simp: current_pulse_def bind_eq_Some_conv)
  obtain agreements claimed where a: "pulse_agreements relay = (agreements, claimed)" by fastforce
  show thesis
    using assms that [OF k] unfolding current_pulse_def k a
    by (auto simp: Let_def dest!: ok_Some)
qed

lemma live_ok_pulse:
  assumes "sign_faithful L" "current_pulse L now relay' = Some pulse"
  shows "live_ok L (send_live relay (cp_event pulse)) = live_ok L relay"
proof -
  have "ev_kind (cp_event pulse) = KIND_BEACON_PULSE"
    by (rule current_pulse_signed [OF assms(2)]) (use assms(1) in \<open>auto simp: sign_faithful_def\<close>)
  then show ?thesis by (simp add: live_ok_def published_def)
qed

lemma publish_projected_live:
  "live_ok L relay \<Longrightarrow> live_ok L (fst (publish_projected_events L env n relay es))
    \<and> store_grows (lr_store relay) (lr_store (fst (publish_projected_events L env n relay es)))"
proof (induction es arbitrary: n relay)
  case (Cons e es)
  obtain st r where a: "accept L (re_accept env n) (lr_store relay) e = (st, r)" by fastforce
  note g = accept_grows [OF a]
  show ?case
  proof (cases r)
    case (Inl err)
    with a g live_ok_grow [OF Cons.prems g] show ?thesis by simp
  next
    case (Inr w)
    let ?r = "if wr_publish_live w then send_live (relay\<lparr>lr_store := st\<rparr>) e else relay\<lparr>lr_store := st\<rparr>"
    have "live_ok L ?r"
      using live_ok_publish [OF Cons.prems a [unfolded Inr]] live_ok_grow [OF Cons.prems g] by simp
    moreover have "lr_store ?r = st" by simp
    ultimately show ?thesis
      using Cons.IH [of ?r "Suc n"] a Inr store_grows_trans [OF g]
      by (cases "wr_publish_live w") (simp_all add: Let_def)
  qed
qed simp

lemma publish_accepted_live:
  assumes "live_ok L (send_live relay e)" "sign_faithful L"
  shows "live_ok L (fst (publish_accepted L env relay e projected w))
    \<and> store_grows (lr_store relay) (lr_store (fst (publish_accepted L env relay e projected w)))"
proof -
  obtain relay' r where p: "publish_projected_events L env 1 (send_live relay e) projected = (relay', r)"
    by fastforce
  have l: "live_ok L relay'" "store_grows (lr_store relay) (lr_store relay')"
    using publish_projected_live [OF assms(1), of env 1 projected] p by simp_all
  show ?thesis
  proof (cases r)
    case (Inl err)
    with p l show ?thesis by (simp add: publish_accepted_def)
  next
    case (Inr n)
    have l': "live_ok L (send_live (relay'\<lparr>lr_rounds := rounds\<rparr>) (cp_event pulse))"
      if "current_pulse L (re_now env) relay' = Some pulse" for rounds pulse
      using live_ok_pulse [OF assms(2) that, of "relay'\<lparr>lr_rounds := rounds\<rparr>"] l(1) by simp
    show ?thesis
      using p Inr l l' by (auto simp: publish_accepted_def split: option.splits)
  qed
qed

lemma submit_from_live:
  assumes "live_ok L relay" "sign_faithful L"
  shows "live_ok L (fst (submit_from L env relay e caller))
    \<and> store_grows (lr_store relay) (lr_store (fst (submit_from L env relay e caller)))"
proof (cases rule: submit_from_cases [of L env relay e caller])
  case (finished st result projected rounds)
  let ?r = "relay\<lparr>lr_store := st, lr_rounds := rounds\<rparr>"
  note g = accept_grows [OF finished(2)]
  show ?thesis
  proof (cases "wr_publish_live result")
    case True
    have "live_ok L (send_live ?r e)"
      using live_ok_publish [OF assms(1) finished(2) True]
      by (simp add: live_ok_def published_def send_live_def)
    from publish_accepted_live [OF this assms(2), of env projected result] True finished(1)
    show ?thesis using store_grows_trans [OF g] by (simp add: Let_def)
  next
    case False
    with finished(1) g live_ok_grow [OF assms(1) g] live_ok_rounds [of L rounds "relay\<lparr>lr_store := st\<rparr>"]
    show ?thesis by (simp add: Let_def)
  qed
qed (use assms accept_grows live_ok_grow in auto)

lemma materialize_loop_live:
  "live_ok L relay \<Longrightarrow> live_ok L (fst (materialize_loop L env n relay creates))"
proof (induction creates arbitrary: n relay)
  case (Cons create creates)
  show ?case
  proof (cases "project_group_create L relay create")
    case (Inl err)
    with Cons show ?thesis by (cases err) simp_all
  next
    case (Inr projected)
    obtain relay' r where p: "publish_projected_events L env n relay projected = (relay', r)"
      by fastforce
    have ok: "live_ok L relay'" using publish_projected_live [OF Cons.prems, of env n projected] p by simp
    show ?thesis using Inr p ok Cons.IH [OF ok] by (cases r) auto
  qed
qed simp

lemma ingest_replication_relay:
  "fst (ingest_replication L env relay r) = relay
   \<or> fst (ingest_replication L env relay r) = fst (submit_from L env relay (rr_event r) None)"
  by (auto simp: ingest_replication_def submit_def split: sum.splits prod.splits option.splits)

lemma query_for_cursors_relay:
  "(fst (query_for_cursors L now relay caller operation cfs))\<lparr>lr_rounds := rounds\<rparr>
    = relay\<lparr>lr_rounds := rounds\<rparr>"
  by (simp add: query_for_cursors_def Let_def split: sum.split option.split)

lemma relay_reachable_live:
  "relay_reachable L relay \<Longrightarrow> sign_faithful L \<Longrightarrow> live_ok L relay"
proof (induction rule: relay_reachable.induct)
  case (opened st policy identity artifacts governance keys)
  then show ?case by (simp add: live_ok_def published_def open_governed_with_keys_def)
next
  case (submitted relay env e caller)
  then show ?case using submit_from_live by blast
next
  case (queried relay now caller operation cfs)
  then show ?case
    using query_for_cursors_relay [where L = L and now = now and relay = relay and rounds = "[]"
        and caller = caller and operation = operation and cfs = cfs] live_ok_rounds by metis
next
  case (replicated relay env r)
  then show ?case using ingest_replication_relay [of L env relay r] submit_from_live by metis
next
  case (backfilled relay env)
  then show ?case using materialize_loop_live
    by (auto simp: materialize_existing_nip29_state_def split: sum.splits)
qed (simp_all add: live_ok_def published_def)

section \<open>Properties\<close>


definition calm_env :: relay_env where
  "calm_env = \<lparr>re_now = 1020, re_accept = (\<lambda>_. sample_env)\<rparr>"

definition sample_relay :: local_relay where
  "sample_relay = open_governed_with_keys (empty_store (Some '''')) (allowlist_admit {''node-a''}) None None
     None (Some ''relay-key'')"

lemma empty_store_reachable: "store_reachable L (empty_store (Some ''''))"
  by (rule store_reachable.opened [of L "\<lambda>n. n" OpenOk "Durable NotFound"])
    (simp add: open_store_def replay_log_def empty_store_def replayed_log_default_def lines_def)

lemma sample_relay_reachable: "relay_reachable L sample_relay"
  unfolding sample_relay_def by (rule relay_reachable.opened [OF empty_store_reachable])

lemma sample_sign_faithful: "sign_faithful sample_lib"
  by (simp add: sign_faithful_def sample_lib_def sample_event_def)

definition resubmitted_relay :: local_relay where
  "resubmitted_relay = fst (submit_from sample_lib calm_env
     (fst (submit_from sample_lib calm_env sample_relay note_a None)) note_a None)"

lemma resubmitted_relay_reachable: "relay_reachable sample_lib resubmitted_relay"
  unfolding resubmitted_relay_def by (intro relay_reachable.submitted sample_relay_reachable)


lemma publish_projected_grows:
  "store_grows (lr_store relay) (lr_store (fst (publish_projected_events L env n relay es)))"
proof (induction es arbitrary: n relay)
  case (Cons e es)
  obtain st r where a: "accept L (re_accept env n) (lr_store relay) e = (st, r)" by fastforce
  show ?case
  proof (cases r)
    case (Inr w)
    let ?r = "if wr_publish_live w then send_live (relay\<lparr>lr_store := st\<rparr>) e else relay\<lparr>lr_store := st\<rparr>"
    show ?thesis
      using Cons.IH [where relay = ?r and n = "Suc n"] a Inr store_grows_trans [OF accept_grows [OF a]]
      by (cases "wr_publish_live w") (simp_all add: Let_def)
  qed (simp add: a accept_grows [OF a])
qed simp

lemma publish_projected_live_prefix:
  "prefix (lr_live relay) (lr_live (fst (publish_projected_events L env n relay es)))"
proof (induction es arbitrary: n relay)
  case (Cons e es)
  obtain st r where a: "accept L (re_accept env n) (lr_store relay) e = (st, r)" by fastforce
  show ?case
  proof (cases r)
    case (Inr w)
    let ?r = "if wr_publish_live w then send_live (relay\<lparr>lr_store := st\<rparr>) e else relay\<lparr>lr_store := st\<rparr>"
    show ?thesis
      using Cons.IH [where relay = ?r and n = "Suc n"] a Inr
      by (cases "wr_publish_live w") (auto simp: Let_def dest: append_prefixD)
  qed (simp add: a)
qed simp

lemma publish_accepted_result:
  assumes "publish_accepted L env relay e projected w = (relay', r)"
  shows "store_grows (lr_store relay) (lr_store relay')" "r = Inr w' \<Longrightarrow> w' = w"
  using assms publish_projected_grows [where relay = "send_live relay e" and n = 1 and es = projected
      and L = L and env = env]
  by (auto simp: publish_accepted_def split: sum.splits prod.splits option.splits if_splits)

text \<open>A submission that is no Beacon response: rejected untouched, or the store's answer.\<close>

lemma submit_accept_step:
  assumes "event_kind_u32 e \<noteq> KIND_BEACON_RESPONSE"
    and "submit_from L env relay e caller = (relay', Inr w)"
  obtains (rejected) "relay' = relay" "\<not> wr_accepted w"
  | (answered) st where "accept L (re_accept env 0) (lr_store relay) e = (st, Inr w)"
      "store_grows st (lr_store relay')" "\<not> wr_publish_live w \<Longrightarrow> relay' = relay\<lparr>lr_store := st\<rparr>"
proof (cases rule: submit_from_cases [of L env relay e caller])
  case (untouched r)
  with rejected assms(2) show thesis by simp
next
  case (failed st err)
  with assms(2) show thesis by simp
next
  case (unrecorded st result)
  with assms(1) show thesis by simp
next
  case (finished st result projected rounds)
  have r: "relay\<lparr>lr_store := st, lr_rounds := rounds\<rparr> = relay\<lparr>lr_store := st\<rparr>"
    using finished(3) assms(1) by auto
  show thesis
  proof (cases "wr_publish_live result")
    case True
    have p: "publish_accepted L env (relay\<lparr>lr_store := st\<rparr>) e projected result = (relay', Inr w)"
      using finished(1) assms(2) True unfolding Let_def r by simp
    have "w = result" using publish_accepted_result(2) [OF p refl] .
    with answered [OF finished(2)[folded this]] publish_accepted_result(1) [OF p] True
    show thesis by simp
  next
    case False
    have "relay' = relay\<lparr>lr_store := st\<rparr>" "w = result"
      using finished(1) assms(2) False unfolding Let_def r by simp_all
    with answered finished(2) show thesis by simp
  qed
qed

lemma submit_from_config: "same_config relay (fst (submit_from L env relay e caller))"
proof (cases rule: submit_from_cases [of L env relay e caller])
  case (finished st result projected rounds)
  let ?r = "relay\<lparr>lr_store := st, lr_rounds := rounds\<rparr>"
  have "same_config relay (fst (publish_accepted L env ?r e projected result))"
    using publish_projected_config [of "send_live ?r e" L env 1 projected]
    by (auto simp: publish_accepted_def same_config_def send_live_def split: prod.splits sum.splits option.splits)
  with finished(1) show ?thesis by (simp add: Let_def same_config_def)
qed (auto simp: same_config_def)

lemma query_for_cursors_config:
  "same_config relay (fst (query_for_cursors L now relay caller operation cfs))"
  by (simp add: query_for_cursors_def Let_def same_config_def split: sum.split option.split)

lemma ingest_replication_config: "same_config relay (fst (ingest_replication L env relay r))"
  using ingest_replication_relay [of L env relay r] submit_from_config [of relay L env "rr_event r" None]
  by auto

lemma submit_from_grows: "store_grows (lr_store relay) (lr_store (fst (submit_from L env relay e caller)))"
proof (cases rule: submit_from_cases [of L env relay e caller])
  case (finished st result projected rounds)
  let ?r = "relay\<lparr>lr_store := st, lr_rounds := rounds\<rparr>"
  note g = accept_grows [OF finished(2)]
  have "store_grows st (lr_store (fst (publish_accepted L env ?r e projected result)))"
    using publish_accepted_result(1) [of L env ?r e projected result]
    by (cases "publish_accepted L env ?r e projected result") simp
  with finished(1) g store_grows_trans [OF g] show ?thesis by (simp add: Let_def)
qed (use accept_grows in auto)

lemma ingest_replication_grows:
  "store_grows (lr_store relay) (lr_store (fst (ingest_replication L env relay r)))"
  using ingest_replication_relay [of L env relay r] submit_from_grows [of relay L env "rr_event r" None]
  by auto

lemma accept_rejected:
  assumes "accept L env st e = (st', Inr w)" "\<not> wr_accepted w"
  shows "st' = st" "\<not> wr_publish_live w"
  using assms by (auto simp: accept_def write_rejected_def write_accepted_def
      split: option.splits sum.splits event_decision.splits prod.splits)

lemma accept_known:
  assumes "store_ok L st" "accept L env st e = (st', Inr w)" "wr_accepted w"
  shows "ev_id e \<in> st_seen_ids st'" "wr_message w = ''stored'' \<Longrightarrow> e \<in> set (st_journal st')"
proof -
  have ok: "store_ok L st'" using accept_ok [OF assms(1), of env e] assms(2) by simp
  note v = accepted_verified [of L env st e w]
  have seen: "ev_id ` se_event ` set (st_events st') \<subseteq> st_seen_ids st'"
    using store_okD [OF ok] store_ok_effective [OF ok] by blast
  show "ev_id e \<in> st_seen_ids st'"
  proof (cases rule: accept_cases [of L env st e])
    case (unchanged r)
    with v assms(2,3) seen show ?thesis by auto
  qed (use assms(2) in auto)
  show "e \<in> set (st_journal st')" if "wr_message w = ''stored''"
    using that assms(2,3) by (auto simp: accept_def write_rejected_def write_accepted_def
      split: option.splits sum.splits event_decision.splits prod.splits)
qed

lemma ingest_replication_receipt:
  assumes "relay_reachable L relay" "ingest_replication L env relay r = (relay', Inr receipt)"
  shows "rc_source receipt = rr_source r \<and> rc_cursor receipt = rr_cursor r
    \<and> rc_event_id receipt = ev_id (rr_event r)
    \<and> (checkpoint_safe receipt \<longrightarrow> lr_policy relay (rr_source r) (rr_event r) = Inr ()
         \<and> \<not> is_ephemeral_kind (ev_kind (rr_event r)) \<and> ev_kind (rr_event r) \<notin> {22242, 27235}
         \<and> verify_event L (rr_event r) = Inr () \<and> ev_id (rr_event r) \<in> st_seen_ids (lr_store relay'))
    \<and> (rc_outcome receipt = OutcomeStored \<longrightarrow> rr_event r \<in> set (st_journal (lr_store relay')))
    \<and> (\<not> checkpoint_safe receipt \<longrightarrow> relay' = relay)"
proof (cases "\<exists>reason. relay' = relay \<and> receipt = rejected_receipt r reason")
  case True
  then show ?thesis by (auto simp: rejected_receipt_def checkpoint_safe_def)
next
  case False
  let ?e = "rr_event r"
  have ok: "lr_policy relay (rr_source r) ?e = Inr ()" "\<not> is_ephemeral_kind (ev_kind ?e)"
    "ev_kind ?e \<notin> {22242, 27235}"
    using assms(2) False by (auto simp: ingest_replication_def kind_defs split: sum.splits if_splits)
  have kind: "event_kind_u32 ?e \<noteq> KIND_BEACON_RESPONSE"
    using ok(2) by (auto simp: event_kind_u32_def kind_defs is_ephemeral_kind_def)
  obtain w where w: "submit_from L env relay ?e None = (relay', Inr w)"
    and rc: "if wr_accepted w then (\<exists>out. accepted_outcome (wr_message w) = Some out
        \<and> receipt = \<lparr>rc_source = rr_source r, rc_cursor = rr_cursor r,
                       rc_event_id = ev_id ?e, rc_outcome = out\<rparr>)
      else receipt = rejected_receipt r (wr_message w)"
    using assms(2) ok by (auto simp: ingest_replication_def submit_def kind_defs
        split: prod.splits sum.splits if_splits option.splits)
  have st: "store_ok L (lr_store relay)"
    using relay_reachable_ok [OF assms(1)] by (simp add: relay_ok_def store_reachable_ok)
  show ?thesis
  proof (cases "wr_accepted w")
    case True
    from w obtain st' where a: "accept L (re_accept env 0) (lr_store relay) ?e = (st', Inr w)"
      and g: "store_grows st' (lr_store relay')"
      by (rule submit_accept_step [OF kind]) (use True in auto)
    have k: "ev_id ?e \<in> st_seen_ids (lr_store relay')" "verify_event L ?e = Inr ()"
      "wr_message w = ''stored'' \<Longrightarrow> ?e \<in> set (st_journal (lr_store relay'))"
      using accept_known [OF st a True] g accepted_verified(2) [of L "re_accept env 0" "lr_store relay" ?e w] a True
      by (auto simp: store_grows_def dest: set_mono_prefix)
    from rc True obtain out where out: "accepted_outcome (wr_message w) = Some out"
      "receipt = \<lparr>rc_source = rr_source r, rc_cursor = rr_cursor r,
         rc_event_id = ev_id ?e, rc_outcome = out\<rparr>" by auto
    have "out = OutcomeStored \<longleftrightarrow> wr_message w = ''stored''" "checkpoint_safe receipt"
      using out by (auto simp: accepted_outcome_def checkpoint_safe_def split: if_splits)
    with k ok out(2) show ?thesis by simp
  next
    case rej: False
    from w have "relay' = relay"
      by (rule submit_accept_step [OF kind]) (use accept_rejected rej in auto)
    with rc rej False show ?thesis by auto
  qed
qed

text \<open>
  C7: The receipts of the replication sink are sound. A receipt names the record it answers.
  If it is checkpoint-safe, the policy admitted the source, the event is durable, verified and
  no authentication event, and its id is recorded as seen; if it says stored, the event is in
  the journal. If the receipt is a rejection, the relay is unchanged.
\<close>

theorem replication_receipt_sound:
  assumes "relay_reachable L relay" "ingest_replication L env relay r = (relay', Inr receipt)"
  shows "rc_source receipt = rr_source r \<and> rc_cursor receipt = rr_cursor r
    \<and> rc_event_id receipt = ev_id (rr_event r)
    \<and> (checkpoint_safe receipt \<longrightarrow> lr_policy relay (rr_source r) (rr_event r) = Inr ()
         \<and> \<not> is_ephemeral_kind (ev_kind (rr_event r)) \<and> ev_kind (rr_event r) \<notin> {22242, 27235}
         \<and> verify_event L (rr_event r) = Inr () \<and> ev_id (rr_event r) \<in> st_seen_ids (lr_store relay'))
    \<and> (rc_outcome receipt = OutcomeStored \<longrightarrow> rr_event r \<in> set (st_journal (lr_store relay')))
    \<and> (\<not> checkpoint_safe receipt \<longrightarrow> relay' = relay)"
  by (rule ingest_replication_receipt [OF assms])

definition incoming :: "event \<Rightarrow> replication_record" where
  "incoming e = \<lparr>rr_source = ''node-a'', rr_cursor = ''local-v1:1'', rr_event = e\<rparr>"

theorem replication_receipt_sound_witness:
  "\<exists>relay' receipt. ingest_replication sample_lib calm_env sample_relay (incoming note_a) = (relay', Inr receipt)
     \<and> rc_outcome receipt = OutcomeStored \<and> note_a \<in> set (st_journal (lr_store relay'))"
proof -
  obtain relay' res where i:
    "ingest_replication sample_lib calm_env sample_relay (incoming note_a) = (relay', res)" by fastforce
  have "snd (ingest_replication sample_lib calm_env sample_relay (incoming note_a))
    = Inr \<lparr>rc_source = ''node-a'', rc_cursor = ''local-v1:1'', rc_event_id = ''a1'', rc_outcome = OutcomeStored\<rparr>"
    by code_simp
  with i have res: "res = Inr \<lparr>rc_source = ''node-a'', rc_cursor = ''local-v1:1'', rc_event_id = ''a1'',
    rc_outcome = OutcomeStored\<rparr>" by simp
  note r = replication_receipt_sound [OF sample_relay_reachable i [unfolded res]]
  have "rr_event (incoming note_a) \<in> set (st_journal (lr_store relay'))" using r by simp
  then have "note_a \<in> set (st_journal (lr_store relay'))" by (simp add: incoming_def)
  with i res show ?thesis by simp
qed

lemma pulse_visible_config:
  assumes "same_config a b"
  shows "pulse_visible_to a caller = pulse_visible_to b caller"
proof -
  have "lr_identity a = lr_identity b" "lr_governance a = lr_governance b"
    using assms by (simp_all add: same_config_def)
  then show ?thesis unfolding pulse_visible_to_def by (simp only:)
qed

lemma submit_response:
  assumes "event_kind_u32 e = KIND_BEACON_RESPONSE"
    and "lr_identity relay = None \<or> pulse_visible_to relay caller"
  shows "submit_from L env relay e caller =
    (case accept L (re_accept env 0) (lr_store relay) e of
       (st, Inl err) \<Rightarrow> (relay\<lparr>lr_store := st\<rparr>, Inl err)
     | (st, Inr w) \<Rightarrow>
         (let (rounds, recorded) = (if wr_accepted w \<and> wr_message w = ''ephemeral''
             then record_beacon_response L (re_now env) (lr_relay_keys relay) (lr_rounds relay) e
             else (lr_rounds relay, True));
           relay = relay\<lparr>lr_store := st, lr_rounds := rounds\<rparr>
          in if \<not> recorded then (relay, Inr (write_rejected e
                ''invalid: response does not answer the active Beacon pulse''))
             else if wr_publish_live w then publish_accepted L env relay e [] w
             else (relay, Inr w)))"
proof -
  have vis: "\<not> (event_kind_u32 e = KIND_BEACON_RESPONSE \<and> lr_identity relay \<noteq> None
      \<and> \<not> pulse_visible_to relay caller)" using assms(2) by auto
  have kind: "event_kind_u32 e \<noteq> KIND_NIP29_CREATE_GROUP" using assms(1) by (simp add: kind_defs)
  obtain st res where a: "accept L (re_accept env 0) (lr_store relay) e = (st, res)" by fastforce
  show ?thesis
  proof (cases res)
    case (Inl err)
    show ?thesis
      unfolding submit_from_def Let_def if_not_P [OF vis] if_not_P [OF kind] sum.case a Inl by simp
  next
    case (Inr w)
    show ?thesis
      unfolding submit_from_def Let_def if_not_P [OF vis] if_not_P [OF kind] sum.case a Inr
      by (simp add: assms(1) case_prod_unfold)
  qed
qed

lemma accept_ephemeral:
  assumes "accept L env st e = (st', Inr w)" "wr_accepted w" "wr_message w = ''ephemeral''"
  shows "ev_id e \<in> st_seen_ids st'" "wr_publish_live w"
  using assms by (auto simp: accept_def write_rejected_def write_accepted_def
      split: option.splits sum.splits event_decision.splits prod.splits)

lemma accept_message:
  assumes "accept L env st e = (st', Inr w)"
  shows "w \<noteq> write_rejected e ''invalid: response does not answer the active Beacon pulse''"
proof
  assume "w = write_rejected e ''invalid: response does not answer the active Beacon pulse''"
  with assms obtain reason where
    "verification_error_text reason = ''response does not answer the active Beacon pulse''"
    by (auto simp: accept_def write_rejected_def write_accepted_def
        split: option.splits sum.splits event_decision.splits prod.splits)
  then show False by (cases reason) simp_all
qed

text \<open>
  C29: A Beacon response rejected because it answers no active pulse leaves its id recorded as
  seen: submitting the same response again is answered as accepted, although it was neither
  recorded in a round nor published.
\<close>

theorem rejected_response_resubmitted_as_accepted:
  assumes "event_kind_u32 e = KIND_BEACON_RESPONSE" "ae_task (re_accept env' 0) = None"
    and "submit_from L env relay e caller = (relay',
      Inr (write_rejected e ''invalid: response does not answer the active Beacon pulse''))"
  shows "lr_rounds relay' = lr_rounds relay \<and> lr_live relay' = lr_live relay
    \<and> submit_from L env' relay' e caller = (relay', Inr (write_accepted e ''duplicate'' False))"
proof -
  have vis: "lr_identity relay = None \<or> pulse_visible_to relay caller"
  proof (rule ccontr)
    assume "\<not> ?thesis"
    then have "event_kind_u32 e = KIND_BEACON_RESPONSE \<and> lr_identity relay \<noteq> None
      \<and> \<not> pulse_visible_to relay caller" using assms(1) by auto
    from assms(3) [unfolded submit_from_def Let_def if_P [OF this]] show False
      by (simp add: write_rejected_def)
  qed
  obtain st res where acc: "accept L (re_accept env 0) (lr_store relay) e = (st, res)" by fastforce
  obtain w where w: "res = Inr w" using assms(3) acc unfolding submit_response [OF assms(1) vis]
    by (cases res) auto
  have nw: "w \<noteq> write_rejected e ''invalid: response does not answer the active Beacon pulse''"
    using accept_message [OF acc [unfolded w]] .
  have np: "publish_accepted L env r e [] w \<noteq> (relay', Inr (write_rejected e
      ''invalid: response does not answer the active Beacon pulse''))" for r
    using nw publish_accepted_result(2) [of L env r e "[]" w] by blast
  have "relay' = relay\<lparr>lr_store := st\<rparr> \<and> wr_accepted w \<and> wr_message w = ''ephemeral''"
    using assms(3) nw np record_beacon_response_False [of L "re_now env" "lr_relay_keys relay" "lr_rounds relay" e]
    unfolding submit_response [OF assms(1) vis] acc w
    by (auto simp: Let_def split: prod.splits if_splits)
  then have r: "relay' = relay\<lparr>lr_store := st\<rparr>" and e: "wr_accepted w" "wr_message w = ''ephemeral''"
    by simp_all
  have vis': "lr_identity relay' = None \<or> pulse_visible_to relay' caller"
    using vis pulse_visible_config [of relay relay' caller] by (simp add: r same_config_def)
  have "snd (accept L (re_accept env 0) (lr_store relay) e) = Inr w" using acc w by simp
  from accepted_verified(2) [OF this e(1)] accept_ephemeral(1) [OF acc [unfolded w] e]
  have "accept L (re_accept env' 0) st e = (st, Inr (write_accepted e ''duplicate'' False))"
    by (intro accept_duplicate [OF assms(2)]) simp_all
  then show ?thesis
    unfolding submit_response [OF assms(1) vis'] by (simp add: r write_accepted_def)
qed

theorem rejected_response_resubmitted_as_accepted_witness:
  "\<exists>relay'. submit_from beacon_lib calm_env sample_relay beacon_reply None = (relay',
      Inr (write_rejected beacon_reply ''invalid: response does not answer the active Beacon pulse''))
    \<and> snd (submit_from beacon_lib calm_env relay' beacon_reply None)
      = Inr (write_accepted beacon_reply ''duplicate'' False)"
proof -
  obtain relay' res where s: "submit_from beacon_lib calm_env sample_relay beacon_reply None = (relay', res)"
    by fastforce
  have "snd (submit_from beacon_lib calm_env sample_relay beacon_reply None) = Inr (write_rejected beacon_reply
    ''invalid: response does not answer the active Beacon pulse'')" by code_simp
  then have s': "submit_from beacon_lib calm_env sample_relay beacon_reply None = (relay', Inr
    (write_rejected beacon_reply ''invalid: response does not answer the active Beacon pulse''))"
    unfolding s snd_conv by (simp only:)
  have k: "event_kind_u32 beacon_reply = KIND_BEACON_RESPONSE" "ae_task (re_accept calm_env 0) = None"
    by code_simp+
  have "snd (submit_from beacon_lib calm_env relay' beacon_reply None)
      = Inr (write_accepted beacon_reply ''duplicate'' False)"
    using rejected_response_resubmitted_as_accepted [OF k s'] by (simp only: snd_conv)
  with s' show ?thesis by (intro exI conjI)
qed

lemma query_for_cursors_disclosed:
  assumes "relay_reachable L relay" "lr_identity relay = Some identity"
    and "query_for_cursors L now relay caller operation cfs = (relay', Inr es)" "e \<in> set es"
  shows "\<exists>reader. caller = Some reader \<and>
     ((\<exists>s \<in> set (st_events (lr_store relay)). e = se_event s
         \<and> authorize_event_delivery reader operation e = Allowed
         \<and> (\<exists>cf \<in> set cfs. cursor_filter_matches cf s))
      \<or> (pulse_visible_to relay caller \<and> map_option cp_event (current_pulse L now relay) = Some e
         \<and> (\<exists>cf \<in> set cfs. \<exists>kinds. f_kinds (cf_filter cf) = Some kinds \<and> KIND_BEACON_PULSE \<in> set kinds)))"
proof -
  have st: "store_ok L (lr_store relay)"
    using relay_reachable_ok [OF assms(1)] by (simp add: relay_ok_def store_reachable_ok)
  obtain reader where c: "caller = Some reader"
    using assms(2,3) by (cases caller)
      (auto simp: query_for_cursors_def relay_authorize_query_def result_simps)
  obtain found where found: "query_with_cursors (lr_store relay) cfs = Inr found"
    using assms(3) by (auto simp: query_for_cursors_def split: sum.splits)
  have cases: "e \<in> set (filter (event_is_visible relay caller operation) found)
    \<or> (pulse_visible_to relay caller \<and> map_option cp_event (current_pulse L now relay) = Some e
       \<and> filter (\<lambda>f. case f_kinds f of None \<Rightarrow> False
                 | Some kinds \<Rightarrow> KIND_BEACON_PULSE \<in> set kinds) (map cf_filter cfs) \<noteq> [])"
    using assms(3,4) found by (auto simp: query_for_cursors_def Let_def
        split: sum.splits option.splits if_splits)
  then show ?thesis
  proof
    assume v: "e \<in> set (filter (event_is_visible relay caller operation) found)"
    then obtain cf s where "cf \<in> set cfs" "s \<in> set (st_events (lr_store relay))" "e = se_event s"
      "cursor_filter_matches cf s"
      using query_found [OF st found, of e] by auto
    moreover have "authorize_event_delivery reader operation e = Allowed"
      using v assms(2) c by (cases "authorize_event_delivery reader operation e")
        (auto simp: event_is_visible_def authorize_local_event_def)
    ultimately show ?thesis using c by blast
  next
    assume p: "pulse_visible_to relay caller \<and> map_option cp_event (current_pulse L now relay) = Some e
       \<and> filter (\<lambda>f. case f_kinds f of None \<Rightarrow> False
                 | Some kinds \<Rightarrow> KIND_BEACON_PULSE \<in> set kinds) (map cf_filter cfs) \<noteq> []"
    then obtain cf kinds where "cf \<in> set cfs" "f_kinds (cf_filter cf) = Some kinds"
      "KIND_BEACON_PULSE \<in> set kinds"
      by (auto simp: filter_empty_conv split: option.splits)
    with p c show ?thesis by blast
  qed
qed


definition guarded_relay :: local_relay where
  "guarded_relay = fst (submit_from sample_lib calm_env
     (open_governed_with_keys (empty_store (Some '''')) disabled_admit (Some adapter_new) None None None)
     note_a None)"

lemma guarded_relay_reachable: "relay_reachable sample_lib guarded_relay"
  unfolding guarded_relay_def
  by (rule relay_reachable.submitted [OF relay_reachable.opened [OF empty_store_reachable]])

lemma guarded_relay_identity: "lr_identity guarded_relay = Some adapter_new"
proof -
  let ?relay = "open_governed_with_keys (empty_store (Some '''')) disabled_admit (Some adapter_new)
    None None None"
  have "relay_ok sample_lib ?relay"
    by (rule relay_reachable_ok [OF relay_reachable.opened [OF empty_store_reachable]])
  from submit_from_keeps [OF this, of calm_env note_a None] show ?thesis
    by (simp add: guarded_relay_def same_config_def open_governed_with_keys_def)
qed


lemma accept_stored:
  assumes "accept L env st e = (st', Inr w)" "wr_accepted w" "wr_message w = ''stored''"
  shows "st_journal st' = st_journal st @ [e]" "wr_publish_live w"
  using assms by (auto simp: accept_def write_rejected_def write_accepted_def
      split: option.splits sum.splits event_decision.splits prod.splits)

lemma current_pulse_some:
  assumes "lr_relay_keys relay = Some keys" "\<And>b. is_ok (l_sign L keys b)"
  obtains pulse where "current_pulse L now relay = Some pulse"
proof -
  obtain agreements claimed where a: "pulse_agreements relay = (agreements, claimed)" by fastforce
  have "ok (l_sign L keys b) \<noteq> None" for b
    using assms(2) [of b] by (cases "l_sign L keys b") (simp_all add: ok_def)
  then show thesis
    using that unfolding current_pulse_def assms(1) a by (simp add: Let_def) blast
qed



lemma tag_lookup_Cons:
  "tag_lookup (Tag n (v # vs) # ts) k = (if n = k then Some v else tag_lookup ts k)"
  by (simp add: tag_lookup_def tag_content_def)

text \<open>
  What a group creation is projected to. On a relay with a key a creation that is projected
  carries a UUID in its h tag and a name that is not blank, and its projection is three events
  by the relay at the creation's own time, all keyed by the group: metadata that names the
  group, and the two lists in which the creator is the owner.
\<close>

theorem group_projection_names_creator_owner:
  assumes "lr_relay_keys relay = Some keys" "sign_faithful L" "project_group_create L relay e = Inr es"
  shows "\<exists>g name. event_tag_value e ''h'' = Some g \<and> is_ok (l_uuid_parse L g)
    \<and> event_tag_value e ''name'' = Some name \<and> \<not> is_blank name
    \<and> map ev_kind es = [39000, 39001, 39002]
    \<and> (\<forall>x \<in> set es. ev_pubkey x = l_public_key L keys \<and> ev_created_at x = ev_created_at e
         \<and> event_tag_value x ''d'' = Some g)
    \<and> event_tag_value (es ! 0) ''name'' = Some name
    \<and> Tag ''p'' [ev_pubkey e, ''owner''] \<in> set (ev_tags (es ! 1))
    \<and> Tag ''p'' [ev_pubkey e, '''', ''owner''] \<in> set (ev_tags (es ! 2))"
proof -
  have sign: "l_sign L keys b = Inr x \<Longrightarrow> ev_kind x = eb_kind b \<and> ev_tags x = eb_tags b
     \<and> ev_created_at x = eb_created_at b \<and> ev_pubkey x = l_public_key L keys" for b x
    using assms(2) by (simp add: sign_faithful_def)
  show ?thesis
    using assms(3)
    by (auto simp: project_group_create_def assms(1) required_tag_def require_def Let_def result_simps
        and_then_eq_Inr collect_results_eq_Inr event_tag_value_def kind_defs tag_lookup_Cons dest!: sign
        split: if_splits option.splits)
qed

definition group_create :: event where
  "group_create = sample_event ''9a'' ''alice'' 60 9007
     [Tag ''h'' [''0b''], Tag ''name'' [''den''], Tag ''visibility'' [''private'']] ''''"

end
