(* ===== verification/Relay_Http.thy ===== *)
theory Relay_Http
  imports Local_Relay
begin

text \<open>
  The HTTP surface of the relay (the handlers of \<open>router\<close> in
  \<open>buzz-local-relay/src/lib.rs\<close>): authentication of a request, events, queries and
  counts, the replication sink and the artifact store.

  A request is its textual headers, its path and its body; \<open>headers name\<close> is what
  \<open>headers.get(name).and_then(|v| v.to_str().ok())\<close> returns. The environment of a request
  gives the time, what the write to the proof store meets, for each inner relay operation what
  it meets, and what the file system does to an artifact. Parsing of request bodies is \<open>serde_json\<close>'s and is a parameter, as are
  the functions of \<open>nostr_lib\<close>. The replies are the values the handlers serialise.
\<close>

section \<open>Errors as responses\<close>

fun identity_error_text :: "local_identity_error \<Rightarrow> string" where
  "identity_error_text (Denied code) = denial_code_str code @ '': identity operation denied''"
| "identity_error_text (Internal e) = ''identity adapter failed: '' @ e"

fun sink_error_text :: "replication_sink_error \<Rightarrow> string" where
  "sink_error_text (SinkIdentity e) = identity_error_text e"
| "sink_error_text (SinkStore e) = store_error_text e"
| "sink_error_text (UnexpectedAcceptedOutcome m) = ''unexpected accepted relay outcome: '' @ m"

fun declaration_error_text :: "nostr_lib \<Rightarrow> declaration_error \<Rightarrow> string" where
  "declaration_error_text L (DeclarationQuery e) = ''declaration query failed: '' @ query_error_text e"
| "declaration_error_text L (MalformedDeclaration d i reason) =
     ''malformed declaration '' @ l_debug_str L d @ '' (event '' @ i @ ''): '' @ reason"

fun api_error_text :: "api_error \<Rightarrow> string" where
  "api_error_text (ApiIdentity e) = identity_error_text e"
| "api_error_text (BadRequest m) = m"
| "api_error_text (ApiNotFound m) = m"
| "api_error_text (ApiStore e) = store_error_text e"
| "api_error_text (ApiQuery e) = query_error_text e"

fun denial_status :: "identity_denial_code \<Rightarrow> nat" where
  "denial_status AuthenticationRequired = 401"
| "denial_status InvalidEvidence = 401"
| "denial_status EvidenceExpired = 401"
| "denial_status AudienceMismatch = 401"
| "denial_status ReplayDetected = 401"
| "denial_status AuthorMismatch = 403"
| "denial_status DelegationInvalid = 403"
| "denial_status PeerUnbound = 403"
| "denial_status SourceMismatch = 403"
| "denial_status ScopeDenied = 403"
| "denial_status EventDisclosureDenied = 403"

fun error_status :: "api_error \<Rightarrow> nat" where
  "error_status (ApiIdentity (Denied code)) = denial_status code"
| "error_status (ApiIdentity (Internal _)) = 500"
| "error_status (BadRequest _) = 400"
| "error_status (ApiNotFound _) = 404"
| "error_status (ApiStore _) = 500"
| "error_status (ApiQuery _) = 400"

fun error_code :: "api_error \<Rightarrow> string option" where
  "error_code (ApiIdentity e) = map_option denial_code_str (denial_code e)"
| "error_code _ = None"

definition into_response :: "api_error \<Rightarrow> nat \<times> json" where
  "into_response e =
     (error_status e, JObject [(''error'', JString (api_error_text e)), (''code'', opt_json (error_code e))])"

definition identity_error_token :: "local_identity_error \<Rightarrow> string" where
  "identity_error_token e =
     (case denial_code e of None \<Rightarrow> ''identity_internal_error'' | Some code \<Rightarrow> denial_code_str code)"

section \<open>Requests\<close>

type_synonym headers = "string \<Rightarrow> string option"

record wire_lib =
  w_values :: "string \<Rightarrow> string + json list"
  w_records :: "string \<Rightarrow> string + replication_record list"

text \<open>
  What the file system does to an upload: nothing, or a failure at one of its calls, after
  \<open>n\<close> bytes for the write.
\<close>

datatype upload_fault =
    NoFault
  | DirFault string
  | ExistsFault string
  | CreateFault string
  | WriteFault nat string
  | SyncFault string
  | RenameFault string

record http_env =
  he_now :: nat
  he_io :: io_outcome
  he_call :: "nat \<Rightarrow> relay_env"
  he_fault :: upload_fault
  he_uuid :: uuid
  he_read :: "string option"

definition host_header :: "headers \<Rightarrow> string option" where
  "host_header headers =
     (case headers ''host'' of None \<Rightarrow> None | Some host \<Rightarrow> if host \<noteq> [] then Some host else None)"

text \<open>The evidence and the audience a request presents.\<close>

definition http_evidence ::
  "nostr_lib \<Rightarrow> headers \<Rightarrow> string \<Rightarrow> string \<Rightarrow> string \<Rightarrow> local_identity_error + (string \<times> local_evidence)" where
  "http_evidence L headers verb path payload =
     and_then (ok_or (Denied AudienceMismatch) (host_header headers)) (\<lambda>host.
     and_then (ok_or (Denied AuthenticationRequired)
       (Option.bind (headers ''authorization'') (\<lambda>v. strip_prefix v ''Nostr ''))) (\<lambda>encoded.
     and_then (ok_or (Denied InvalidEvidence) (l_base64_decode L encoded)) (\<lambda>decoded.
     and_then (require (is_utf8 decoded) (Denied InvalidEvidence)) (\<lambda>_.
     Inr (''http://'' @ host @ path, Nip98Evidence decoded verb payload)))))"

definition authenticate_http_method ::
  "nostr_lib \<Rightarrow> http_env \<Rightarrow> local_relay \<Rightarrow> headers \<Rightarrow> string \<Rightarrow> string \<Rightarrow> string
     \<Rightarrow> local_relay \<times> (api_error + authenticated_principal option)" where
  "authenticate_http_method L env relay headers verb path payload =
     (case lr_identity relay of
        None \<Rightarrow> (relay, Inr None)
      | Some adapter \<Rightarrow>
     (case http_evidence L headers verb path payload of
        Inl err \<Rightarrow> (relay, Inl (ApiIdentity err))
      | Inr (audience, evidence) \<Rightarrow>
          (case authenticate_at L (he_io env) adapter evidence audience (he_now env) of
              (adapter, Inl err) \<Rightarrow> (relay\<lparr>lr_identity := Some adapter\<rparr>, Inl (ApiIdentity err))
            | (adapter, Inr caller) \<Rightarrow> (relay\<lparr>lr_identity := Some adapter\<rparr>, Inr (Some caller)))))"

definition authenticate_http ::
  "nostr_lib \<Rightarrow> http_env \<Rightarrow> local_relay \<Rightarrow> headers \<Rightarrow> string \<Rightarrow> string
     \<Rightarrow> local_relay \<times> (api_error + authenticated_principal option)" where
  "authenticate_http L env relay headers path payload =
     authenticate_http_method L env relay headers ''POST'' path payload"

section \<open>Events, queries and counts\<close>

definition submit_event ::
  "nostr_lib \<Rightarrow> http_env \<Rightarrow> local_relay \<Rightarrow> headers \<Rightarrow> string \<Rightarrow> local_relay \<times> (api_error + write_result)" where
  "submit_event L env relay headers payload =
     try_step (authenticate_http L env relay headers ''/events'' payload) (\<lambda>relay caller.
     try_step (relay, map_err (\<lambda>e. BadRequest (''invalid event JSON: '' @ e)) (l_event_from_str L payload)) (\<lambda>relay e.
     try_step (relay, map_err ApiIdentity (relay_authorize_direct L relay caller e)) (\<lambda>relay _.
     map_prod id (map_err ApiStore) (submit_from L (he_call env 0) relay e caller))))"

definition bad_filter_json :: "string \<Rightarrow> api_error" where
  "bad_filter_json e = BadRequest (''invalid filter JSON: '' @ e)"

definition parse_filter_body :: "nostr_lib \<Rightarrow> wire_lib \<Rightarrow> string \<Rightarrow> api_error + nostr_filter list" where
  "parse_filter_body L W payload =
     and_then (map_err bad_filter_json (w_values W payload)) (\<lambda>values.
     and_then (map_err ApiQuery (validate_filter_fields values SUPPORTED_FILTER_FIELDS)) (\<lambda>_.
     map_err bad_filter_json (collect_results (map (l_filter_from_value L) values))))"

definition bad_before_id :: api_error where
  "bad_before_id = BadRequest ''before_id must be a 64-hex event id''"

definition parse_before_id :: "nostr_lib \<Rightarrow> json \<Rightarrow> api_error + event_id option" where
  "parse_before_id L v =
     (case json_get v ''before_id'' of
        None \<Rightarrow> Inr None
      | Some raw \<Rightarrow>
          and_then (ok_or bad_before_id (json_as_str raw)) (\<lambda>raw.
          and_then (ok_or bad_before_id (l_event_id_from_hex L raw)) (\<lambda>i. Inr (Some i))))"

definition parse_cursor_filter :: "nostr_lib \<Rightarrow> nostr_filter \<Rightarrow> json \<Rightarrow> api_error + cursor_filter" where
  "parse_cursor_filter L f v =
     and_then (parse_before_id L v) (\<lambda>before_id.
       if before_id \<noteq> None \<and> f_until f = None
       then Inl (BadRequest ''before_id requires until to be set'')
       else Inr \<lparr>cf_filter = f, cf_before_id = before_id\<rparr>)"

definition parse_query_filter_body :: "nostr_lib \<Rightarrow> wire_lib \<Rightarrow> string \<Rightarrow> api_error + cursor_filter list" where
  "parse_query_filter_body L W payload =
     and_then (map_err bad_filter_json (w_values W payload)) (\<lambda>values.
     and_then (map_err ApiQuery (validate_filter_fields values SUPPORTED_QUERY_FILTER_FIELDS)) (\<lambda>_.
     and_then (map_err bad_filter_json (collect_results (map (l_filter_from_value L) values))) (\<lambda>filters.
     collect_results (map (\<lambda>(f, v). parse_cursor_filter L f v) (zip filters values)))))"

definition query_events ::
  "nostr_lib \<Rightarrow> wire_lib \<Rightarrow> http_env \<Rightarrow> local_relay \<Rightarrow> headers \<Rightarrow> string \<Rightarrow> local_relay \<times> (api_error + event list)" where
  "query_events L W env relay headers payload =
     try_step (authenticate_http L env relay headers ''/query'' payload) (\<lambda>relay caller.
     try_step (relay, parse_query_filter_body L W payload) (\<lambda>relay filters.
     query_for_cursors L (he_now env) relay caller QueryOp filters))"

definition count_events_http ::
  "nostr_lib \<Rightarrow> wire_lib \<Rightarrow> http_env \<Rightarrow> local_relay \<Rightarrow> headers \<Rightarrow> string \<Rightarrow> local_relay \<times> (api_error + nat)" where
  "count_events_http L W env relay headers payload =
     try_step (authenticate_http L env relay headers ''/count'' payload) (\<lambda>relay caller.
     try_step (relay, parse_filter_body L W payload) (\<lambda>relay filters.
     (relay, count_for relay caller filters)))"

section \<open>The replication sink over HTTP\<close>

fun sink_api_error :: "replication_sink_error \<Rightarrow> api_error" where
  "sink_api_error (SinkIdentity e) = ApiIdentity e"
| "sink_api_error (SinkStore e) = ApiStore e"
| "sink_api_error (UnexpectedAcceptedOutcome m) = BadRequest (sink_error_text (UnexpectedAcceptedOutcome m))"

text \<open>\<open>n\<close> counts the records ingested so far.\<close>

fun replicate_records ::
  "nostr_lib \<Rightarrow> (nat \<Rightarrow> relay_env) \<Rightarrow> source_id \<Rightarrow> nat \<Rightarrow> local_relay \<Rightarrow> replication_receipt list
     \<Rightarrow> replication_record list \<Rightarrow> local_relay \<times> (api_error + replication_receipt list)" where
  "replicate_records L call source n relay receipts [] = (relay, Inr receipts)"
| "replicate_records L call source n relay receipts (r # rs) =
     (if rr_source r \<noteq> source
      then (relay, Inr (receipts @ [rejected_receipt r ''record source does not match the authenticated batch'']))
      else try_step (map_prod id (map_err sink_api_error) (ingest_replication L (call n) relay r))
        (\<lambda>relay receipt.
          if \<not> checkpoint_safe receipt then (relay, Inr (receipts @ [receipt]))
          else replicate_records L call source (Suc n) relay (receipts @ [receipt]) rs))"

definition replication_ingest ::
  "nostr_lib \<Rightarrow> wire_lib \<Rightarrow> http_env \<Rightarrow> local_relay \<Rightarrow> headers \<Rightarrow> string
     \<Rightarrow> local_relay \<times> (api_error + replication_receipt list)" where
  "replication_ingest L W env relay headers payload =
     (if lr_identity relay = None then (relay, Inl (ApiIdentity (Denied AuthenticationRequired)))
      else try_step (authenticate_http L env relay headers ''/replication'' payload) (\<lambda>relay caller.
     try_step (relay, ok_or (ApiIdentity (Denied AuthenticationRequired)) caller) (\<lambda>relay caller.
     try_step (relay, map_err (\<lambda>e. BadRequest (''invalid replication JSON: '' @ e)) (w_records W payload)) (\<lambda>relay records.
     (case records of
        [] \<Rightarrow> (relay, Inr [])
      | first # _ \<Rightarrow>
          try_step (relay, ok_or (ApiIdentity (Denied PeerUnbound)) (nostr_pubkey (ap_principal caller))) (\<lambda>relay pubkey.
          try_step (relay, map_err ApiIdentity (case lr_identity relay of
              None \<Rightarrow> Inl (Denied AuthenticationRequired)
            | Some identity \<Rightarrow> bind_peer_key identity (rr_source first) pubkey)) (\<lambda>relay _.
          replicate_records L (he_call env) (rr_source first) 0 relay [] records)))))))"

section \<open>Artifacts\<close>

definition authorize_artifact_upload ::
  "local_relay \<Rightarrow> authenticated_principal option \<Rightarrow> api_error + unit" where
  "authorize_artifact_upload relay caller =
     (case lr_governance relay of
        None \<Rightarrow> Inr ()
      | Some (owner, _) \<Rightarrow>
          require (case Option.bind caller principal_pubkey of
              None \<Rightarrow> False
            | Some pubkey \<Rightarrow> pubkey = owner
                \<or> (case lr_identity relay of
                     None \<Rightarrow> False
                   | Some identity \<Rightarrow> is_admitted_verification_key identity pubkey))
            (ApiIdentity (Denied ScopeDenied)))"

definition authorize_artifact_fetch ::
  "nostr_lib \<Rightarrow> nat \<Rightarrow> local_relay \<Rightarrow> authenticated_principal option \<Rightarrow> string \<Rightarrow> api_error + unit" where
  "authorize_artifact_fetch L now relay caller sha256 =
     (case lr_governance relay of
        None \<Rightarrow> Inr ()
      | Some (owner, node_label) \<Rightarrow>
          and_then (case Option.bind caller principal_pubkey of
              None \<Rightarrow> Inr False
            | Some pubkey \<Rightarrow>
                if pubkey = owner then Inr True
                else map_err (\<lambda>e. BadRequest (declaration_error_text L e))
                  (artifact_fetch_allowed L now (lr_store relay) owner node_label pubkey sha256))
            (\<lambda>allowed. require allowed (ApiIdentity (Denied ScopeDenied))))"

definition tmp_name :: "string \<Rightarrow> uuid \<Rightarrow> string" where
  "tmp_name hash uuid = ''.'' @ hash @ ''.'' @ uuid"

definition write_blob ::
  "upload_fault \<Rightarrow> uuid \<Rightarrow> (string \<Rightarrow> string option) \<Rightarrow> string \<Rightarrow> string
     \<Rightarrow> (string \<Rightarrow> string option) \<times> (store_error + unit)" where
  "write_blob fault uuid files hash payload =
     (let tmp = tmp_name hash uuid in
      case fault of
        CreateFault e \<Rightarrow> (files, Inl (Io e))
      | WriteFault n e \<Rightarrow> (files(tmp \<mapsto> take n payload), Inl (Io e))
      | SyncFault e \<Rightarrow> (files(tmp \<mapsto> payload), Inl (Io e))
      | RenameFault e \<Rightarrow> (files(tmp \<mapsto> payload), Inl (Io e))
      | _ \<Rightarrow> (files(tmp := None, hash \<mapsto> payload), Inr ()))"

definition store_blob ::
  "upload_fault \<Rightarrow> uuid \<Rightarrow> (string \<Rightarrow> string option) \<Rightarrow> string \<Rightarrow> string
     \<Rightarrow> (string \<Rightarrow> string option) \<times> (store_error + unit)" where
  "store_blob fault uuid files hash payload =
     (case fault of
        DirFault e \<Rightarrow> (files, Inl (Io e))
      | ExistsFault e \<Rightarrow> (files, Inl (Io e))
      | _ \<Rightarrow> if files hash \<noteq> None then (files, Inr ()) else write_blob fault uuid files hash payload)"

definition artifact_upload ::
  "nostr_lib \<Rightarrow> http_env \<Rightarrow> local_relay \<Rightarrow> headers \<Rightarrow> string \<Rightarrow> local_relay \<times> (api_error + json)" where
  "artifact_upload L env relay headers payload =
     (case lr_artifacts relay of
        None \<Rightarrow> (relay, Inl (ApiNotFound ''artifact store is not enabled''))
      | Some files \<Rightarrow>
     try_step (authenticate_http L env relay headers ''/artifacts'' payload) (\<lambda>relay caller.
     try_step (relay, authorize_artifact_upload relay caller) (\<lambda>relay _.
     if payload = [] then (relay, Inl (BadRequest ''artifact body is empty''))
     else (let hash = l_sha256_hex L payload;
               (files, r) = store_blob (he_fault env) (he_uuid env) files hash payload
           in (relay\<lparr>lr_artifacts := Some files\<rparr>,
               and_then (map_err ApiStore r) (\<lambda>_. Inr (JObject [(''sha256'', JString hash),
                 (''size'', JNumber (PosInt (length payload))), (''url'', JString (''/artifacts/'' @ hash))])))))))"

definition artifact_id :: "string \<Rightarrow> api_error + string" where
  "artifact_id sha256 =
     (if length sha256 \<noteq> 64 \<or> \<not> list_all is_ascii_hexdigit sha256
      then Inl (BadRequest ''artifact ID must be 64 hex characters'')
      else Inr (to_ascii_lowercase sha256))"

definition unknown_artifact :: "string \<Rightarrow> api_error" where
  "unknown_artifact sha256 = ApiNotFound (''unknown artifact '' @ sha256)"

definition artifact_head ::
  "nostr_lib \<Rightarrow> http_env \<Rightarrow> local_relay \<Rightarrow> headers \<Rightarrow> string \<Rightarrow> local_relay \<times> (api_error + unit)" where
  "artifact_head L env relay headers sha256 =
     (case lr_artifacts relay of
        None \<Rightarrow> (relay, Inl (ApiNotFound ''artifact store is not enabled''))
      | Some files \<Rightarrow>
     try_step (relay, artifact_id sha256) (\<lambda>relay sha256.
     try_step (authenticate_http_method L env relay headers ''GET'' (''/artifacts/'' @ sha256) '''') (\<lambda>relay caller.
     try_step (relay, authorize_artifact_fetch L (he_now env) relay caller sha256) (\<lambda>relay _.
     (relay, case he_read env of
        Some e \<Rightarrow> Inl (ApiStore (Io e))
      | None \<Rightarrow> require (files sha256 \<noteq> None) (unknown_artifact sha256))))))"

definition artifact_fetch ::
  "nostr_lib \<Rightarrow> http_env \<Rightarrow> local_relay \<Rightarrow> headers \<Rightarrow> string \<Rightarrow> local_relay \<times> (api_error + string)" where
  "artifact_fetch L env relay headers sha256 =
     (case lr_artifacts relay of
        None \<Rightarrow> (relay, Inl (ApiNotFound ''artifact store is not enabled''))
      | Some files \<Rightarrow>
     try_step (relay, artifact_id sha256) (\<lambda>relay sha256.
     try_step (authenticate_http_method L env relay headers ''GET'' (''/artifacts/'' @ sha256) '''') (\<lambda>relay caller.
     try_step (relay, authorize_artifact_fetch L (he_now env) relay caller sha256) (\<lambda>relay _.
     (relay, case he_read env of
        Some e \<Rightarrow> Inl (ApiStore (Io e))
      | None \<Rightarrow>
          and_then (ok_or (unknown_artifact sha256) (files sha256)) (\<lambda>bytes.
            if l_sha256_hex L bytes \<noteq> sha256
            then Inl (BadRequest (''artifact '' @ sha256 @ '' failed content verification''))
            else Inr bytes))))))"

section \<open>The relay document\<close>

definition witness_key :: "nostr_lib \<Rightarrow> local_relay \<Rightarrow> string option" where
  "witness_key L relay = map_option (l_public_key L) (lr_relay_keys relay)"

definition health :: "nostr_lib \<Rightarrow> local_relay \<Rightarrow> json" where
  "health L relay = JObject [(''status'', JString ''ok''), (''witness'', opt_json (witness_key L relay))]"

definition supported_nips :: "local_relay \<Rightarrow> nat list" where
  "supported_nips relay =
     (if lr_identity relay \<noteq> None
      then (if lr_relay_keys relay \<noteq> None then [1, 11, 29, 42, 98] else [1, 11, 42, 98])
      else if lr_relay_keys relay \<noteq> None then [1, 11, 29] else [1, 11])"

datatype root_reply =
    Upgraded "string option"
  | UpgradeRejected string
  | RootError api_error
  | InfoDocument json

text \<open>
  \<open>upgrade\<close> is what \<open>WebSocketUpgrade::from_request_parts\<close> answers to a request with
  an upgrade header; the audience of the session comes from the host.
\<close>

definition relay_root ::
  "nostr_lib \<Rightarrow> string \<Rightarrow> (string + unit) option \<Rightarrow> local_relay \<Rightarrow> headers \<Rightarrow> root_reply" where
  "relay_root L version upgrade relay headers =
     (case upgrade of
        Some (Inl rejection) \<Rightarrow> UpgradeRejected rejection
      | Some (Inr _) \<Rightarrow>
          (if lr_identity relay \<noteq> None \<and> host_header headers = None
           then RootError (ApiIdentity (Denied AudienceMismatch))
           else Upgraded (map_option (\<lambda>host. ''ws://'' @ host @ ''/'') (host_header headers)))
      | None \<Rightarrow>
          InfoDocument (JObject
            ([(''name'', JString ''Buzz local relay''),
              (''description'', JString ''Durable single-process Buzz relay''),
              (''software'', JString ''https://github.com/block/buzz''), (''version'', JString version),
              (''supported_nips'', JArray (map (\<lambda>n. JNumber (PosInt n)) (supported_nips relay)))]
             @ (case witness_key L relay of None \<Rightarrow> [] | Some pubkey \<Rightarrow> [(''pubkey'', JString pubkey)]))))"

section \<open>The router\<close>

datatype request =
    PostEvents string
  | PostQuery string
  | PostCount string
  | PostReplication string
  | PostArtifact string
  | GetArtifact string
  | HeadArtifact string

datatype reply =
    Written write_result
  | Found "event list"
  | Counted nat
  | Receipts "replication_receipt list"
  | Uploaded json
  | Blob string
  | Present

definition map_reply :: "('a \<Rightarrow> 'b) \<Rightarrow> 's \<times> ('e + 'a) \<Rightarrow> 's \<times> ('e + 'b)" where
  "map_reply f m = try_step m (\<lambda>s a. (s, Inr (f a)))"

fun router ::
  "nostr_lib \<Rightarrow> wire_lib \<Rightarrow> http_env \<Rightarrow> local_relay \<Rightarrow> headers \<Rightarrow> request \<Rightarrow> local_relay \<times> (api_error + reply)" where
  "router L W env relay headers (PostEvents b) = map_reply Written (submit_event L env relay headers b)"
| "router L W env relay headers (PostQuery b) = map_reply Found (query_events L W env relay headers b)"
| "router L W env relay headers (PostCount b) = map_reply Counted (count_events_http L W env relay headers b)"
| "router L W env relay headers (PostReplication b) = map_reply Receipts (replication_ingest L W env relay headers b)"
| "router L W env relay headers (PostArtifact b) = map_reply Uploaded (artifact_upload L env relay headers b)"
| "router L W env relay headers (GetArtifact s) = map_reply Blob (artifact_fetch L env relay headers s)"
| "router L W env relay headers (HeadArtifact s) = map_reply (\<lambda>_. Present) (artifact_head L env relay headers s)"

text \<open>What the proof of a request has to name: the method, the path and the payload.\<close>

fun request_verb :: "request \<Rightarrow> string" where
  "request_verb (GetArtifact s) = ''GET''"
| "request_verb (HeadArtifact s) = ''GET''"
| "request_verb _ = ''POST''"

fun request_path :: "request \<Rightarrow> string" where
  "request_path (PostEvents b) = ''/events''"
| "request_path (PostQuery b) = ''/query''"
| "request_path (PostCount b) = ''/count''"
| "request_path (PostReplication b) = ''/replication''"
| "request_path (PostArtifact b) = ''/artifacts''"
| "request_path (GetArtifact s) = ''/artifacts/'' @ to_ascii_lowercase s"
| "request_path (HeadArtifact s) = ''/artifacts/'' @ to_ascii_lowercase s"

fun request_payload :: "request \<Rightarrow> string" where
  "request_payload (PostEvents b) = b"
| "request_payload (PostQuery b) = b"
| "request_payload (PostCount b) = b"
| "request_payload (PostReplication b) = b"
| "request_payload (PostArtifact b) = b"
| "request_payload (GetArtifact s) = ''''"
| "request_payload (HeadArtifact s) = ''''"

section \<open>Authentication comes first\<close>

text \<open>The first thing a request that is served does is to authenticate.\<close>

definition request_auth ::
  "nostr_lib \<Rightarrow> http_env \<Rightarrow> local_relay \<Rightarrow> headers \<Rightarrow> request
     \<Rightarrow> local_relay \<times> (api_error + authenticated_principal option)" where
  "request_auth L env relay headers req =
     authenticate_http_method L env relay headers (request_verb req) (request_path req) (request_payload req)"

lemma authenticate_http_frame:
  "(fst (authenticate_http_method L env relay headers verb path payload))\<lparr>lr_identity := x\<rparr>
    = relay\<lparr>lr_identity := x\<rparr>"
  by (simp add: authenticate_http_method_def split: option.split sum.split prod.split)

lemma authenticate_http_relay:
  "fst (authenticate_http_method L env relay headers verb path payload)
    = relay\<lparr>lr_identity := lr_identity (fst (authenticate_http_method L env relay headers verb path payload))\<rparr>"
  (is "?r = _")
proof -
  have "?r = ?r\<lparr>lr_identity := lr_identity ?r\<rparr>" by simp
  then show ?thesis unfolding authenticate_http_frame .
qed

lemma authenticate_http_reachable:
  "relay_reachable L relay \<Longrightarrow>
    relay_reachable L (fst (authenticate_http_method L' env relay headers verb path payload))"
  by (auto simp: authenticate_http_method_def relay_reachable.authenticated
      split: option.split sum.split prod.split)

text \<open>An authentication that succeeds on a relay with an adapter has a caller and its proof.\<close>

lemma authenticate_http_success:
  assumes "authenticate_http_method L env relay headers verb path payload = (relay', Inr caller)"
    and "lr_identity relay = Some adapter"
  obtains host json adapter' p where "host_header headers = Some host" "caller = Some p"
    "authenticate_at L (he_io env) adapter (Nip98Evidence json verb payload)
       (''http://'' @ host @ path) (he_now env) = (adapter', Inr p)"
    "relay' = relay\<lparr>lr_identity := Some adapter'\<rparr>"
  using assms
  by (auto simp: authenticate_http_method_def http_evidence_def result_simps
      split: sum.splits prod.splits)

lemma map_reply_cases:
  assumes "map_reply f m = (s', r)"
  obtains (failed) e where "m = (s', Inl e)" "r = Inl e"
  | (passed) a where "m = (s', Inr a)" "r = Inr (f a)"
  using assms unfolding map_reply_def
  by (elim try_step_cases) auto

text \<open>
  Every request starts like this: it is refused without any effect, or it authenticates, and
  what follows acts only on the relay the authentication leaves.
\<close>

lemma router_authenticates:
  assumes "router L W env relay headers req = (relay', res)"
  shows "(\<exists>err. res = Inl err \<and> relay' = relay)
    \<or> (\<exists>err. res = Inl err \<and> relay' = fst (request_auth L env relay headers req))
    \<or> (\<exists>caller. snd (request_auth L env relay headers req) = Inr caller)"
proof (cases req)
  case (PostEvents b)
  with assms show ?thesis
    by (auto simp: submit_event_def authenticate_http_def request_auth_def
        elim!: map_reply_cases try_step_cases)
next
  case (PostQuery b)
  with assms show ?thesis
    by (auto simp: query_events_def authenticate_http_def request_auth_def
        elim!: map_reply_cases try_step_cases)
next
  case (PostCount b)
  with assms show ?thesis
    by (auto simp: count_events_http_def authenticate_http_def request_auth_def
        elim!: map_reply_cases try_step_cases)
next
  case (PostReplication b)
  with assms show ?thesis
    by (auto simp: replication_ingest_def authenticate_http_def request_auth_def
        elim!: map_reply_cases try_step_cases split: if_splits)
next
  case (PostArtifact b)
  with assms show ?thesis
    by (auto simp: artifact_upload_def authenticate_http_def request_auth_def
        elim!: map_reply_cases try_step_cases split: option.splits)
next
  case (GetArtifact s)
  with assms show ?thesis
    by (auto simp: artifact_fetch_def request_auth_def artifact_id_def
        elim!: map_reply_cases try_step_cases split: option.splits if_splits)
next
  case (HeadArtifact s)
  with assms show ?thesis
    by (auto simp: artifact_head_def request_auth_def artifact_id_def
        elim!: map_reply_cases try_step_cases split: option.splits if_splits)
qed


section \<open>Requests keep the relay's invariants\<close>

lemma reachable_try_step:
  assumes "relay_reachable L (fst m)" "\<And>s a. relay_reachable L s \<Longrightarrow> relay_reachable L (fst (f s a))"
  shows "relay_reachable L (fst (try_step m f))"
  using assms by (cases m; cases "snd m") (auto simp: try_step_def)

lemma fst_map_prod_id [simp]: "fst (map_prod id f m) = fst m"
  by (cases m) simp

lemma fst_map_reply [simp]: "fst (map_reply f m) = fst m"
  by (cases m; cases "snd m") (auto simp: map_reply_def)

lemma replicate_records_reachable:
  "relay_reachable L relay \<Longrightarrow> relay_reachable L (fst (replicate_records L call source n relay receipts rs))"
proof (induction rs arbitrary: n relay receipts)
  case (Cons r rs)
  then show ?case by (auto intro!: reachable_try_step relay_reachable.replicated)
qed simp

lemma artifact_upload_reachable:
  assumes "relay_reachable L relay"
  shows "relay_reachable L (fst (artifact_upload L env relay headers b))"
proof (cases "lr_artifacts relay")
  case (Some files)
  show ?thesis
    using assms unfolding artifact_upload_def Some option.case authenticate_http_def
    by (auto simp: Let_def case_prod_unfold
        intro!: reachable_try_step relay_reachable.uploaded authenticate_http_reachable)
qed (simp add: artifact_upload_def assms)

lemma replication_ingest_reachable:
  assumes "relay_reachable L relay"
  shows "relay_reachable L (fst (replication_ingest L W env relay headers b))"
  unfolding replication_ingest_def authenticate_http_def
  by (auto simp: assms intro!: reachable_try_step authenticate_http_reachable
      replicate_records_reachable relay_reachable.replicated split: list.split)

lemma router_reachable:
  assumes "relay_reachable L relay"
  shows "relay_reachable L (fst (router L W env relay headers req))"
proof (cases req)
  case (PostEvents b)
  with assms show ?thesis
    by (auto simp: submit_event_def authenticate_http_def
        intro!: reachable_try_step relay_reachable.submitted authenticate_http_reachable)
next
  case (PostQuery b)
  with assms show ?thesis
    by (auto simp: query_events_def authenticate_http_def
        intro!: reachable_try_step relay_reachable.queried authenticate_http_reachable)
next
  case (PostCount b)
  with assms show ?thesis
    by (auto simp: count_events_http_def authenticate_http_def
        intro!: reachable_try_step authenticate_http_reachable)
next
  case (GetArtifact s)
  with assms show ?thesis
    by (auto simp: artifact_fetch_def intro!: reachable_try_step authenticate_http_reachable
        split: option.split)
next
  case (HeadArtifact s)
  with assms show ?thesis
    by (auto simp: artifact_head_def intro!: reachable_try_step authenticate_http_reachable
        split: option.split)
qed (simp_all add: assms artifact_upload_reachable replication_ingest_reachable)

definition sample_wire :: wire_lib where
  "sample_wire = \<lparr>w_values = (\<lambda>_. Inr []), w_records = (\<lambda>_. Inr [incoming note_a])\<rparr>"

definition quiet_env :: http_env where
  "quiet_env = \<lparr>he_now = 130, he_io = IoOk, he_call = (\<lambda>_. calm_env), he_fault = NoFault,
     he_uuid = ''0b'', he_read = None\<rparr>"


section \<open>Replication batches\<close>

definition answers :: "replication_receipt \<Rightarrow> replication_record \<Rightarrow> bool" where
  "answers receipt r \<longleftrightarrow> rc_source receipt = rr_source r \<and> rc_cursor receipt = rr_cursor r
     \<and> rc_event_id receipt = ev_id (rr_event r)"

text \<open>A record taken: its receipt is checkpoint-safe and its event verified and recorded.\<close>

definition taken :: "nostr_lib \<Rightarrow> source_id \<Rightarrow> local_relay \<Rightarrow> replication_record \<Rightarrow> replication_receipt \<Rightarrow> bool" where
  "taken L source relay r receipt \<longleftrightarrow> answers receipt r \<and> checkpoint_safe receipt \<and> rr_source r = source
     \<and> verify_event L (rr_event r) = Inr () \<and> ev_id (rr_event r) \<in> st_seen_ids (lr_store relay)"

lemma taken_grows:
  "taken L source relay r receipt \<Longrightarrow> store_grows (lr_store relay) (lr_store relay') \<Longrightarrow>
    taken L source relay' r receipt"
  by (auto simp: taken_def store_grows_def)

lemma replicate_records_grows:
  "store_grows (lr_store relay) (lr_store (fst (replicate_records L call source n relay receipts rs)))"
proof (induction rs arbitrary: n relay receipts)
  case (Cons r rs)
  obtain relay1 res where i: "ingest_replication L (call n) relay r = (relay1, res)" by fastforce
  have g: "store_grows (lr_store relay) (lr_store relay1)"
    using ingest_replication_grows [of relay L "call n" r] i by simp
  show ?case using i g Cons.IH [of relay1] store_grows_trans [OF g]
    by (cases res) (auto simp: map_err_def)
qed simp

lemma replicate_records_receipts:
  assumes "relay_reachable L relay"
    and "replicate_records L call source n relay receipts rs = (relay', Inr out)"
  shows "\<exists>did rest new. rs = did @ rest \<and> out = receipts @ new
    \<and> (rest = [] \<and> list_all2 (taken L source relay') did new
       \<or> (\<exists>r rs' receipt init. rest = r # rs' \<and> new = init @ [receipt] \<and> answers receipt r
            \<and> \<not> checkpoint_safe receipt \<and> list_all2 (taken L source relay') did init))"
  using assms
proof (induction rs arbitrary: n relay receipts)
  case (Cons r rs)
  show ?case
  proof (cases "rr_source r = source")
    case False
    let ?receipt = "rejected_receipt r ''record source does not match the authenticated batch''"
    have "answers ?receipt r" "\<not> checkpoint_safe ?receipt"
      by (simp_all add: answers_def rejected_receipt_def checkpoint_safe_def)
    with Cons.prems(2) False show ?thesis
      by (intro exI [of _ "[]"] exI [of _ "r # rs"] exI [of _ "[?receipt]"]) auto
  next
    case True
    obtain relay1 res where i: "ingest_replication L (call n) relay r = (relay1, res)" by fastforce
    obtain receipt where res: "res = Inr receipt"
      using Cons.prems(2) True i by (cases res) auto
    note sound = ingest_replication_receipt [OF Cons.prems(1) i [unfolded res]]
    have a: "answers receipt r" using sound by (simp add: answers_def)
    have reach: "relay_reachable L relay1"
      using relay_reachable.replicated [OF Cons.prems(1), of "call n" r] i by simp
    show ?thesis
    proof (cases "checkpoint_safe receipt")
      case False
      with Cons.prems(2) True i res a show ?thesis
        by (intro exI [of _ "[]"] exI [of _ "r # rs"] exI [of _ "[receipt]"]) auto
    next
      case safe: True
      have rec: "replicate_records L call source (Suc n) relay1 (receipts @ [receipt]) rs = (relay', Inr out)"
        using Cons.prems(2) True i res safe by simp
      have "taken L source relay1 r receipt" using sound a safe True by (simp add: taken_def)
      moreover have "store_grows (lr_store relay1) (lr_store relay')"
        using replicate_records_grows [of relay1 L call source "Suc n" "receipts @ [receipt]" rs] rec by simp
      ultimately have t: "taken L source relay' r receipt" by (rule taken_grows)
      obtain "did" rest new where d: "rs = did @ rest" "out = (receipts @ [receipt]) @ new"
        "rest = [] \<and> list_all2 (taken L source relay') did new
         \<or> (\<exists>r rs' receipt init. rest = r # rs' \<and> new = init @ [receipt] \<and> answers receipt r
            \<and> \<not> checkpoint_safe receipt \<and> list_all2 (taken L source relay') did init)"
        using Cons.IH [OF reach rec] by blast
      then show ?thesis
        using t by (intro exI [of _ "r # did"] exI [of _ rest] exI [of _ "receipt # new"]) auto
    qed
  qed
qed simp

lemma authenticate_keeps_trust:
  "ia_peer_trust (fst (authenticate_at L io ia evidence audience now)) = ia_peer_trust ia"
  by (auto simp: authenticate_at_def consume_proof_def split: local_evidence.splits sum.splits prod.splits)


definition batch_proof :: event where
  "batch_proof = sample_event ''e5'' ''peer'' 100 27235
     [Tag ''u'' [''http://relay/replication''], Tag ''method'' [''POST''], Tag ''payload'' [''batch'']] ''''"

definition batch_lib :: nostr_lib where
  "batch_lib = sample_lib\<lparr>l_event_from_str := (\<lambda>s. if s = ''{e5}'' then Inr batch_proof else Inl ''syntax'')\<rparr>"

definition batch_headers :: headers where
  "batch_headers name = (if name = ''host'' then Some ''relay''
     else if name = ''authorization'' then Some ''Nostr {e5}'' else None)"

definition peer_adapter :: identity_adapter where
  "peer_adapter = with_peer_trust [relay_peer_trust_new ''node-a'' ''node-a'' [(''peer'', ''node-a#key'')]]"

definition peered_relay :: local_relay where
  "peered_relay = open_governed_with_keys (empty_store (Some '''')) (allowlist_admit {''node-a''})
     (Some peer_adapter) None None None"


section \<open>The artifact store\<close>

text \<open>
  SHA-256 in hexadecimal is 64 lowercase hex digits; temporary files have names that start with
  a dot, so they are never served.
\<close>

definition sha_hex :: "nostr_lib \<Rightarrow> bool" where
  "sha_hex L \<longleftrightarrow> (\<forall>b. length (l_sha256_hex L b) = 64 \<and> list_all is_lower_hexdigit (l_sha256_hex L b))"

definition is_tmp :: "string \<Rightarrow> bool" where
  "is_tmp name = starts_with name ''.''"

definition blobs_ok :: "nostr_lib \<Rightarrow> (string \<Rightarrow> string option) \<Rightarrow> bool" where
  "blobs_ok L files \<longleftrightarrow> (\<forall>name bytes. files name = Some bytes \<longrightarrow> \<not> is_tmp name \<longrightarrow> l_sha256_hex L bytes = name)"

definition blobs_kept :: "(string \<Rightarrow> string option) \<Rightarrow> (string \<Rightarrow> string option) \<Rightarrow> bool" where
  "blobs_kept files files' \<longleftrightarrow> (\<forall>name bytes. files name = Some bytes \<longrightarrow> \<not> is_tmp name \<longrightarrow> files' name = Some bytes)"

lemma is_tmp_tmp_name: "is_tmp (tmp_name hash uuid)"
  by (simp add: is_tmp_def tmp_name_def starts_with_def)

lemma store_blob_ok:
  assumes "blobs_ok L files"
  shows "blobs_ok L (fst (store_blob fault uuid files (l_sha256_hex L payload) payload))"
    and "blobs_kept files (fst (store_blob fault uuid files (l_sha256_hex L payload) payload))"
  using assms is_tmp_tmp_name [of "l_sha256_hex L payload" uuid]
  by (auto simp: store_blob_def write_blob_def blobs_ok_def blobs_kept_def Let_def
      split: upload_fault.split)

lemma artifact_upload_files:
  assumes "lr_artifacts relay = Some files" "blobs_ok L files"
    and "artifact_upload L env relay headers payload = (relay', res)"
  shows "\<exists>files'. lr_artifacts relay' = Some files' \<and> blobs_ok L files' \<and> blobs_kept files files'"
proof -
  have keep: "lr_artifacts (fst (authenticate_http_method L env relay headers verb path payload)) = Some files"
    for verb path payload
    by (subst authenticate_http_relay) (simp add: assms(1))
  have k: "blobs_kept files files" by (simp add: blobs_kept_def)
  obtain relay1 r where a: "authenticate_http L env relay headers ''/artifacts'' payload = (relay1, r)" by fastforce
  have f: "lr_artifacts relay1 = Some files"
    using keep [of "''POST''" "''/artifacts''" payload] a by (simp add: authenticate_http_def)
  show ?thesis
    using assms(3) f a k assms(2) store_blob_ok [OF assms(2), of "he_fault env" "he_uuid env" payload]
    unfolding artifact_upload_def assms(1) option.case a
    by (elim try_step_cases) (auto simp: Let_def case_prod_unfold split: if_splits)
qed

text \<open>What the operations of the relay leave alone.\<close>

lemma config_artifacts: "same_config a b \<Longrightarrow> lr_artifacts b = lr_artifacts a"
  by (simp add: same_config_def)

lemma replicate_records_config: "same_config relay (fst (replicate_records L call source n relay receipts rs))"
proof (induction rs arbitrary: n relay receipts)
  case (Cons r rs)
  obtain relay1 res where i: "ingest_replication L (call n) relay r = (relay1, res)" by fastforce
  have c: "same_config relay relay1" using ingest_replication_config [of relay L "call n" r] i by simp
  with i Cons.IH [of relay1 "Suc n"] same_config_trans [OF c] show ?case
    by (cases res) (auto simp: map_err_def)
qed simp

lemma try_step_proj:
  assumes "g (fst m) = v" "\<And>s a. g s = v \<Longrightarrow> g (fst (f s a)) = v"
  shows "g (fst (try_step m f)) = v"
  using assms by (cases m; cases "snd m") (auto simp: try_step_def)

lemmas try_step_artifacts = try_step_proj [where g = lr_artifacts]

lemmas relay_config = submit_from_config query_for_cursors_config ingest_replication_config
  replicate_records_config

lemma authenticate_http_artifacts:
  "lr_artifacts (fst (authenticate_http_method L env relay headers verb path payload)) = lr_artifacts relay"
  by (subst authenticate_http_relay) simp

text \<open>
  A projection of the relay that the configuration and the authentication of a request
  determine is left alone by every request that is no upload.
\<close>

lemma router_proj:
  assumes config: "\<And>a b. same_config a b \<Longrightarrow> g b = g a"
    and auth: "\<And>relay verb path payload.
      g (fst (authenticate_http_method L env relay headers verb path payload)) = g relay"
    and req: "\<And>b. req \<noteq> PostArtifact b"
  shows "g (fst (router L W env relay headers req)) = g relay"
proof -
  note rules = try_step_proj [where g = g] auth [THEN trans]
  note keep = relay_config [THEN config, THEN trans]
  show ?thesis
  proof (cases req)
    case (PostEvents b)
    then show ?thesis
      by (auto simp: submit_event_def authenticate_http_def intro!: rules keep)
  next
    case (PostQuery b)
    then show ?thesis
      by (auto simp: query_events_def authenticate_http_def intro!: rules keep)
  next
    case (PostCount b)
    then show ?thesis
      by (auto simp: count_events_http_def authenticate_http_def intro!: rules)
  next
    case (PostReplication b)
    then show ?thesis
      by (auto simp: replication_ingest_def authenticate_http_def simp del: replicate_records.simps
          intro!: rules keep split: list.split)
  next
    case (GetArtifact s)
    then show ?thesis
      by (auto simp: artifact_fetch_def intro!: rules split: option.split)
  next
    case (HeadArtifact s)
    then show ?thesis
      by (auto simp: artifact_head_def intro!: rules split: option.split)
  qed (use req in simp)
qed

lemma router_artifacts:
  "(\<And>b. req \<noteq> PostArtifact b) \<Longrightarrow> lr_artifacts (fst (router L W env relay headers req)) = lr_artifacts relay"
  by (rule router_proj [OF config_artifacts authenticate_http_artifacts])


definition artifact_relay :: local_relay where
  "artifact_relay = open_governed_with_keys (empty_store None) disabled_admit None (Some (\<lambda>_. None)) None None"



definition blob_lib :: nostr_lib where
  "blob_lib = sample_lib\<lparr>l_sha256_hex := (\<lambda>b. replicate 64 (if b = ''blob'' then CHR ''a'' else CHR ''b''))\<rparr>"


end
