(* ===== verification/Websocket.thy ===== *)
theory Websocket
  imports Relay_Http
begin

text \<open>
  WebSocket connections (\<open>websocket_session\<close> and its handlers in
  \<open>buzz-local-relay/src/lib.rs\<close>): the client protocol, subscriptions, live delivery and
  the session lease a connection holds while it is authenticated.

  A connection is the record \<open>ws_conn\<close>. Its sink is the list of frames it has taken and
  the number of further sends that succeed, so that every send may be the one that fails; the
  frames are the JSON arrays of the code by their first element. The subscription map is an
  association list whose order stands for the unspecified iteration order. Which event the
  broadcast channel hands to the receiver next is the channel's choice; it only hands out events
  that were sent on it.
\<close>

section \<open>Connections\<close>

definition MAX_SUBSCRIPTIONS_PER_CONNECTION :: nat where
  "MAX_SUBSCRIPTIONS_PER_CONNECTION = 128"

definition MAX_SUBSCRIPTION_ID_LENGTH :: nat where
  "MAX_SUBSCRIPTION_ID_LENGTH = 128"

datatype server_frame =
    AuthFrame string
  | OkFrame string bool string
  | EventFrame string event
  | EoseFrame string
  | ClosedFrame string string
  | NoticeFrame string
  | PongFrame string

datatype client_message =
    TextMessage string
  | PingMessage string
  | PongMessage string
  | CloseMessage
  | BinaryMessage string

record web_socket_identity =
  wi_principal :: "authenticated_principal option"
  wi_session_lease :: "pubkey option"

record ws_conn =
  wc_subscriptions :: "(string \<times> nostr_filter list) list"
  wc_identity :: web_socket_identity
  wc_challenge :: "string option"
  wc_audience :: "string option"
  wc_sent :: "server_frame list"
  wc_room :: nat

record ws_env =
  we_now :: nat
  we_io :: io_outcome
  we_submit :: relay_env

definition send_json :: "ws_conn \<Rightarrow> server_frame \<Rightarrow> ws_conn \<times> bool" where
  "send_json c frame =
     (if wc_room c = 0 then (c, False)
      else (c\<lparr>wc_sent := wc_sent c @ [frame], wc_room := wc_room c - 1\<rparr>, True))"

text \<open>What a session does before its loop; \<open>challenge\<close> is the fresh challenge.\<close>

definition session_start :: "local_relay \<Rightarrow> string \<Rightarrow> string option \<Rightarrow> nat \<Rightarrow> ws_conn \<times> bool" where
  "session_start relay challenge audience room =
     (let challenge = map_option (\<lambda>_. challenge) (lr_identity relay);
          c = \<lparr>wc_subscriptions = [], wc_identity = \<lparr>wi_principal = None, wi_session_lease = None\<rparr>,
               wc_challenge = challenge, wc_audience = audience, wc_sent = [], wc_room = room\<rparr>
      in case challenge of None \<Rightarrow> (c, True) | Some challenge \<Rightarrow> send_json c (AuthFrame challenge))"

section \<open>Client messages\<close>

definition event_arg :: "nostr_lib \<Rightarrow> json list \<Rightarrow> event option" where
  "event_arg L parts = Option.bind (get_at parts 1) (\<lambda>v. ok (l_event_from_value L v))"

definition handle_ws_auth ::
  "nostr_lib \<Rightarrow> ws_env \<Rightarrow> local_relay \<Rightarrow> ws_conn \<Rightarrow> json list \<Rightarrow> local_relay \<times> ws_conn \<times> bool" where
  "handle_ws_auth L env relay c parts =
     (case event_arg L parts of
        None \<Rightarrow> (relay, send_json c (OkFrame '''' False ''invalid_evidence''))
      | Some e \<Rightarrow>
     (case lr_identity relay of
        None \<Rightarrow> (relay, send_json c (OkFrame (ev_id e) False ''authentication_not_enabled''))
      | Some adapter \<Rightarrow>
     (case (wc_challenge c, wc_audience c) of
        (Some challenge, Some audience) \<Rightarrow>
          (if wi_principal (wc_identity c) \<noteq> None
           then (relay, send_json c (OkFrame (ev_id e) False ''replay_detected''))
           else (case authenticate_at L (we_io env) adapter (Nip42Evidence e challenge) audience (we_now env) of
              (adapter, Inr caller) \<Rightarrow>
                (let lease = principal_pubkey caller;
                     relay = relay\<lparr>lr_identity := Some adapter,
                       lr_sessions := (case lease of None \<Rightarrow> lr_sessions relay
                         | Some pubkey \<Rightarrow> session_enter (lr_sessions relay) pubkey)\<rparr>;
                     c = c\<lparr>wc_identity := \<lparr>wi_principal = Some caller, wi_session_lease = lease\<rparr>\<rparr>
                 in (relay, send_json c (OkFrame (ev_id e) True ''authenticated'')))
            | (adapter, Inl err) \<Rightarrow>
                (relay\<lparr>lr_identity := Some adapter\<rparr>,
                 send_json c (OkFrame (ev_id e) False (identity_error_token err)))))
      | _ \<Rightarrow> (relay, send_json c (OkFrame (ev_id e) False ''audience_mismatch'')))))"

definition handle_ws_event ::
  "nostr_lib \<Rightarrow> ws_env \<Rightarrow> local_relay \<Rightarrow> ws_conn \<Rightarrow> json list \<Rightarrow> local_relay \<times> ws_conn \<times> bool" where
  "handle_ws_event L env relay c parts =
     (case event_arg L parts of
        None \<Rightarrow> (relay, send_json c (OkFrame '''' False ''invalid: malformed event''))
      | Some e \<Rightarrow>
     (let caller = wi_principal (wc_identity c) in
      case relay_authorize_direct L relay caller e of
        Inl err \<Rightarrow> (relay, send_json c (OkFrame (ev_id e) False (identity_error_token err)))
      | Inr _ \<Rightarrow>
          (case submit_from L (we_submit env) relay e caller of
              (relay, Inl err) \<Rightarrow> (relay, send_json c (OkFrame (ev_id e) False (''error: '' @ store_error_text err)))
            | (relay, Inr w) \<Rightarrow> (relay, send_json c (OkFrame (wr_event_id w) (wr_accepted w) (wr_message w))))))"

fun send_events :: "ws_conn \<Rightarrow> string \<Rightarrow> event list \<Rightarrow> ws_conn \<times> bool" where
  "send_events c subscription_id [] = (c, True)"
| "send_events c subscription_id (e # es) =
     (case send_json c (EventFrame subscription_id e) of
        (c, False) \<Rightarrow> (c, False)
      | (c, True) \<Rightarrow> send_events c subscription_id es)"

definition req_filters :: "nostr_lib \<Rightarrow> json list \<Rightarrow> string + nostr_filter list" where
  "req_filters L filter_values =
     and_then (map_err query_error_text (validate_filter_fields filter_values SUPPORTED_FILTER_FIELDS)) (\<lambda>_.
     and_then (case collect_results (map (l_filter_from_value L) filter_values) of
         Inr filters \<Rightarrow> if filters \<noteq> [] then Inr filters else Inl ''invalid filters''
       | Inl _ \<Rightarrow> Inl ''invalid filters'') (\<lambda>filters.
     and_then (map_err query_error_text (validate_filters filters)) (\<lambda>_. Inr filters)))"

definition handle_ws_req ::
  "nostr_lib \<Rightarrow> ws_env \<Rightarrow> local_relay \<Rightarrow> ws_conn \<Rightarrow> json list \<Rightarrow> local_relay \<times> ws_conn \<times> bool" where
  "handle_ws_req L env relay c parts =
     (case Option.bind (get_at parts 1) json_as_str of
        None \<Rightarrow> (relay, send_json c (NoticeFrame ''invalid REQ''))
      | Some i \<Rightarrow>
          if MAX_SUBSCRIPTION_ID_LENGTH < length i
          then (relay, send_json c (ClosedFrame i ''subscription ID too long''))
          else if i \<notin> fst ` set (wc_subscriptions c)
            \<and> MAX_SUBSCRIPTIONS_PER_CONNECTION \<le> length (wc_subscriptions c)
          then (relay, send_json c (ClosedFrame i ''too many subscriptions''))
          else (case req_filters L (drop 2 parts) of
              Inl reason \<Rightarrow> (relay, send_json c (ClosedFrame i reason))
            | Inr filters \<Rightarrow>
                (case query_for L (we_now env) relay (wi_principal (wc_identity c)) HistoricalSubscription filters of
                    (relay, Inl err) \<Rightarrow> (relay, send_json c (ClosedFrame i (api_error_text err)))
                  | (relay, Inr historical) \<Rightarrow>
                      (case send_events (c\<lparr>wc_subscriptions := AList.update i filters (wc_subscriptions c)\<rparr>) i historical of
                          (c, False) \<Rightarrow> (relay, c, False)
                        | (c, True) \<Rightarrow> (relay, send_json c (EoseFrame i))))))"

definition handle_ws_close :: "ws_conn \<Rightarrow> json list \<Rightarrow> ws_conn" where
  "handle_ws_close c parts =
     (case Option.bind (get_at parts 1) json_as_str of
        None \<Rightarrow> c
      | Some i \<Rightarrow> c\<lparr>wc_subscriptions := AList.delete i (wc_subscriptions c)\<rparr>)"

definition handle_ws_text ::
  "nostr_lib \<Rightarrow> ws_env \<Rightarrow> local_relay \<Rightarrow> ws_conn \<Rightarrow> string \<Rightarrow> local_relay \<times> ws_conn \<times> bool" where
  "handle_ws_text L env relay c body =
     (case Option.bind (ok (l_json_from_str L body)) json_as_array of
        None \<Rightarrow> (relay, send_json c (NoticeFrame ''invalid message''))
      | Some parts \<Rightarrow>
     (case Option.bind (first_of parts) json_as_str of
        None \<Rightarrow> (relay, send_json c (NoticeFrame ''invalid message''))
      | Some verb \<Rightarrow>
          if verb = ''AUTH'' then handle_ws_auth L env relay c parts
          else if verb = ''EVENT'' then handle_ws_event L env relay c parts
          else if verb = ''REQ'' then handle_ws_req L env relay c parts
          else if verb = ''CLOSE'' then (relay, handle_ws_close c parts, True)
          else (relay, send_json c (NoticeFrame ''unsupported message''))))"

fun handle_client_message ::
  "nostr_lib \<Rightarrow> ws_env \<Rightarrow> local_relay \<Rightarrow> ws_conn \<Rightarrow> client_message \<Rightarrow> local_relay \<times> ws_conn \<times> bool" where
  "handle_client_message L env relay c (TextMessage body) = handle_ws_text L env relay c body"
| "handle_client_message L env relay c (PingMessage payload) = (relay, send_json c (PongFrame payload))"
| "handle_client_message L env relay c (PongMessage payload) = (relay, c, True)"
| "handle_client_message L env relay c CloseMessage = (relay, c, False)"
| "handle_client_message L env relay c (BinaryMessage payload) = (relay, c, False)"

section \<open>Live delivery\<close>

definition live_visible :: "local_relay \<Rightarrow> ws_conn \<Rightarrow> event \<Rightarrow> bool" where
  "live_visible relay c e =
     (if event_kind_u32 e = KIND_BEACON_PULSE \<or> event_kind_u32 e = KIND_BEACON_RESPONSE
      then pulse_visible_to relay (wi_principal (wc_identity c))
      else event_is_visible relay (wi_principal (wc_identity c)) LiveDelivery e)"

fun deliver_live ::
  "nostr_lib \<Rightarrow> nat \<Rightarrow> local_relay \<Rightarrow> ws_conn \<Rightarrow> event \<Rightarrow> (string \<times> nostr_filter list) list \<Rightarrow> ws_conn \<times> bool" where
  "deliver_live L now relay c e [] = (c, True)"
| "deliver_live L now relay c e ((i, filters) # subscriptions) =
     (if \<not> filters_match filters (stored_event_of L now e) then deliver_live L now relay c e subscriptions
      else if live_visible relay c e
      then (case send_json c (EventFrame i e) of
          (c, False) \<Rightarrow> (c, False)
        | (c, True) \<Rightarrow> deliver_live L now relay c e subscriptions)
      else deliver_live L now relay c e subscriptions)"

definition receive_live :: "nostr_lib \<Rightarrow> nat \<Rightarrow> local_relay \<Rightarrow> ws_conn \<Rightarrow> event \<Rightarrow> ws_conn \<times> bool" where
  "receive_live L now relay c e = deliver_live L now relay c e (wc_subscriptions c)"

definition receive_lagged :: "ws_conn \<Rightarrow> nat \<Rightarrow> ws_conn \<times> bool" where
  "receive_lagged c skipped =
     send_json c (NoticeFrame (''local relay subscriber lagged by '' @ show_nat skipped @ '' events''))"

text \<open>Leaving the session drops the lease.\<close>

definition session_end :: "local_relay \<Rightarrow> ws_conn \<Rightarrow> local_relay" where
  "session_end relay c =
     (case wi_session_lease (wc_identity c) of
        None \<Rightarrow> relay
      | Some pubkey \<Rightarrow> relay\<lparr>lr_sessions := session_drop (lr_sessions relay) pubkey\<rparr>)"

section \<open>The service: a relay, its connections and its requests\<close>

inductive conn_step :: "nostr_lib \<Rightarrow> local_relay \<Rightarrow> ws_conn \<Rightarrow> local_relay \<Rightarrow> ws_conn \<Rightarrow> bool \<Rightarrow> bool" for L where
  message: "handle_client_message L env relay c m = (relay', c', alive) \<Longrightarrow> conn_step L relay c relay' c' alive"
| live: "e \<in> set (lr_live relay) \<Longrightarrow> receive_live L now relay c e = (c', alive) \<Longrightarrow>
    conn_step L relay c relay c' alive"
| lagged: "receive_lagged c skipped = (c', alive) \<Longrightarrow> conn_step L relay c relay c' alive"

inductive service :: "nostr_lib \<Rightarrow> wire_lib \<Rightarrow> local_relay \<Rightarrow> ws_conn list \<Rightarrow> bool" for L W where
  start: "store_reachable L st \<Longrightarrow>
    service L W (open_governed_with_keys st policy identity artifacts governance keys) []"
| request: "service L W relay conns \<Longrightarrow> service L W (fst (router L W env relay headers req)) conns"
| connect: "service L W relay conns \<Longrightarrow> session_start relay challenge audience room = (c, True) \<Longrightarrow>
    service L W relay (conns @ [c])"
| step: "service L W relay (xs @ c # ys) \<Longrightarrow> conn_step L relay c relay' c' True \<Longrightarrow>
    service L W relay' (xs @ c' # ys)"
| ended: "service L W relay (xs @ c # ys) \<Longrightarrow> conn_step L relay c relay' c' False \<Longrightarrow>
    service L W (session_end relay' c') (xs @ ys)"
| disconnect: "service L W relay (xs @ c # ys) \<Longrightarrow> service L W (session_end relay c) (xs @ ys)"

section \<open>What a connection keeps\<close>

definition conn_ok :: "ws_conn \<Rightarrow> bool" where
  "conn_ok c \<longleftrightarrow> distinct (map fst (wc_subscriptions c))
     \<and> length (wc_subscriptions c) \<le> MAX_SUBSCRIPTIONS_PER_CONNECTION
     \<and> (\<forall>i \<in> set (map fst (wc_subscriptions c)). length i \<le> MAX_SUBSCRIPTION_ID_LENGTH)
     \<and> wi_session_lease (wc_identity c) = Option.bind (wi_principal (wc_identity c)) principal_pubkey"

text \<open>Sending touches only the sink.\<close>

definition same_but_sink :: "ws_conn \<Rightarrow> ws_conn \<Rightarrow> bool" where
  "same_but_sink c c' \<longleftrightarrow> wc_subscriptions c' = wc_subscriptions c \<and> wc_identity c' = wc_identity c
     \<and> wc_challenge c' = wc_challenge c \<and> wc_audience c' = wc_audience c"

lemma same_but_sink_refl [simp]: "same_but_sink c c"
  by (simp add: same_but_sink_def)

lemma same_but_sink_trans: "same_but_sink a b \<Longrightarrow> same_but_sink b c \<Longrightarrow> same_but_sink a c"
  by (simp add: same_but_sink_def)

lemma send_json_sink [simp]: "same_but_sink c (fst (send_json c frame))"
  by (simp add: send_json_def same_but_sink_def)

lemma send_events_sink: "same_but_sink c (fst (send_events c i es))"
proof (induction es arbitrary: c)
  case (Cons e es)
  show ?case
    using Cons.IH [of "fst (send_json c (EventFrame i e))"] same_but_sink_trans [OF send_json_sink [of c "EventFrame i e"]]
    by (cases "send_json c (EventFrame i e)") (auto split: bool.split)
qed simp

lemma deliver_live_sink: "same_but_sink c (fst (deliver_live L now relay c e subs))"
proof (induction subs arbitrary: c)
  case (Cons sub subs)
  obtain i filters where sub: "sub = (i, filters)" by fastforce
  show ?case
    using Cons.IH [of c] Cons.IH [of "fst (send_json c (EventFrame i e))"]
      same_but_sink_trans [OF send_json_sink [of c "EventFrame i e"]]
    by (cases "send_json c (EventFrame i e)") (auto simp: sub split: bool.split)
qed simp

lemma conn_ok_sink: "same_but_sink c c' \<Longrightarrow> conn_ok c \<Longrightarrow> conn_ok c'"
  by (simp add: conn_ok_def same_but_sink_def)

text \<open>
  The effect of a message on the relay's session registry and on the connection: none, or the
  one authentication, which takes the lease.
\<close>

definition leases_agree :: "local_relay \<Rightarrow> ws_conn \<Rightarrow> local_relay \<Rightarrow> ws_conn \<Rightarrow> bool" where
  "leases_agree relay c relay' c' \<longleftrightarrow>
     (lr_sessions relay' = lr_sessions relay
        \<and> wi_session_lease (wc_identity c') = wi_session_lease (wc_identity c))
     \<or> (\<exists>pubkey. wi_session_lease (wc_identity c) = None
          \<and> wi_session_lease (wc_identity c') = Some pubkey
          \<and> lr_sessions relay' = session_enter (lr_sessions relay) pubkey)"

lemma sink_leases_agree:
  "same_but_sink c c' \<Longrightarrow> lr_sessions relay' = lr_sessions relay \<Longrightarrow> leases_agree relay c relay' c'"
  by (simp add: leases_agree_def same_but_sink_def)

lemma config_sessions: "same_config a b \<Longrightarrow> lr_sessions b = lr_sessions a"
  by (simp add: same_config_def)

lemma send_json_sinkD: "send_json c frame = (c', alive) \<Longrightarrow> same_but_sink c c'"
  using send_json_sink [of c frame] by simp

lemma submit_from_configD: "submit_from L env relay e caller = (relay', r) \<Longrightarrow> same_config relay relay'"
  using submit_from_config [of relay L env e caller] by simp

lemma query_for_configD: "query_for L now relay caller operation filters = (relay', r) \<Longrightarrow> same_config relay relay'"
  using query_for_cursors_config [of relay L now caller operation] unfolding query_for_def
  by (metis fst_conv)

lemma handle_ws_event_keeps:
  assumes "handle_ws_event L env relay c parts = (relay', c', alive)"
  shows "same_but_sink c c' \<and> same_config relay relay'"
  using assms unfolding handle_ws_event_def Let_def
  by (auto split: option.splits sum.splits prod.splits dest!: send_json_sinkD submit_from_configD)

text \<open>The events a connection was sent.\<close>

definition sent_events :: "ws_conn \<Rightarrow> event set" where
  "sent_events c = {e. \<exists>i. EventFrame i e \<in> set (wc_sent c)}"

lemma send_json_events:
  "send_json c frame = (c', alive) \<Longrightarrow> sent_events c' \<subseteq> sent_events c \<union> {e. \<exists>i. frame = EventFrame i e}"
  by (auto simp: send_json_def sent_events_def split: if_splits)

lemma send_events_events: "sent_events (fst (send_events c i es)) \<subseteq> sent_events c \<union> set es"
proof (induction es arbitrary: c)
  case (Cons e es)
  obtain c1 b where s: "send_json c (EventFrame i e) = (c1, b)" by fastforce
  show ?case using Cons.IH [of c1] send_json_events [OF s] s by (cases b) auto
qed simp

lemma live_visible_sink: "same_but_sink c c' \<Longrightarrow> live_visible relay c' e = live_visible relay c e"
  by (simp add: live_visible_def same_but_sink_def)

lemma deliver_live_events:
  "sent_events (fst (deliver_live L now relay c e subs)) \<subseteq> sent_events c \<union> {x. x = e \<and> live_visible relay c e}"
proof (induction subs arbitrary: c)
  case (Cons sub subs)
  obtain i filters where sub: "sub = (i, filters)" by fastforce
  obtain c1 b where s: "send_json c (EventFrame i e) = (c1, b)" by fastforce
  have v: "live_visible relay c1 e = live_visible relay c e"
    using send_json_sinkD [OF s] by (rule live_visible_sink)
  show ?case
    using Cons.IH [of c] Cons.IH [of c1] send_json_events [OF s] s v by (cases b) (auto simp: sub)
qed simp

lemma handle_ws_auth_cases:
  assumes "handle_ws_auth L env relay c parts = (relay', c', alive)"
  obtains (refused) "relay' = relay" "same_but_sink c c'" "sent_events c' \<subseteq> sent_events c"
  | (denied) adapter adapter' where "lr_identity relay = Some adapter"
      "ia_peer_trust adapter' = ia_peer_trust adapter" "relay' = relay\<lparr>lr_identity := Some adapter'\<rparr>"
      "same_but_sink c c'" "sent_events c' \<subseteq> sent_events c"
  | (admitted) adapter adapter' caller c1 where "lr_identity relay = Some adapter"
      "ia_peer_trust adapter' = ia_peer_trust adapter" "wi_principal (wc_identity c) = None"
      "relay' = relay\<lparr>lr_identity := Some adapter',
         lr_sessions := (case principal_pubkey caller of None \<Rightarrow> lr_sessions relay
           | Some pubkey \<Rightarrow> session_enter (lr_sessions relay) pubkey)\<rparr>"
      "c1 = c\<lparr>wc_identity := \<lparr>wi_principal = Some caller, wi_session_lease = principal_pubkey caller\<rparr>\<rparr>"
      "same_but_sink c1 c'" "sent_events c' \<subseteq> sent_events c"
proof -
  have sent: "same_but_sink c2 c' \<and> sent_events c' \<subseteq> sent_events c2"
    if "send_json c2 frame = (c', alive)" "\<And>i e. frame \<noteq> EventFrame i e" for c2 frame
    using send_json_events [OF that(1)] send_json_sinkD [OF that(1)] that(2) by auto
  show thesis
  proof (cases "event_arg L parts")
    case None
    with assms sent [of c] refused show thesis by (auto simp: handle_ws_auth_def)
  next
    case e: (Some e)
    show thesis
    proof (cases "lr_identity relay")
      case None
      with assms e sent [of c] refused show thesis by (auto simp: handle_ws_auth_def)
    next
      case ia: (Some adapter)
      show thesis
      proof (cases "wc_challenge c = None \<or> wc_audience c = None \<or> wi_principal (wc_identity c) \<noteq> None")
        case True
        with assms e ia sent [of c] refused show thesis
          by (auto simp: handle_ws_auth_def split: option.splits)
      next
        case False
        then obtain challenge audience where ch: "wc_challenge c = Some challenge"
          "wc_audience c = Some audience" "wi_principal (wc_identity c) = None" by auto
        obtain adapter' r where au: "authenticate_at L (we_io env) adapter (Nip42Evidence e challenge) audience
          (we_now env) = (adapter', r)" by fastforce
        have tr: "ia_peer_trust adapter' = ia_peer_trust adapter"
          using authenticate_keeps_trust [of L "we_io env" adapter "Nip42Evidence e challenge" audience "we_now env"]
            au by simp
        note h = assms [unfolded handle_ws_auth_def e ia ch option.case prod.case au]
        show thesis
        proof (cases r)
          case (Inl err)
          with h tr ia sent [of c] denied [of adapter adapter'] show thesis by auto
        next
          case (Inr caller)
          let ?c1 = "c\<lparr>wc_identity := \<lparr>wi_principal = Some caller, wi_session_lease = principal_pubkey caller\<rparr>\<rparr>"
          have "sent_events ?c1 = sent_events c" by (simp add: sent_events_def)
          moreover have "send_json ?c1 (OkFrame (ev_id e) True ''authenticated'') = (c', alive)"
            using h Inr by (simp add: Let_def)
          ultimately show thesis
            using h Inr sent [of ?c1] admitted [OF ia tr ch(3) _ refl, of caller] by (auto simp: Let_def)
        qed
      qed
    qed
  qed
qed

lemma handle_ws_auth_keeps:
  assumes "handle_ws_auth L env relay c parts = (relay', c', alive)" "conn_ok c"
  shows "conn_ok c' \<and> leases_agree relay c relay' c'"
  using assms(1)
proof (cases rule: handle_ws_auth_cases)
  case refused
  with conn_ok_sink assms(2) sink_leases_agree show ?thesis by blast
next
  case (denied adapter adapter')
  with conn_ok_sink [OF _ assms(2)] sink_leases_agree show ?thesis by auto
next
  case (admitted adapter adapter' caller c1)
  have "conn_ok c1" using assms(2) admitted(5) by (simp add: conn_ok_def)
  with conn_ok_sink [OF admitted(6)] have "conn_ok c'" by simp
  moreover have "leases_agree relay c relay' c1"
    using assms(2) admitted by (auto simp: leases_agree_def conn_ok_def split: option.splits)
  ultimately show ?thesis using admitted(6) by (auto simp: leases_agree_def same_but_sink_def)
qed

lemma handle_ws_req_cases:
  assumes "handle_ws_req L env relay c parts = (relay', c', alive)"
  obtains (refused) "same_but_sink c c'" "sent_events c' \<subseteq> sent_events c" "same_config relay relay'"
  | (subscribed) i filters historical c1 where "length i \<le> MAX_SUBSCRIPTION_ID_LENGTH"
      "i \<in> fst ` set (wc_subscriptions c) \<or> length (wc_subscriptions c) < MAX_SUBSCRIPTIONS_PER_CONNECTION"
      "query_for L (we_now env) relay (wi_principal (wc_identity c)) HistoricalSubscription filters
        = (relay', Inr historical)"
      "c1 = c\<lparr>wc_subscriptions := AList.update i filters (wc_subscriptions c)\<rparr>"
      "same_but_sink c1 c'" "sent_events c' \<subseteq> sent_events c \<union> set historical"
proof -
  have refuse: thesis if "relay' = relay" "send_json c frame = (c', alive)" "\<And>i e. frame \<noteq> EventFrame i e" for frame
    using that send_json_events [OF that(2)] send_json_sinkD [OF that(2)] refused by auto
  show thesis
  proof (cases "Option.bind (get_at parts 1) json_as_str")
    case None
    with assms show thesis by (auto simp: handle_ws_req_def intro: refuse)
  next
    case (Some i)
    show thesis
    proof (cases "MAX_SUBSCRIPTION_ID_LENGTH < length i \<or> (i \<notin> fst ` set (wc_subscriptions c)
            \<and> MAX_SUBSCRIPTIONS_PER_CONNECTION \<le> length (wc_subscriptions c))")
      case True
      with assms Some show thesis by (auto simp: handle_ws_req_def split: if_splits intro: refuse)
    next
      case fits: False
      then have n: "\<not> MAX_SUBSCRIPTION_ID_LENGTH < length i"
        "\<not> (i \<notin> fst ` set (wc_subscriptions c)
            \<and> MAX_SUBSCRIPTIONS_PER_CONNECTION \<le> length (wc_subscriptions c))" by blast+
      note h = assms [unfolded handle_ws_req_def Some option.case if_not_P [OF n(1)] if_not_P [OF n(2)]]
      show thesis
      proof (cases "req_filters L (drop 2 parts)")
        case (Inl reason)
        with h show thesis by (auto intro: refuse)
      next
        case (Inr filters)
        obtain relay1 r where q: "query_for L (we_now env) relay (wi_principal (wc_identity c))
            HistoricalSubscription filters = (relay1, r)" by fastforce
        let ?c1 = "c\<lparr>wc_subscriptions := AList.update i filters (wc_subscriptions c)\<rparr>"
        show thesis
        proof (cases r)
          case (Inl err)
          then have "relay' = relay1" "send_json c (ClosedFrame i (api_error_text err)) = (c', alive)"
            using h Inr q by auto
          with refused send_json_events [OF this(2)] send_json_sinkD [OF this(2)] query_for_configD [OF q]
          show thesis by auto
        next
          case hist: (Inr historical)
          obtain c2 b where e: "send_events ?c1 i historical = (c2, b)" by fastforce
          have sink: "same_but_sink ?c1 c2" using send_events_sink [of ?c1 i historical] e by simp
          have "sent_events c2 \<subseteq> sent_events c \<union> set historical"
            using send_events_events [of ?c1 i historical] e by (simp add: sent_events_def)
          moreover have "relay' = relay1" "c' = c2 \<or> send_json c2 (EoseFrame i) = (c', alive)"
            using h Inr q hist e by (auto split: bool.splits)
          ultimately have "sent_events c' \<subseteq> sent_events c \<union> set historical" "same_but_sink ?c1 c'" "relay' = relay1"
            using send_json_events [of c2 "EoseFrame i" c' alive] send_json_sinkD [of c2 "EoseFrame i" c' alive]
              same_but_sink_trans [OF sink] sink by auto
          then show thesis using subscribed [of i filters historical ?c1] fits q hist by auto
        qed
      qed
    qed
  qed
qed

lemma handle_ws_req_relay:
  assumes "handle_ws_req L env relay c parts = (relay', c', alive)" "relay_reachable L relay"
  shows "relay_reachable L relay'"
proof -
  have r: "relay_reachable L r1" if "query_for L now relay caller operation filters = (r1, w)"
    for now caller operation filters r1 w
    using relay_reachable.queried [OF assms(2), of now caller operation] that unfolding query_for_def
    by (metis fst_conv)
  show ?thesis
    using assms unfolding handle_ws_req_def
    by (auto split: option.splits sum.splits prod.splits if_splits bool.splits dest!: r)
qed

lemma alist_update_keys: "set (map fst (AList.update k v xs)) = insert k (set (map fst xs))"
  by (induction xs) auto

lemma alist_update_length: "length (AList.update k v xs) = (if k \<in> fst ` set xs then length xs else Suc (length xs))"
  by (induction xs) auto

lemma handle_ws_req_keeps:
  assumes "handle_ws_req L env relay c parts = (relay', c', alive)" "conn_ok c"
  shows "conn_ok c' \<and> wc_identity c' = wc_identity c \<and> same_config relay relay'"
  using assms(1)
proof (cases rule: handle_ws_req_cases)
  case refused
  with assms(2) conn_ok_sink show ?thesis by (auto simp: same_but_sink_def)
next
  case (subscribed i filters historical c1)
  have "conn_ok c1"
    using assms(2) subscribed(1,2)
    by (auto simp: conn_ok_def subscribed(4) alist_update_length distinct_update
        simp flip: set_map simp: alist_update_keys)
  with conn_ok_sink [OF subscribed(5)] subscribed(4,5) query_for_configD [OF subscribed(3)]
  show ?thesis by (auto simp: same_but_sink_def)
qed

lemma handle_client_message_cases:
  assumes "handle_client_message L env relay c m = (relay', c', alive)"
  obtains (auth) parts where "handle_ws_auth L env relay c parts = (relay', c', alive)"
  | (event) parts where "handle_ws_event L env relay c parts = (relay', c', alive)"
  | (req) parts where "handle_ws_req L env relay c parts = (relay', c', alive)"
  | (close) parts where "c' = handle_ws_close c parts" "relay' = relay"
  | (sent) frame where "relay' = relay" "send_json c frame = (c', alive)" "\<And>i e. frame \<noteq> EventFrame i e"
  | (idle) "relay' = relay" "c' = c"
proof (cases m)
  case (TextMessage body)
  with assms have h: "handle_ws_text L env relay c body = (relay', c', alive)" by simp
  show thesis
  proof (cases "Option.bind (ok (l_json_from_str L body)) json_as_array")
    case None
    with h show thesis by (intro sent) (auto simp: handle_ws_text_def)
  next
    case parts: (Some parts)
    show thesis
    proof (cases "Option.bind (first_of parts) json_as_str")
      case None
      with h parts show thesis by (intro sent) (auto simp: handle_ws_text_def)
    next
      case (Some verb)
      note h' = h [unfolded handle_ws_text_def parts Some option.case]
      show thesis
      proof (cases "verb \<in> {''AUTH'', ''EVENT'', ''REQ'', ''CLOSE''}")
        case True
        with h' auth event req close show thesis by auto
      next
        case False
        with h' show thesis by (intro sent) auto
      qed
    qed
  qed
next
  case (PingMessage payload)
  with assms show thesis by (intro sent) auto
qed (use assms idle in auto)

lemma handle_ws_close_ok: "conn_ok c \<Longrightarrow> conn_ok (handle_ws_close c parts)"
  by (auto simp: handle_ws_close_def conn_ok_def AList.delete_eq
      distinct_map_filter split: option.splits intro: order_trans [OF length_filter_le])

lemma handle_ws_close_same:
  "wc_identity (handle_ws_close c parts) = wc_identity c" "wc_sent (handle_ws_close c parts) = wc_sent c"
  by (simp_all add: handle_ws_close_def split: option.split)

lemma handle_client_message_keeps:
  assumes "handle_client_message L env relay c m = (relay', c', alive)" "conn_ok c"
  shows "conn_ok c' \<and> leases_agree relay c relay' c'"
  using assms(1)
proof (cases rule: handle_client_message_cases)
  case (auth parts)
  then show ?thesis by (rule handle_ws_auth_keeps [OF _ assms(2)])
next
  case (event parts)
  then show ?thesis
    using handle_ws_event_keeps [OF event] conn_ok_sink [OF _ assms(2)] sink_leases_agree config_sessions by blast
next
  case (req parts)
  then show ?thesis
    using handle_ws_req_keeps [OF req assms(2)] config_sessions by (auto simp: leases_agree_def)
next
  case (close parts)
  then show ?thesis
    using handle_ws_close_ok [OF assms(2), of parts] handle_ws_close_same [of c parts]
    by (simp add: leases_agree_def)
next
  case (sent frame)
  then show ?thesis
    using send_json_sinkD [OF sent(2)] conn_ok_sink [OF _ assms(2)] sink_leases_agree by blast
next
  case idle
  with assms(2) show ?thesis by (simp add: leases_agree_def)
qed

text \<open>What decides standing: the owner and the peers the adapter trusts. No step changes it.\<close>

definition trust_config :: "local_relay \<Rightarrow> (pubkey \<times> string) option \<times> (source_id \<times> relay_peer_trust) list option" where
  "trust_config relay = (lr_governance relay, map_option ia_peer_trust (lr_identity relay))"

lemma config_trust: "same_config a b \<Longrightarrow> trust_config b = trust_config a"
  by (simp add: same_config_def trust_config_def)

lemma pulse_visible_trust:
  assumes "trust_config a = trust_config b"
  shows "pulse_visible_to a caller = pulse_visible_to b caller"
proof -
  have g: "lr_governance a = lr_governance b"
    and i: "map_option ia_peer_trust (lr_identity a) = map_option ia_peer_trust (lr_identity b)"
    using assms by (simp_all add: trust_config_def)
  show ?thesis
  proof (cases "lr_identity a")
    case None
    with i show ?thesis by (simp add: pulse_visible_to_def)
  next
    case (Some ia)
    with i obtain ib where b: "lr_identity b = Some ib" "ia_peer_trust ib = ia_peer_trust ia"
      by (cases "lr_identity b") auto
    then have "is_admitted_verification_key ib = is_admitted_verification_key ia"
      by (simp add: is_admitted_verification_key_def fun_eq_iff)
    then show ?thesis unfolding pulse_visible_to_def g Some b(1) option.case by (simp only:)
  qed
qed

lemma authenticate_http_trust:
  "trust_config (fst (authenticate_http_method L env relay headers verb path payload)) = trust_config relay"
proof -
  have "map_option ia_peer_trust (lr_identity (fst (authenticate_http_method L env relay headers verb path payload)))
    = map_option ia_peer_trust (lr_identity relay)"
    using authenticate_keeps_trust [of L "he_io env"]
    by (auto simp: authenticate_http_method_def split: option.split sum.split prod.split) (metis fst_conv)+
  moreover have "lr_governance (fst (authenticate_http_method L env relay headers verb path payload)) = lr_governance relay"
    by (subst authenticate_http_relay) simp
  ultimately show ?thesis by (simp add: trust_config_def)
qed

lemma authenticate_http_sessions:
  "lr_sessions (fst (authenticate_http_method L env relay headers verb path payload)) = lr_sessions relay"
  by (subst authenticate_http_relay) simp

lemma upload_proj:
  assumes auth: "\<And>relay verb path payload.
      g (fst (authenticate_http_method L env relay headers verb path payload)) = g relay"
    and art: "\<And>relay files. g (relay\<lparr>lr_artifacts := files\<rparr>) = g relay"
  shows "g (fst (artifact_upload L env relay headers b)) = g relay"
  by (auto simp: artifact_upload_def authenticate_http_def Let_def case_prod_unfold art
      intro!: try_step_proj [where g = g] auth split: option.split)

lemma router_trust: "trust_config (fst (router L W env relay headers req)) = trust_config relay"
proof (cases "\<exists>b. req = PostArtifact b")
  case True
  then show ?thesis
    using upload_proj [where g = trust_config, OF authenticate_http_trust]
    by (auto simp: trust_config_def)
qed (use router_proj [OF config_trust authenticate_http_trust] in blast)

lemma router_sessions: "lr_sessions (fst (router L W env relay headers req)) = lr_sessions relay"
proof (cases "\<exists>b. req = PostArtifact b")
  case True
  then show ?thesis using upload_proj [where g = lr_sessions, OF authenticate_http_sessions] by auto
qed (use router_proj [OF config_sessions authenticate_http_sessions] in blast)

text \<open>An event that may be shown to a connection.\<close>

definition may_see :: "local_relay \<Rightarrow> ws_conn \<Rightarrow> event \<Rightarrow> bool" where
  "may_see relay c e \<longleftrightarrow> lr_identity relay = None
     \<or> (\<exists>p. wi_principal (wc_identity c) = Some p
          \<and> (authorize_event_delivery p LiveDelivery e = Allowed
             \<or> (ev_kind e \<in> {20700, 20701} \<and> pulse_visible_to relay (Some p))))"

lemma trust_identity: "trust_config a = trust_config b \<Longrightarrow> lr_identity a = None \<longleftrightarrow> lr_identity b = None"
  by (auto simp: trust_config_def)

lemma may_see_trust:
  "trust_config a = trust_config b \<Longrightarrow> wc_identity c = wc_identity c' \<Longrightarrow> may_see a c e = may_see b c' e"
  using trust_identity [of a b] pulse_visible_trust [of a b] by (simp add: may_see_def)

lemma delivery_operation: "authorize_event_delivery p operation e = authorize_event_delivery p operation' e"
  by (simp add: authorize_event_delivery_def)

lemma live_visible_may_see: "live_visible relay c e \<Longrightarrow> may_see relay c e"
proof (cases "lr_identity relay")
  case (Some ia)
  assume v: "live_visible relay c e"
  show ?thesis
  proof (cases "ev_kind e \<in> {20700, 20701}")
    case True
    then have "pulse_visible_to relay (wi_principal (wc_identity c))"
      using v by (auto simp: live_visible_def event_kind_u32_def kind_defs split: if_splits)
    with True Some show ?thesis
      by (cases "wi_principal (wc_identity c)") (auto simp: may_see_def pulse_visible_to_def)
  next
    case False
    then have "event_is_visible relay (wi_principal (wc_identity c)) LiveDelivery e"
      using v by (auto simp: live_visible_def event_kind_u32_def kind_defs)
    with Some show ?thesis
      by (cases "wi_principal (wc_identity c)"; cases "authorize_event_delivery (the (wi_principal (wc_identity c))) LiveDelivery e")
        (auto simp: may_see_def event_is_visible_def authorize_local_event_def)
  qed
qed (simp add: may_see_def)

lemma query_for_may_see:
  assumes "relay_reachable L relay" "sign_faithful L"
    and "query_for L now relay (wi_principal (wc_identity c)) operation filters = (relay', Inr es)" "e \<in> set es"
  shows "may_see relay c e"
proof (cases "lr_identity relay")
  case (Some ia)
  let ?cfs = "map (\<lambda>f. \<lparr>cf_filter = f, cf_before_id = None\<rparr>) filters"
  obtain p where p: "wi_principal (wc_identity c) = Some p"
    and d: "authorize_event_delivery p operation e = Allowed
      \<or> (pulse_visible_to relay (Some p) \<and> map_option cp_event (current_pulse L now relay) = Some e)"
    using query_for_cursors_disclosed [OF assms(1) Some assms(3) [unfolded query_for_def] assms(4)] by auto
  have "ev_kind e = 20700" if shown: "map_option cp_event (current_pulse L now relay) = Some e"
  proof -
    obtain pulse where pulse: "current_pulse L now relay = Some pulse" "cp_event pulse = e" using shown by auto
    show ?thesis
      by (rule current_pulse_signed [OF pulse(1)])
        (use assms(2) pulse(2) in \<open>auto simp: sign_faithful_def kind_defs\<close>)
  qed
  with d p delivery_operation [of p operation e LiveDelivery] show ?thesis by (auto simp: may_see_def)
qed (simp add: may_see_def)

section \<open>Invariants of the service\<close>

lemma handle_ws_auth_shows:
  assumes "handle_ws_auth L env relay c parts = (relay', c', alive)"
    and "\<forall>e \<in> sent_events c. may_see relay c e" and "relay_reachable L relay"
  shows "(\<forall>e \<in> sent_events c'. may_see relay' c' e) \<and> trust_config relay' = trust_config relay
    \<and> relay_reachable L relay'"
  using assms(1)
proof (cases rule: handle_ws_auth_cases)
  case refused
  have "may_see relay c' e = may_see relay c e" for e
    using refused(2) by (intro may_see_trust) (simp_all add: same_but_sink_def)
  with refused assms(2,3) show ?thesis by auto
next
  case (denied adapter adapter')
  have t: "trust_config relay' = trust_config relay" using denied(1,2,3) by (simp add: trust_config_def)
  have "may_see relay' c' e = may_see relay c e" for e
    using denied(4) t by (intro may_see_trust) (simp_all add: same_but_sink_def)
  with denied assms(2,3) t show ?thesis by (auto intro: relay_reachable.authenticated)
next
  case (admitted adapter adapter' caller c1)
  have t: "trust_config relay' = trust_config relay" using admitted(1,2,4) by (simp add: trust_config_def)
  have "sent_events c = {}" using assms(2) admitted(1,3) by (auto simp: may_see_def)
  moreover have "relay_reachable L relay'"
    using relay_reachable.authenticated [OF assms(3), of adapter']
      relay_reachable.connected [OF relay_reachable.authenticated [OF assms(3), of adapter']]
    by (auto simp: admitted(4) split: option.split)
  ultimately show ?thesis using admitted(7) t by auto
qed

lemma send_json_shows:
  assumes "send_json c frame = (c', alive)" "\<And>i e. frame \<noteq> EventFrame i e"
    and "\<forall>e \<in> sent_events c. may_see relay c e" "trust_config relay' = trust_config relay"
  shows "\<forall>e \<in> sent_events c'. may_see relay' c' e"
proof -
  have "may_see relay' c' e = may_see relay c e" for e
    using send_json_sinkD [OF assms(1)] assms(4) by (intro may_see_trust) (simp_all add: same_but_sink_def)
  moreover have "sent_events c' \<subseteq> sent_events c" using send_json_events [OF assms(1)] assms(2) by auto
  ultimately show ?thesis using assms(3) by blast
qed

lemma handle_ws_event_shows:
  assumes "handle_ws_event L env relay c parts = (relay', c', alive)"
    and "\<forall>e \<in> sent_events c. may_see relay c e" and "relay_reachable L relay"
  shows "(\<forall>e \<in> sent_events c'. may_see relay' c' e) \<and> relay_reachable L relay'"
proof -
  have t: "trust_config relay' = trust_config relay"
    using handle_ws_event_keeps [OF assms(1)] config_trust by blast
  have r: "relay_reachable L r1" if "submit_from L env1 relay e caller = (r1, w)" for env1 e caller r1 w
    using relay_reachable.submitted [OF assms(3), of env1 e caller] that by simp
  obtain frame where "send_json c frame = (c', alive)" "\<And>i e. frame \<noteq> EventFrame i e" "relay_reachable L relay'"
    using assms(1,3) unfolding handle_ws_event_def Let_def
    by (auto split: option.splits sum.splits prod.splits dest!: r)
  with send_json_shows [OF _ _ assms(2) t] show ?thesis by blast
qed

lemma handle_ws_req_shows:
  assumes "handle_ws_req L env relay c parts = (relay', c', alive)"
    and "\<forall>e \<in> sent_events c. may_see relay c e" and "relay_reachable L relay" "sign_faithful L"
  shows "(\<forall>e \<in> sent_events c'. may_see relay' c' e) \<and> relay_reachable L relay'"
proof -
  have r: "relay_reachable L relay'"
    using assms(1) by (rule handle_ws_req_relay [OF _ assms(3)])
  show ?thesis
    using assms(1)
  proof (cases rule: handle_ws_req_cases)
    case refused
    have "may_see relay' c' e = may_see relay c e" for e
      using refused config_trust by (intro may_see_trust) (simp_all add: same_but_sink_def)
    with refused assms(2) r show ?thesis by blast
  next
    case (subscribed i filters historical c1)
    have "may_see relay' c' e = may_see relay c e" for e
      using subscribed(4,5) config_trust [OF query_for_configD [OF subscribed(3)]]
      by (intro may_see_trust) (simp_all add: same_but_sink_def)
    with subscribed(6) assms(2) r query_for_may_see [OF assms(3,4) subscribed(3)] show ?thesis by blast
  qed
qed

lemma handle_client_message_shows:
  assumes "handle_client_message L env relay c m = (relay', c', alive)"
    and "\<forall>e \<in> sent_events c. may_see relay c e" and "relay_reachable L relay" "sign_faithful L" "conn_ok c"
  shows "(\<forall>e \<in> sent_events c'. may_see relay' c' e) \<and> trust_config relay' = trust_config relay
    \<and> relay_reachable L relay'"
  using assms(1)
proof (cases rule: handle_client_message_cases)
  case (auth parts)
  then show ?thesis by (rule handle_ws_auth_shows [OF _ assms(2,3)])
next
  case (event parts)
  then show ?thesis
    using handle_ws_event_shows [OF event assms(2,3)] handle_ws_event_keeps [OF event] config_trust by blast
next
  case (req parts)
  then show ?thesis
    using handle_ws_req_shows [OF req assms(2,3,4)] handle_ws_req_keeps [OF req assms(5)] config_trust by blast
next
  case (close parts)
  have "may_see relay' c' e = may_see relay c e" for e
    using close handle_ws_close_same [of c parts] by (intro may_see_trust) simp_all
  moreover have "sent_events c' = sent_events c" using close handle_ws_close_same [of c parts] by (simp add: sent_events_def)
  ultimately show ?thesis using close(2) assms(2,3) by simp
next
  case (sent frame)
  then show ?thesis using send_json_shows [OF sent(2,3) assms(2), of relay] assms(3) by simp
next
  case idle
  with assms(2,3) show ?thesis by simp
qed

lemma conn_step_keeps:
  assumes "conn_step L relay c relay' c' alive" "conn_ok c"
  shows "conn_ok c' \<and> leases_agree relay c relay' c'"
  using assms(1)
proof cases
  case (message env m)
  then show ?thesis by (rule handle_client_message_keeps [OF _ assms(2)])
next
  case (live e now)
  then have "same_but_sink c c'" using deliver_live_sink [of c L now relay e "wc_subscriptions c"]
    by (simp add: receive_live_def)
  with live(1) conn_ok_sink [OF _ assms(2)] sink_leases_agree show ?thesis by simp
next
  case (lagged skipped)
  then have "same_but_sink c c'" by (auto simp: receive_lagged_def dest: send_json_sinkD)
  with lagged(1) conn_ok_sink [OF _ assms(2)] sink_leases_agree show ?thesis by simp
qed

lemma conn_step_shows:
  assumes "conn_step L relay c relay' c' alive" "conn_ok c"
    and "\<forall>e \<in> sent_events c. may_see relay c e" and "relay_reachable L relay" "sign_faithful L"
  shows "(\<forall>e \<in> sent_events c'. may_see relay' c' e) \<and> trust_config relay' = trust_config relay
    \<and> relay_reachable L relay'"
  using assms(1)
proof cases
  case (message env m)
  then show ?thesis by (rule handle_client_message_shows [OF _ assms(3,4,5,2)])
next
  case (live e now)
  let ?d = "deliver_live L now relay c e (wc_subscriptions c)"
  have c': "c' = fst ?d" using live(3) by (simp add: receive_live_def)
  have "may_see relay c' x = may_see relay c x" for x
    using deliver_live_sink [of c L now relay e "wc_subscriptions c"] c'
    by (intro may_see_trust) (simp_all add: same_but_sink_def)
  then show ?thesis
    using deliver_live_events [of L now relay c e "wc_subscriptions c"] live(1) c' assms(3,4)
      live_visible_may_see [of relay c e] by auto
next
  case (lagged skipped)
  then show ?thesis
    using send_json_shows [of c _ c' alive relay relay] assms(3,4) by (simp add: receive_lagged_def)
qed

definition lease_of :: "ws_conn \<Rightarrow> pubkey option" where
  "lease_of c = wi_session_lease (wc_identity c)"

definition service_ok :: "nostr_lib \<Rightarrow> local_relay \<Rightarrow> ws_conn list \<Rightarrow> bool" where
  "service_ok L relay conns \<longleftrightarrow> relay_reachable L relay
     \<and> (\<forall>c \<in> set conns. conn_ok c \<and> (\<forall>e \<in> sent_events c. may_see relay c e))
     \<and> session_leases (lr_sessions relay) = mset (List.map_filter lease_of conns)"

lemma map_filter_append: "List.map_filter f (xs @ ys) = List.map_filter f xs @ List.map_filter f ys"
  by (induction xs) (auto simp: List.map_filter_simps split: option.split)

lemma lease_mset:
  "mset (List.map_filter lease_of (xs @ c # ys))
    = (case lease_of c of None \<Rightarrow> {#} | Some p \<Rightarrow> {#p#}) + mset (List.map_filter lease_of (xs @ ys))"
  by (cases "lease_of c") (simp_all add: map_filter_append List.map_filter_simps)

lemma session_end_ok:
  assumes "service_ok L relay (xs @ c # ys)"
  shows "service_ok L (session_end relay c) (xs @ ys)"
proof -
  have ok: "sessions_ok (lr_sessions relay)"
    using assms relay_reachable_ok by (auto simp: service_ok_def relay_ok_def)
  have r: "relay_reachable L (session_end relay c)"
    using assms by (auto simp: service_ok_def session_end_def split: option.split intro: relay_reachable.disconnected)
  have t: "may_see (session_end relay c) d e = may_see relay d e" for d e
    by (intro may_see_trust) (simp_all add: session_end_def trust_config_def split: option.split)
  have "session_leases (lr_sessions (session_end relay c)) = mset (List.map_filter lease_of (xs @ ys))"
    using assms sessions.drop_leases [OF ok] unfolding service_ok_def lease_mset
    by (auto simp: session_end_def lease_of_def split: option.splits)
  with assms r t show ?thesis by (auto simp: service_ok_def)
qed

lemma conn_step_service:
  assumes "service_ok L relay (xs @ c # ys)" "conn_step L relay c relay' c' alive" "sign_faithful L"
  shows "service_ok L relay' (xs @ c' # ys)"
proof -
  have c: "conn_ok c" "\<forall>e \<in> sent_events c. may_see relay c e" "relay_reachable L relay"
    using assms(1) by (auto simp: service_ok_def)
  have ok: "sessions_ok (lr_sessions relay)"
    using c(3) relay_reachable_ok by (auto simp: relay_ok_def)
  note k = conn_step_keeps [OF assms(2) c(1)]
  note s = conn_step_shows [OF assms(2) c assms(3)]
  have m: "may_see relay' d e = may_see relay d e" for d e
    using s by (intro may_see_trust) simp_all
  have "\<forall>d \<in> set xs \<union> set ys. conn_ok d \<and> (\<forall>e \<in> sent_events d. may_see relay' d e)"
    using assms(1) by (simp add: service_ok_def m)
  then have conns: "\<forall>d \<in> set (xs @ c' # ys). conn_ok d \<and> (\<forall>e \<in> sent_events d. may_see relay' d e)"
    using k s by simp
  have "session_leases (lr_sessions relay') = mset (List.map_filter lease_of (xs @ c' # ys))"
  proof -
    have l: "session_leases (lr_sessions relay) = mset (List.map_filter lease_of (xs @ c # ys))"
      using assms(1) by (simp add: service_ok_def)
    consider "lr_sessions relay' = lr_sessions relay" "lease_of c' = lease_of c"
      | pubkey where "lease_of c = None" "lease_of c' = Some pubkey"
        "lr_sessions relay' = session_enter (lr_sessions relay) pubkey"
      using k by (auto simp: leases_agree_def lease_of_def)
    then show ?thesis
    proof cases
      case 1
      then show ?thesis using l by (simp add: lease_mset)
    next
      case 2
      then show ?thesis using l sessions.enter_leases [OF ok, of pubkey] by (simp add: lease_mset)
    qed
  qed
  with conns s show ?thesis unfolding service_ok_def by blast
qed

lemma session_start_ok:
  assumes "session_start relay challenge audience room = (c, alive)"
  shows "conn_ok c" "sent_events c = {}" "lease_of c = None"
  using assms
  by (auto simp: session_start_def conn_ok_def sent_events_def lease_of_def send_json_def Let_def
      split: option.splits if_splits)

lemma service_invariant:
  assumes "service L W relay conns" "sign_faithful L"
  shows "service_ok L relay conns"
  using assms(1)
proof (induction rule: service.induct)
  case (start st policy identity artifacts governance keys)
  then show ?case
    using relay_reachable.opened [OF start]
    by (simp add: service_ok_def open_governed_with_keys_def session_leases_def List.map_filter_simps)
next
  case (request relay conns env headers req)
  have "may_see (fst (router L W env relay headers req)) c e = may_see relay c e" for c e
    using router_trust by (intro may_see_trust) simp_all
  with request.IH show ?case by (simp add: service_ok_def router_reachable router_sessions)
next
  case (connect relay conns challenge audience room c)
  note c = session_start_ok [OF connect(2)]
  have l: "mset (List.map_filter lease_of (conns @ [c])) = mset (List.map_filter lease_of conns)"
    unfolding lease_mset c(3) by simp
  have ih: "relay_reachable L relay" "\<forall>c \<in> set conns. conn_ok c \<and> (\<forall>e \<in> sent_events c. may_see relay c e)"
    "session_leases (lr_sessions relay) = mset (List.map_filter lease_of conns)"
    using connect.IH unfolding service_ok_def by blast+
  have "\<forall>d \<in> set (conns @ [c]). conn_ok d \<and> (\<forall>e \<in> sent_events d. may_see relay d e)"
    using ih(2) c(1,2) by auto
  then show ?case unfolding service_ok_def l using ih(1,3) by blast
next
  case (step relay xs c ys relay' c')
  show ?case by (rule conn_step_service [OF step.IH step.hyps(2) assms(2)])
next
  case (ended relay xs c ys relay' c')
  show ?case by (rule session_end_ok [OF conn_step_service [OF ended.IH ended.hyps(2) assms(2)]])
next
  case (disconnect relay xs c ys)
  show ?case by (rule session_end_ok [OF disconnect.IH])
qed

section \<open>Properties\<close>

definition ws_proof :: event where
  "ws_proof = sample_event ''e7'' ''bob'' 100 22242
     [Tag ''relay'' [''ws://relay/''], Tag ''challenge'' [''c0'']] ''''"

definition ws_lib :: nostr_lib where
  "ws_lib = sample_lib\<lparr>
     l_json_from_str := (\<lambda>s. if s = ''auth'' then Inr (JArray [JString ''AUTH'', JString ''e7''])
       else if s = ''req'' then Inr (JArray [JString ''REQ'', JString ''s1'', JObject []]) else Inl ''syntax''),
     l_event_from_value := (\<lambda>v. if v = JString ''e7'' then Inr ws_proof else Inl ''type'')\<rparr>"

definition ws_env0 :: ws_env where
  "ws_env0 = \<lparr>we_now = 120, we_io = IoOk, we_submit = calm_env\<rparr>"

definition ws_relay0 :: local_relay where
  "ws_relay0 = open_governed_with_keys (accept_all ws_lib (empty_store None) [(sample_env, note_a)])
     disabled_admit (Some adapter_new) None None None"

definition ws_opened :: ws_conn where
  "ws_opened = fst (session_start ws_relay0 ''c0'' (Some ''ws://relay/'') 10)"

definition ws_authenticated :: "local_relay \<times> ws_conn \<times> bool" where
  "ws_authenticated = handle_client_message ws_lib ws_env0 ws_relay0 ws_opened (TextMessage ''auth'')"

definition ws_subscribed :: "local_relay \<times> ws_conn \<times> bool" where
  "ws_subscribed = handle_client_message ws_lib ws_env0 (fst ws_authenticated) (fst (snd ws_authenticated))
     (TextMessage ''req'')"

lemma ws_lib_sign: "sign_faithful ws_lib"
  by (simp add: sign_faithful_def ws_lib_def sample_lib_def sample_event_def)

lemma ws_subscribed_service: "service ws_lib sample_wire (fst ws_subscribed) [fst (snd ws_subscribed)]"
proof -
  have start: "service ws_lib sample_wire ws_relay0 []"
    unfolding ws_relay0_def by (rule service.start [OF filled_store_reachable])
  have "snd (session_start ws_relay0 ''c0'' (Some ''ws://relay/'') 10)" by code_simp
  then have "session_start ws_relay0 ''c0'' (Some ''ws://relay/'') 10 = (ws_opened, True)"
    unfolding ws_opened_def by (metis prod.collapse)
  from service.connect [OF start this] have opened: "service ws_lib sample_wire ws_relay0 ([] @ ws_opened # [])" by simp
  have "snd (snd ws_authenticated)" by code_simp
  then have "handle_client_message ws_lib ws_env0 ws_relay0 ws_opened (TextMessage ''auth'')
    = (fst ws_authenticated, fst (snd ws_authenticated), True)"
    unfolding ws_authenticated_def by (metis prod.collapse)
  from service.step [OF opened conn_step.message [OF this]]
  have auth: "service ws_lib sample_wire (fst ws_authenticated) ([] @ fst (snd ws_authenticated) # [])" .
  have "snd (snd ws_subscribed)" by code_simp
  then have "handle_client_message ws_lib ws_env0 (fst ws_authenticated) (fst (snd ws_authenticated))
      (TextMessage ''req'') = (fst ws_subscribed, fst (snd ws_subscribed), True)"
    unfolding ws_subscribed_def by (metis prod.collapse)
  from service.step [OF auth conn_step.message [OF this]] show ?thesis by simp
qed







end
