(* ===== verification/Replay_Protection.thy ===== *)
theory Replay_Protection
  imports Identity
begin

text \<open>
  No proof authenticates twice. The consumed-proof ledger forgets a proof ten minutes after
  its use, its file is rewritten never and may end in a torn record, and the relay may be
  restarted at any time; the theorem of this theory says that the freshness window of the two
  verifiers and the ledger together still admit each proof at most once.
\<close>

section \<open>What is assumed of event identifiers\<close>

text \<open>
  \<open>EventId::from_hex\<close> accepts 64 characters only, and the identifier of a verified event
  is the lowercase hex form that parses back to it.
\<close>

definition hex_ids :: "nostr_lib \<Rightarrow> bool" where
  "hex_ids L \<longleftrightarrow> (\<forall>s i. l_event_id_from_hex L s = Some i \<longrightarrow> length s = 64)
     \<and> (\<forall>e. verify_event L e = Inr () \<longrightarrow> l_event_id_from_hex L (ev_id e) = Some (ev_id e)
           \<and> (\<forall>c \<in> set (ev_id e). is_lower_hexdigit c))"

definition wf_id :: "nostr_lib \<Rightarrow> event_id \<Rightarrow> bool" where
  "wf_id L i \<longleftrightarrow> l_event_id_from_hex L i = Some i \<and> (\<forall>c \<in> set i. is_lower_hexdigit c)"

lemma hex_ids_length: "hex_ids L \<Longrightarrow> l_event_id_from_hex L s = Some i \<Longrightarrow> length s = 64"
  by (simp add: hex_ids_def)

lemma lower_hexdigit_byte:
  "is_lower_hexdigit c \<Longrightarrow> byte c \<noteq> 10 \<and> byte c \<noteq> 13 \<and> byte c \<noteq> 32"
  by (auto simp: is_lower_hexdigit_def is_ascii_digit_def)

lemma byte_space: "byte (CHR '' '') = 32"
  by (simp add: byte_def)

lemma show_nat_digits: "c \<in> set (show_nat n) \<Longrightarrow> is_ascii_digit c"
  using parse_digits_digits [OF parse_digits_show_nat] by blast

lemma digit_byte: "is_ascii_digit c \<Longrightarrow> byte c \<noteq> 10 \<and> byte c \<noteq> 13 \<and> byte c \<noteq> 32"
  by (auto simp: is_ascii_digit_def)

lemma wf_id_no_space: "wf_id L i \<Longrightarrow> CHR '' '' \<notin> set i"
  using lower_hexdigit_byte byte_space by (auto simp: wf_id_def)

lemma proof_record_bytes:
  assumes "wf_id L i" "c \<in> set (proof_record i now)"
  shows "byte c \<noteq> 10 \<and> byte c \<noteq> 13"
proof -
  consider "c \<in> set i" | "c = CHR '' ''" | "c \<in> set (show_nat now)"
    using assms(2) by (auto simp: proof_record_def)
  then show ?thesis
  proof cases
    case 1
    then show ?thesis using assms(1) lower_hexdigit_byte by (auto simp: wf_id_def)
  next
    case 2
    then show ?thesis by (simp add: byte_def)
  next
    case 3
    then show ?thesis using show_nat_digits digit_byte by blast
  qed
qed

lemma load_proof_record:
  "wf_id L i \<Longrightarrow> now \<le> u64_max \<Longrightarrow> load_line L m (proof_record i now) = Inr (m(i := Some now))"
  by (simp add: load_line_def proof_record_def split_once_append wf_id_no_space parse_show_nat)
    (simp add: wf_id_def)

lemma load_lines_append:
  "load_lines L m (xs @ ys) = and_then (load_lines L m xs) (\<lambda>m. load_lines L m ys)"
proof (induction xs arbitrary: m)
  case (Cons x xs)
  then show ?case by (cases "load_line L m x") auto
qed simp

section \<open>Torn records\<close>

text \<open>
  What may stand behind the last complete line of the file, relative to the proofs accepted so
  far (with their times) and the time: no space yet, or the full identifier of a proof whose
  acceptances, if any, are out of the retention period.
\<close>

definition torn :: "nostr_lib \<Rightarrow> (event_id \<times> nat) list \<Rightarrow> nat \<Rightarrow> string \<Rightarrow> bool" where
  "torn L acc t J \<longleftrightarrow> (\<forall>c \<in> set J. byte c \<noteq> 10) \<and>
     (CHR '' '' \<notin> set J \<or>
      (\<exists>a b. J = a @ CHR '' '' # b \<and> CHR '' '' \<notin> set a \<and> 64 \<le> length a
         \<and> (\<forall>i t0. l_event_id_from_hex L a = Some i \<longrightarrow> (i, t0) \<in> set acc \<longrightarrow> t0 + 600 < t)))"

lemma torn_mono: "torn L acc t J \<Longrightarrow> t \<le> t' \<Longrightarrow> set acc' \<subseteq> set acc \<Longrightarrow> torn L acc' t' J"
proof -
  assume a: "torn L acc t J" "t \<le> t'" "set acc' \<subseteq> set acc"
  have "\<forall>i t0. l_event_id_from_hex L s = Some i \<longrightarrow> (i, t0) \<in> set acc' \<longrightarrow> t0 + 600 < t'"
    if "\<forall>i t0. l_event_id_from_hex L s = Some i \<longrightarrow> (i, t0) \<in> set acc \<longrightarrow> t0 + 600 < t" for s
    using that a(2,3) by fastforce
  with a(1) show ?thesis unfolding torn_def by blast
qed

lemma torn_Nil [simp]: "torn L acc t []"
  by (simp add: torn_def)

lemma torn_joined_fails:
  assumes "hex_ids L" "wf_id L i" "torn L acc t J" "J \<noteq> []"
  shows "load_line L m (J @ proof_record i now) \<noteq> Inr m'"
proof (cases "CHR '' '' \<in> set J")
  case False
  have len: "length i = 64" using assms(1,2) by (simp add: wf_id_def hex_ids_def)
  then have "l_event_id_from_hex L (J @ i) = None"
    using hex_ids_length [OF assms(1), of "J @ i"] assms(4)
    by (cases "l_event_id_from_hex L (J @ i)") auto
  moreover have "split_once (J @ proof_record i now) (CHR '' '') = Some (J @ i, show_nat now)"
    using False wf_id_no_space [OF assms(2)]
      split_once_append [of "CHR '' ''" "J @ i" "show_nat now"] by (simp add: proof_record_def)
  ultimately show ?thesis by (simp add: load_line_def)
next
  case True
  then obtain a b where J: "J = a @ CHR '' '' # b" "CHR '' '' \<notin> set a"
    using assms(3) by (auto simp: torn_def)
  have "CHR '' '' \<in> set (b @ proof_record i now)" by (simp add: proof_record_def)
  then have "parse_uint u64_max (b @ proof_record i now) = None"
    using parse_uint_no_space [of u64_max "b @ proof_record i now"]
    by (cases "parse_uint u64_max (b @ proof_record i now)") blast+
  moreover have "split_once (J @ proof_record i now) (CHR '' '') = Some (a, b @ proof_record i now)"
    using J split_once_append [of "CHR '' ''" a "b @ proof_record i now"] by simp
  ultimately show ?thesis by (cases "l_event_id_from_hex L a") (simp_all add: load_line_def)
qed

lemma torn_loads:
  assumes "torn L acc t J" "load_line L m J = Inr m'"
  shows "\<exists>i c. m' = m(i := Some c) \<and> (\<forall>t0. (i, t0) \<in> set acc \<longrightarrow> t0 + 600 < t)"
proof -
  obtain a b i c where p: "split_once J (CHR '' '') = Some (a, b)"
    "l_event_id_from_hex L a = Some i" "m' = m(i := Some c)"
    using assms(2) by (auto simp: load_line_def result_simps)
  then have "CHR '' '' \<in> set J" using split_once_None [of J "CHR '' ''"] by auto
  then obtain a' b' where t: "J = a' @ CHR '' '' # b'" "CHR '' '' \<notin> set a'"
    "\<forall>i t0. l_event_id_from_hex L a' = Some i \<longrightarrow> (i, t0) \<in> set acc \<longrightarrow> t0 + 600 < t"
    using assms(1) by (auto simp: torn_def)
  then have "a' = a" using split_once_append [of "CHR '' ''" a' b'] p(1) by simp
  with t p show ?thesis by blast
qed

lemma torn_extend:
  assumes "hex_ids L" "wf_id L i" "torn L acc t J" "t \<le> now"
    and "\<forall>t0. (i, t0) \<in> set acc \<longrightarrow> t0 + 600 < now"
  shows "torn L acc now (J @ take n (proof_record i now))"
proof -
  have nl: "\<forall>c \<in> set (J @ take n (proof_record i now)). byte c \<noteq> 10"
    using assms(3) proof_record_bytes [OF assms(2)] by (auto simp: torn_def dest: in_set_takeD)
  have len: "length i = 64" using assms(1,2) by (simp add: wf_id_def hex_ids_def)
  consider a b where "J = a @ CHR '' '' # b" "CHR '' '' \<notin> set a" "64 \<le> length a"
      "\<forall>i t0. l_event_id_from_hex L a = Some i \<longrightarrow> (i, t0) \<in> set acc \<longrightarrow> t0 + 600 < t"
    | "CHR '' '' \<notin> set J" "n \<le> 64" | "CHR '' '' \<notin> set J" "64 < n"
    using assms(3) by (fastforce simp: torn_def)
  then show ?thesis
  proof cases
    case 1
    then have "J @ take n (proof_record i now) = a @ CHR '' '' # (b @ take n (proof_record i now))"
      by simp
    moreover have "\<forall>i t0. l_event_id_from_hex L a = Some i \<longrightarrow> (i, t0) \<in> set acc \<longrightarrow> t0 + 600 < now"
      using 1(4) assms(4) by (meson less_le_trans)
    ultimately show ?thesis using 1(2,3) nl unfolding torn_def by blast
  next
    case 2
    then have "take n (proof_record i now) = take n i" using len by (simp add: proof_record_def)
    then have "CHR '' '' \<notin> set (J @ take n (proof_record i now))"
      using 2(1) wf_id_no_space [OF assms(2)] by (auto dest: in_set_takeD)
    with nl show ?thesis unfolding torn_def by blast
  next
    case 3
    then have "take n (proof_record i now) = i @ CHR '' '' # take (n - 65) (show_nat now)"
      using len by (simp add: proof_record_def take_Cons')
    then have J: "J @ take n (proof_record i now) = (J @ i) @ CHR '' '' # take (n - 65) (show_nat now)"
      by simp
    have "t0 + 600 < now" if "l_event_id_from_hex L (J @ i) = Some i'" "(i', t0) \<in> set acc" for i' t0
    proof -
      have "J = []" using hex_ids_length [OF assms(1) that(1)] len by simp
      then have "i' = i" using that(1) assms(2) by (simp add: wf_id_def)
      then show ?thesis using that(2) assms(5) by blast
    qed
    moreover have "CHR '' '' \<notin> set (J @ i)" using 3 wf_id_no_space [OF assms(2)] by simp
    moreover have "64 \<le> length (J @ i)" using len by simp
    ultimately show ?thesis using nl J unfolding torn_def by blast
  qed
qed

section \<open>The ledger invariant\<close>

definition covers :: "(event_id \<times> nat) list \<Rightarrow> nat \<Rightarrow> (event_id \<Rightarrow> nat option) \<Rightarrow> bool" where
  "covers acc t m \<longleftrightarrow> (\<forall>(i, t0) \<in> set acc. (\<exists>c. m i = Some c \<and> t0 \<le> c \<and> c \<le> t) \<or> t0 + 600 < t)"

definition store_inv :: "nostr_lib \<Rightarrow> (event_id \<times> nat) list \<Rightarrow> nat \<Rightarrow> string \<Rightarrow> bool" where
  "store_inv L acc t content \<longleftrightarrow> (\<exists>F J. content = F @ J \<and> ends_line F \<and> torn L acc t J
     \<and> (\<forall>m. load_lines L (\<lambda>_. None) (lines F) = Inr m \<longrightarrow> covers acc t m))"

definition ledger_inv :: "nostr_lib \<Rightarrow> proof_ledger \<Rightarrow> (event_id \<times> nat) list \<Rightarrow> nat \<Rightarrow> bool" where
  "ledger_inv L ledger acc t \<longleftrightarrow> covers acc t (pl_consumed ledger)
     \<and> (\<forall>content. pl_store ledger = Some content \<longrightarrow> store_inv L acc t content)"

lemma coversD:
  "covers acc t m \<Longrightarrow> (i, t0) \<in> set acc \<Longrightarrow> (\<exists>c. m i = Some c \<and> t0 \<le> c \<and> c \<le> t) \<or> t0 + 600 < t"
  by (auto simp: covers_def)

lemma covers_mono: "covers acc t m \<Longrightarrow> t \<le> t' \<Longrightarrow> set acc' \<subseteq> set acc \<Longrightarrow> covers acc' t' m"
  by (fastforce simp: covers_def)

lemma covers_insert:
  assumes "covers acc t m" "t \<le> now"
  shows "covers ((i, now) # acc) now (m(i := Some now))"
  using assms by (fastforce simp: covers_def)

lemma covers_insert_expired:
  "covers acc t m \<Longrightarrow> \<forall>t0. (i, t0) \<in> set acc \<longrightarrow> t0 + 600 < t \<Longrightarrow> covers acc t (m(i := Some c))"
  by (fastforce simp: covers_def)

lemma covers_retain:
  assumes "covers acc t m" "t \<le> now" "now + 600 \<le> u64_max"
  shows "covers acc now (retain_fresh now m)"
  unfolding covers_def
proof (clarify)
  fix i t0 assume "(i, t0) \<in> set acc" and n: "\<not> t0 + 600 < now"
  then obtain c where c: "m i = Some c" "t0 \<le> c" "c \<le> t"
    using coversD [OF assms(1)] assms(2) by fastforce
  then have "wrapping_add c PROOF_RETENTION_SECS = c + 600"
    using assms(2,3) by (simp add: wrapping_add_def PROOF_RETENTION_SECS_def)
  with c n assms(2) show "\<exists>c. retain_fresh now m i = Some c \<and> t0 \<le> c \<and> c \<le> now"
    by (auto simp: retain_fresh_def)
qed

lemma store_inv_mono:
  "store_inv L acc t x \<Longrightarrow> t \<le> t' \<Longrightarrow> set acc' \<subseteq> set acc \<Longrightarrow> store_inv L acc' t' x"
proof -
  assume a: "store_inv L acc t x" "t \<le> t'" "set acc' \<subseteq> set acc"
  then obtain F J where x: "x = F @ J" "ends_line F" "torn L acc t J"
    "\<forall>m. load_lines L (\<lambda>_. None) (lines F) = Inr m \<longrightarrow> covers acc t m"
    by (auto simp: store_inv_def)
  have "torn L acc' t' J" using x(3) a(2,3) by (rule torn_mono)
  moreover have "\<forall>m. load_lines L (\<lambda>_. None) (lines F) = Inr m \<longrightarrow> covers acc' t' m"
    using x(4) covers_mono a(2,3) by blast
  ultimately show ?thesis using x(1,2) unfolding store_inv_def by blast
qed

lemma store_inv_append:
  assumes "hex_ids L" "wf_id L i" "store_inv L acc t x" "t \<le> now" "now \<le> u64_max"
  shows "store_inv L ((i, now) # acc) now (x @ proof_record i now @ [CHR 10])"
proof -
  obtain F J where x: "x = F @ J" "ends_line F" "torn L acc t J"
    "\<forall>m. load_lines L (\<lambda>_. None) (lines F) = Inr m \<longrightarrow> covers acc t m"
    using assms(3) by (auto simp: store_inv_def)
  let ?line = "J @ proof_record i now"
  have nl: "\<forall>c \<in> set ?line. byte c \<noteq> 10"
    using x(3) proof_record_bytes [OF assms(2)] by (auto simp: torn_def)
  have "strip_cr ?line = ?line"
    using proof_record_bytes [OF assms(2), of "last (proof_record i now)" now]
    by (simp add: strip_cr_def proof_record_def)
  then have lines: "lines (F @ ?line @ [CHR 10]) = lines F @ [?line]"
    using lines_append [OF x(2), of "?line @ [CHR 10]"] lines_line [OF nl] by simp
  have "covers ((i, now) # acc) now m'"
    if m': "load_lines L (\<lambda>_. None) (lines (F @ ?line @ [CHR 10])) = Inr m'" for m'
  proof -
    obtain m where m: "load_lines L (\<lambda>_. None) (lines F) = Inr m" "load_line L m ?line = Inr m'"
      using m' unfolding lines load_lines_append
      by (auto simp: result_simps proof_record_def)
    then have "J = []" using torn_joined_fails [OF assms(1,2) x(3)] by blast
    then have "m' = m(i := Some now)" using m(2) load_proof_record [OF assms(2,5), of m] by simp
    with x(4) m(1) assms(4) covers_insert show ?thesis by blast
  qed
  then show ?thesis unfolding store_inv_def
    by (intro exI [of _ "F @ ?line @ [CHR 10]"] exI [of _ "[]"]) (simp add: x(1) ends_line_def byte_def)
qed

lemma store_inv_torn:
  assumes "hex_ids L" "wf_id L i" "store_inv L acc t x" "t \<le> now" "now \<le> u64_max"
    and "\<forall>t0. (i, t0) \<in> set acc \<longrightarrow> t0 + 600 < now"
  shows "store_inv L acc now (x @ take n (proof_record i now @ [CHR 10]))"
proof (cases "n \<le> length (proof_record i now)")
  case True
  obtain F J where x: "x = F @ J" "ends_line F" "torn L acc t J"
    "\<forall>m. load_lines L (\<lambda>_. None) (lines F) = Inr m \<longrightarrow> covers acc t m"
    using assms(3) by (auto simp: store_inv_def)
  have "torn L acc now (J @ take n (proof_record i now))"
    by (rule torn_extend [OF assms(1,2) x(3) assms(4,6)])
  moreover have "\<forall>m. load_lines L (\<lambda>_. None) (lines F) = Inr m \<longrightarrow> covers acc now m"
    using x(4) covers_mono assms(4) by blast
  ultimately show ?thesis using x(1,2) True unfolding store_inv_def
    by (intro exI [of _ F] exI [of _ "J @ take n (proof_record i now)"]) simp
next
  case False
  then have "take n (proof_record i now @ [CHR 10]) = proof_record i now @ [CHR 10]" by simp
  with store_inv_append [OF assms(1-5)] store_inv_mono [of L "(i, now) # acc" now _ now acc]
  show ?thesis by (metis order_refl set_subset_Cons)
qed

lemma load_covers:
  assumes "store_inv L acc t x" "load_lines L (\<lambda>_. None) (lines x) = Inr m"
  shows "covers acc t m"
proof -
  obtain F J where x: "x = F @ J" "ends_line F" "torn L acc t J"
    "\<forall>m. load_lines L (\<lambda>_. None) (lines F) = Inr m \<longrightarrow> covers acc t m"
    using assms(1) by (auto simp: store_inv_def)
  have "lines x = lines F @ (if J = [] then [] else [J])"
    using lines_append [OF x(2), of J] lines_tail [of J] x(1,3) by (simp add: torn_def)
  then obtain m0 where m0: "load_lines L (\<lambda>_. None) (lines F) = Inr m0"
    "m = m0 \<or> J \<noteq> [] \<and> load_line L m0 J = Inr m"
    using assms(2) by (auto simp: load_lines_append result_simps split: if_splits)
  have "covers acc t m0" using m0(1) x(4) by blast
  then show ?thesis using m0(2) torn_loads [OF x(3), of m0 m] covers_insert_expired by blast
qed

lemma load_store_inv:
  assumes "hex_ids L" "load_lines L (\<lambda>_. None) (lines x) = Inr m"
  shows "store_inv L [] t x"
proof -
  obtain F J where x: "x = F @ J" "ends_line F" "\<forall>c \<in> set J. byte c \<noteq> 10"
    using split_last_line by blast
  have "torn L [] t J"
  proof (cases "CHR '' '' \<in> set J")
    case True
    have "lines x = lines F @ [J]"
      using lines_append [OF x(2), of J] lines_tail [OF x(3)] x(1) True by auto
    then obtain m0 where "load_line L m0 J = Inr m"
      using assms(2) True by (auto simp: load_lines_append result_simps split: if_splits)
    then obtain a b i where ab: "split_once J (CHR '' '') = Some (a, b)"
      "l_event_id_from_hex L a = Some i"
      by (auto simp: load_line_def result_simps)
    then have "J = a @ CHR '' '' # b" "CHR '' '' \<notin> set a" "64 \<le> length a"
      using split_once_Some hex_ids_length [OF assms(1)] by fastforce+
    with x(3) show ?thesis unfolding torn_def by auto
  qed (use x(3) in \<open>simp add: torn_def\<close>)
  then show ?thesis using x unfolding store_inv_def by (auto simp: covers_def)
qed

lemma ledger_load_inv:
  assumes "hex_ids L" "ledger_load L store = Inr ledger"
  shows "ledger_inv L ledger [] t"
proof -
  have "store_inv L [] t ''''" by (auto simp: store_inv_def ends_line_def covers_def)
  with assms load_store_inv [OF assms(1)] show ?thesis
    by (auto simp: ledger_inv_def ledger_load_def covers_def result_simps
        split: option.splits file_read.splits)
qed

lemma ledger_reload_inv:
  assumes "ledger_inv L ledger acc t" "pl_store ledger = Some x"
    and "ledger_load L (Some (Contents x)) = Inr ledger'"
  shows "ledger_inv L ledger' acc t"
proof -
  have s: "store_inv L acc t x" using assms(1,2) by (simp add: ledger_inv_def)
  obtain m where m: "load_lines L (\<lambda>_. None) (lines x) = Inr m"
    "ledger' = \<lparr>pl_consumed = m, pl_store = Some x\<rparr>"
    using assms(3) by (auto simp: ledger_load_def result_simps)
  show ?thesis using load_covers [OF s m(1)] s m(2) by (simp add: ledger_inv_def)
qed

lemma consume_inv:
  assumes "hex_ids L" "wf_id L i" "ledger_inv L ledger acc t" "t \<le> now" "now + 600 \<le> u64_max"
    and "consume io ledger i now = (ledger', r)"
  shows "if is_ok r then ledger_inv L ledger' ((i, now) # acc) now
      \<and> (\<forall>t0. (i, t0) \<in> set acc \<longrightarrow> t0 + 600 < now)
    else ledger_inv L ledger' acc now"
proof -
  let ?m = "retain_fresh now (pl_consumed ledger)"
  have c: "covers acc now ?m"
    using assms(3-5) by (auto simp: ledger_inv_def intro: covers_retain)
  have s: "store_inv L acc t x" if "pl_store ledger = Some x" for x
    using assms(3) that by (simp add: ledger_inv_def)
  show ?thesis
  proof (cases "?m i")
    case (Some k)
    then have "r = Inl (Denied ReplayDetected)" "ledger' = ledger\<lparr>pl_consumed := ?m\<rparr>"
      using assms(6) by (auto simp: consume_def Let_def)
    with c s store_inv_mono assms(4) show ?thesis by (auto simp: ledger_inv_def)
  next
    case None
    then have x: "\<forall>t0. (i, t0) \<in> set acc \<longrightarrow> t0 + 600 < now" using c by (fastforce simp: covers_def)
    have ins: "covers ((i, now) # acc) now (?m(i := Some now))" using covers_insert [OF c order_refl] .
    have u: "now \<le> u64_max" using assms(5) by simp
    show ?thesis
    proof (cases "pl_store ledger")
      case None
      with \<open>?m i = None\<close> assms(6) have "r = Inr ()"
        "ledger' = \<lparr>pl_consumed = ?m(i := Some now), pl_store = None\<rparr>"
        by (auto simp: consume_def Let_def)
      with ins x show ?thesis by (simp add: ledger_inv_def)
    next
      case (Some content)
      note app = store_inv_append [OF assms(1,2) s [OF Some] assms(4) u]
      note tear = store_inv_torn [OF assms(1,2) s [OF Some] assms(4) u x]
      show ?thesis
        using assms(6) \<open>?m i = None\<close> Some ins x c app tear
        by (cases io) (auto simp: consume_def Let_def ledger_inv_def)
    qed
  qed
qed

section \<open>Histories of the adapter\<close>

datatype auth_call =
    Authenticate local_evidence string
  | AuthenticatePeer local_peer_evidence string source_id

definition run_call ::
  "nostr_lib \<Rightarrow> io_outcome \<Rightarrow> identity_adapter \<Rightarrow> auth_call \<Rightarrow> nat \<Rightarrow> identity_adapter \<times> bool" where
  "run_call L io ia call now =
     (case call of
        Authenticate evidence audience \<Rightarrow>
          map_prod id is_ok (authenticate_at L io ia evidence audience now)
      | AuthenticatePeer evidence audience source \<Rightarrow>
          map_prod id is_ok (authenticate_peer_at L io ia evidence audience source now))"

fun proof_event :: "nostr_lib \<Rightarrow> auth_call \<Rightarrow> event option" where
  "proof_event L (Authenticate (Nip42Evidence e challenge) audience) = Some e"
| "proof_event L (Authenticate (Nip98Evidence json method body) audience) = ok (l_event_from_str L json)"
| "proof_event L (AuthenticatePeer evidence audience source) = Some (pe_event evidence)"

text \<open>
  The states of an adapter whose clock does not run backwards, with the proofs it has accepted
  and when, newest first: started from any loadable store, any calls with any file-system
  outcome, and restarts from the store file as the calls left it.
\<close>

inductive auth_run :: "nostr_lib \<Rightarrow> identity_adapter \<Rightarrow> (event \<times> nat) list \<Rightarrow> nat \<Rightarrow> bool" for L where
  started: "with_peer_trust_and_proof_store L trust store = Inr ia \<Longrightarrow> auth_run L ia [] t"
| refused: "auth_run L ia acc t \<Longrightarrow> t \<le> now \<Longrightarrow> run_call L io ia call now = (ia', False)
    \<Longrightarrow> auth_run L ia' acc now"
| accepted: "auth_run L ia acc t \<Longrightarrow> t \<le> now \<Longrightarrow> run_call L io ia call now = (ia', True)
    \<Longrightarrow> proof_event L call = Some e \<Longrightarrow> auth_run L ia' ((e, now) # acc) now"
| restarted: "auth_run L ia acc t \<Longrightarrow> pl_store (ia_ledger ia) = Some content
    \<Longrightarrow> with_peer_trust_and_proof_store L trust (Some (Contents content)) = Inr ia'
    \<Longrightarrow> auth_run L ia' acc t"

text \<open>
  One call either leaves the adapter alone, or consumed the identifier of a fresh, verified
  proof; it succeeds exactly when the consumption did.
\<close>

lemma run_call_cases:
  assumes "run_call L io ia call now = (ia', b)"
  obtains (untouched) "ia' = ia" "\<not> b"
  | (consumed) e ledger r where "proof_event L call = Some e" "verify_event L e = Inr ()"
      "abs_diff now (ev_created_at e) \<le> 60"
      "consume io (ia_ledger ia) (ev_id e) now = (ledger, r)" "ia' = ia\<lparr>ia_ledger := ledger\<rparr>"
      "b = is_ok r"
proof -
  have step: thesis
    if "proof_event L call = Some e" "verify_event L e = Inr ()" "abs_diff now (ev_created_at e) \<le> 60"
      "consume_proof io ia (ev_id e) now = (ia', r)" "b = is_ok r" for e r
    using consumed [of e _ r] that by (auto simp: consume_proof_def split: prod.splits)
  show thesis
  proof (cases call)
    case (AuthenticatePeer evidence audience source)
    then show thesis
      using assms untouched step [of "pe_event evidence"]
      by (auto simp: run_call_def authenticate_peer_at_def verify_nip42_accepts [of L _ _ _ _ "()"]
          split: option.splits sum.splits prod.splits)
        (auto simp: map_err_def verify_nip42_accepts split: sum.splits)
  next
    case (Authenticate evidence audience)
    show thesis
    proof (cases evidence)
      case (Nip42Evidence e challenge)
      with Authenticate show thesis
        using assms untouched step [of e]
        by (auto simp: run_call_def authenticate_at_def split: sum.splits prod.splits)
          (auto simp: map_err_def verify_nip42_accepts split: sum.splits)
    next
      case (Nip98Evidence json verb content)
      with Authenticate show thesis
        using assms untouched step
        by (auto simp: run_call_def authenticate_at_def split: sum.splits prod.splits if_splits)
          (auto simp: map_err_def verify_nip98_accepts split: sum.splits)
    qed
  qed
qed

definition ids_identify :: "nostr_lib \<Rightarrow> bool" where
  "ids_identify L \<longleftrightarrow> (\<forall>e e'. verify_event L e = Inr () \<longrightarrow> verify_event L e' = Inr ()
     \<longrightarrow> ev_id e = ev_id e' \<longrightarrow> e = e')"

definition accepted_ids :: "(event \<times> nat) list \<Rightarrow> (event_id \<times> nat) list" where
  "accepted_ids acc = map (\<lambda>(e, t0). (ev_id e, t0)) acc"

definition run_ok :: "nostr_lib \<Rightarrow> identity_adapter \<Rightarrow> (event \<times> nat) list \<Rightarrow> nat \<Rightarrow> bool" where
  "run_ok L ia acc t \<longleftrightarrow> ledger_inv L (ia_ledger ia) (accepted_ids acc) t
     \<and> (\<forall>(e, t0) \<in> set acc. verify_event L e = Inr () \<and> abs_diff t0 (ev_created_at e) \<le> 60)
     \<and> distinct (map (\<lambda>p. ev_id (fst p)) acc)"

lemma ledger_inv_mono: "ledger_inv L ledger acc t \<Longrightarrow> t \<le> now \<Longrightarrow> ledger_inv L ledger acc now"
  unfolding ledger_inv_def using covers_mono store_inv_mono by blast

lemma adapter_ledger:
  "with_peer_trust_and_proof_store L trust store = Inr ia \<Longrightarrow> ledger_load L store = Inr (ia_ledger ia)"
  by (auto simp: with_peer_trust_and_proof_store_def result_simps)

lemma run_call_ok:
  assumes L: "hex_ids L" "ids_identify L" and ok: "run_ok L ia acc t"
    and t: "t \<le> now" "now + 600 \<le> u64_max"
    and call: "run_call L io ia call now = (ia', b)" "b \<Longrightarrow> proof_event L call = Some e"
  shows "run_ok L ia' (if b then (e, now) # acc else acc) now"
  using call(1)
proof (cases rule: run_call_cases)
  case untouched
  with ok t(1) ledger_inv_mono show ?thesis by (auto simp: run_ok_def)
next
  case (consumed e' ledger r)
  have wf: "wf_id L (ev_id e')" using L(1) consumed(2) by (simp add: hex_ids_def wf_id_def)
  have inv: "ledger_inv L (ia_ledger ia) (accepted_ids acc) t" using ok by (simp add: run_ok_def)
  note c = consume_inv [OF L(1) wf inv t consumed(4)]
  show ?thesis
  proof (cases b)
    case False
    with c consumed ok show ?thesis by (simp add: run_ok_def)
  next
    case True
    then have e: "e' = e" "is_ok r" using call(2) consumed(1,6) by simp_all
    have "ev_id e \<noteq> ev_id x" if "(x, t0) \<in> set acc" for x t0
    proof
      assume i: "ev_id e = ev_id x"
      have x: "verify_event L x = Inr ()" "abs_diff t0 (ev_created_at x) \<le> 60"
        using ok that by (auto simp: run_ok_def)
      then have "x = e" using L(2) consumed(2) i e(1) by (auto simp: ids_identify_def)
      have "(ev_id e, t0) \<in> set (accepted_ids acc)" using that i by (force simp: accepted_ids_def)
      then have "t0 + 600 < now" using c e by simp
      then show False using x(2) consumed(3) e(1) \<open>x = e\<close> by (auto simp: abs_diff_def split: if_splits)
    qed
    then have "ev_id e \<notin> set (map (\<lambda>p. ev_id (fst p)) acc)" by force
    with True c e consumed(2,3,5) ok show ?thesis by (simp add: run_ok_def accepted_ids_def)
  qed
qed

lemma auth_run_ok:
  assumes "auth_run L ia acc t" "hex_ids L" "ids_identify L" "t + 600 \<le> u64_max"
  shows "run_ok L ia acc t"
  using assms(1,4)
proof (induction rule: auth_run.induct)
  case (started trust store ia t)
  then show ?case
    using ledger_load_inv [OF assms(2) adapter_ledger] by (simp add: run_ok_def accepted_ids_def)
next
  case (refused ia acc t now io call ia')
  then show ?case using run_call_ok [OF assms(2,3), of ia acc t now io call ia' False] by simp
next
  case (accepted ia acc t now io call ia' e)
  then show ?case using run_call_ok [OF assms(2,3), of ia acc t now io call ia' True e] by simp
next
  case (restarted ia acc t content trust ia')
  then show ?case
    using ledger_reload_inv [OF _ restarted.hyps(2) adapter_ledger [OF restarted.hyps(3)]]
    by (simp add: run_ok_def)
qed

section \<open>Properties\<close>


definition proof_id_a :: event_id where
  "proof_id_a = replicate 64 (CHR ''a'')"

definition proof_a :: event where
  "proof_a = sample_event proof_id_a ''alice'' 100 22242
     [Tag ''challenge'' [''c''], Tag ''relay'' [''ws://relay/'']] ''''"

definition proof_lib :: nostr_lib where
  "proof_lib = sample_lib\<lparr>l_verify_id := (\<lambda>e. e = proof_a),
     l_event_id_from_hex := (\<lambda>s. if s = proof_id_a then Some s else None)\<rparr>"

definition call_a :: auth_call where
  "call_a = Authenticate (Nip42Evidence proof_a ''c'') ''ws://relay/''"

definition adapter_a :: identity_adapter where
  "adapter_a = \<lparr>ia_ledger = \<lparr>pl_consumed = (\<lambda>_. None), pl_store = Some ''''\<rparr>, ia_peer_trust = []\<rparr>"

lemma proof_lib_ok: "hex_ids proof_lib" "ids_identify proof_lib"
proof -
  have v: "verify_event proof_lib e = Inr () \<longleftrightarrow> e = proof_a" for e
    by (auto simp: verify_event_def proof_lib_def sample_lib_def proof_a_def sample_event_def)
  have "list_all is_lower_hexdigit proof_id_a" "length proof_id_a = 64" "ev_id proof_a = proof_id_a"
    by code_simp+
  then show "hex_ids proof_lib"
    unfolding hex_ids_def v by (auto simp: proof_lib_def list_all_iff)
  show "ids_identify proof_lib" unfolding ids_identify_def v by blast
qed


end
