(* ===== verification/Acp_Queue.thy ===== *)
theory Acp_Queue
  imports Complex_Main Nostr_Types "HOL-Library.AList"
begin

text \<open>
  The event queue of the agent harness (\<open>EventQueue\<close> of \<open>crates/buzz-acp/src/queue.rs\<close>):
  pending events per channel, the channels with a prompt in flight and their deadlines, the
  retry throttle with its exponential backoff and dead letters, the batches cancelled by an
  interrupt or a steer, and the events withheld while a steer is on the wire.

  Instants and durations are nanoseconds. Hash maps are association lists; where the source
  iterates over one, the iteration order is an argument, so every theorem holds for every
  order. \<open>Instant::now()\<close> and the sub-second clock that feeds the jitter are arguments.
  The floating-point expression of the jitter is evaluated in exact rationals.
\<close>

section \<open>Constants and data\<close>

definition MAX_PENDING_PER_CHANNEL :: nat where
  "MAX_PENDING_PER_CHANNEL = 500"

definition MAX_BATCH_EVENTS :: nat where
  "MAX_BATCH_EVENTS = 50"

definition MAX_RETRIES :: nat where
  "MAX_RETRIES = 10"

definition BASE_RETRY_DELAY_SECS :: nat where
  "BASE_RETRY_DELAY_SECS = 5"

definition MAX_RETRY_DELAY_SECS :: nat where
  "MAX_RETRY_DELAY_SECS = 300"

definition IN_FLIGHT_DEADLINE_BUFFER_SECS :: nat where
  "IN_FLIGHT_DEADLINE_BUFFER_SECS = 100"

definition DEFAULT_IN_FLIGHT_DEADLINE_SECS :: nat where
  "DEFAULT_IN_FLIGHT_DEADLINE_SECS = 7300"

datatype dedup_mode = DropMode | QueueMode

record queued_event =
  qe_channel :: uuid
  qe_event :: event
  qe_received :: nat
  qe_tag :: string

record batch_event =
  be_event :: event
  be_tag :: string
  be_received :: nat

datatype cancel_reason = Interrupt | Steer

record flush_batch =
  fb_channel :: uuid
  fb_events :: "batch_event list"
  fb_cancelled :: "batch_event list"
  fb_reason :: "cancel_reason option"

record event_queue =
  q_queues :: "(uuid \<times> queued_event list) list"
  q_in_flight :: "uuid set"
  q_deadlines :: "(uuid \<times> nat) list"
  q_sizes :: "(uuid \<times> nat) list"
  q_retry_after :: "(uuid \<times> nat) list"
  q_retry_counts :: "(uuid \<times> nat) list"
  q_dedup_mode :: dedup_mode
  q_cancelled :: "(uuid \<times> batch_event list) list"
  q_cancel_reasons :: "(uuid \<times> cancel_reason) list"
  q_withheld :: "(uuid \<times> queued_event list) list"
  q_deadline :: nat

text \<open>The iteration orders of the three hash maps that the source walks.\<close>

record hash_order =
  ho_deadlines :: "uuid list \<Rightarrow> uuid list"
  ho_queues :: "uuid list \<Rightarrow> uuid list"
  ho_cancelled :: "uuid list \<Rightarrow> uuid list"

definition secs :: "nat \<Rightarrow> nat" where
  "secs n = n * 1000000000"

text \<open>\<open>map.get(k).unwrap_or_default()\<close> on a map of vectors.\<close>

definition slot :: "('k \<times> 'v list) list \<Rightarrow> 'k \<Rightarrow> 'v list" where
  "slot m k = (case map_of m k of None \<Rightarrow> [] | Some xs \<Rightarrow> xs)"

definition to_batch :: "queued_event \<Rightarrow> batch_event" where
  "to_batch qe = \<lparr>be_event = qe_event qe, be_tag = qe_tag qe, be_received = qe_received qe\<rparr>"

definition to_queued :: "uuid \<Rightarrow> batch_event \<Rightarrow> queued_event" where
  "to_queued c be = \<lparr>qe_channel = c, qe_event = be_event be, qe_received = be_received be, qe_tag = be_tag be\<rparr>"

text \<open>\<open>while queue.len() > MAX_PENDING_PER_CHANNEL { queue.pop_back(); }\<close>\<close>

function trim_back :: "'a list \<Rightarrow> 'a list" where
  "trim_back xs = (if MAX_PENDING_PER_CHANNEL < length xs then trim_back (butlast xs) else xs)"
  by auto
termination
  by (relation "measure length") auto

text \<open>\<open>for x in xs.into_iter().rev() { queue.push_front(x); }\<close>\<close>

definition push_front_all :: "'a list \<Rightarrow> 'a list \<Rightarrow> 'a list" where
  "push_front_all xs queue = foldl (\<lambda>q x. x # q) queue (rev xs)"

text \<open>\<open>Iterator::min_by_key\<close>: the first of the entries with the least key.\<close>

fun min_by_key :: "('a \<Rightarrow> nat) \<Rightarrow> 'a list \<Rightarrow> 'a option" where
  "min_by_key f [] = None"
| "min_by_key f (x # xs) =
     (case min_by_key f xs of None \<Rightarrow> Some x | Some y \<Rightarrow> if f x \<le> f y then Some x else Some y)"

section \<open>Operations\<close>

definition event_queue_new :: "dedup_mode \<Rightarrow> event_queue" where
  "event_queue_new mode =
     \<lparr>q_queues = [], q_in_flight = {}, q_deadlines = [], q_sizes = [], q_retry_after = [],
      q_retry_counts = [], q_dedup_mode = mode, q_cancelled = [], q_cancel_reasons = [],
      q_withheld = [], q_deadline = secs DEFAULT_IN_FLIGHT_DEADLINE_SECS\<rparr>"

definition with_in_flight_deadline :: "event_queue \<Rightarrow> nat \<Rightarrow> event_queue" where
  "with_in_flight_deadline q max_turn_secs =
     q\<lparr>q_deadline := secs (max_turn_secs + IN_FLIGHT_DEADLINE_BUFFER_SECS)\<rparr>"

definition extend_in_flight_deadline :: "nat \<Rightarrow> event_queue \<Rightarrow> uuid \<Rightarrow> nat \<Rightarrow> event_queue" where
  "extend_in_flight_deadline now q c max_turn_secs =
     (case map_of (q_deadlines q) c of
        None \<Rightarrow> q
      | Some current \<Rightarrow>
          let extended = now + secs (max_turn_secs + IN_FLIGHT_DEADLINE_BUFFER_SECS) in
          if current < extended then q\<lparr>q_deadlines := AList.update c extended (q_deadlines q)\<rparr> else q)"

definition push :: "event_queue \<Rightarrow> queued_event \<Rightarrow> event_queue \<times> bool" where
  "push q e =
     (if q_dedup_mode q = DropMode \<and> qe_channel e \<in> q_in_flight q then (q, False)
      else
        let queue = slot (q_queues q) (qe_channel e);
            queue = (if MAX_PENDING_PER_CHANNEL \<le> length queue then tl queue else queue)
        in (q\<lparr>q_queues := AList.update (qe_channel e) (queue @ [e]) (q_queues q)\<rparr>, True))"

definition recover_withheld :: "event_queue \<Rightarrow> uuid \<Rightarrow> event_queue" where
  "recover_withheld q c =
     (case map_of (q_withheld q) c of
        None \<Rightarrow> q
      | Some entries \<Rightarrow>
          q\<lparr>q_withheld := AList.delete c (q_withheld q),
            q_queues := AList.update c (trim_back (push_front_all entries (slot (q_queues q) c))) (q_queues q)\<rparr>)"

definition expired_ids :: "nat \<Rightarrow> hash_order \<Rightarrow> event_queue \<Rightarrow> uuid list" where
  "expired_ids now h q =
     filter (\<lambda>c. case map_of (q_deadlines q) c of None \<Rightarrow> False | Some d \<Rightarrow> d \<le> now)
       (ho_deadlines h (map fst (q_deadlines q)))"

definition clear_in_flight :: "event_queue \<Rightarrow> uuid \<Rightarrow> event_queue" where
  "clear_in_flight q c =
     q\<lparr>q_in_flight := q_in_flight q - {c},
       q_deadlines := AList.delete c (q_deadlines q),
       q_sizes := AList.delete c (q_sizes q)\<rparr>"

definition expire_one :: "event_queue \<Rightarrow> uuid \<Rightarrow> event_queue" where
  "expire_one q c = recover_withheld (clear_in_flight q c) c"

definition expire_stuck :: "nat \<Rightarrow> hash_order \<Rightarrow> event_queue \<Rightarrow> event_queue" where
  "expire_stuck now h q = foldl expire_one q (expired_ids now h q)"

definition ready :: "nat \<Rightarrow> event_queue \<Rightarrow> uuid \<Rightarrow> bool" where
  "ready now q c =
     (slot (q_queues q) c \<noteq> [] \<and> c \<notin> q_in_flight q \<and>
      (case map_of (q_retry_after q) c of None \<Rightarrow> True | Some t \<Rightarrow> t \<le> now))"

definition head_received :: "event_queue \<Rightarrow> uuid \<Rightarrow> nat" where
  "head_received q c = qe_received (hd (slot (q_queues q) c))"

definition next_channel :: "nat \<Rightarrow> hash_order \<Rightarrow> event_queue \<Rightarrow> uuid option" where
  "next_channel now h q =
     min_by_key (head_received q) (filter (ready now q) (ho_queues h (map fst (q_queues q))))"

definition next_cancelled :: "hash_order \<Rightarrow> event_queue \<Rightarrow> uuid option" where
  "next_cancelled h q = find (\<lambda>c. c \<notin> q_in_flight q) (ho_cancelled h (map fst (q_cancelled q)))"

definition set_in_flight :: "nat \<Rightarrow> event_queue \<Rightarrow> uuid \<Rightarrow> nat \<Rightarrow> event_queue" where
  "set_in_flight now q c n =
     q\<lparr>q_in_flight := insert c (q_in_flight q),
       q_deadlines := AList.update c (now + q_deadline q) (q_deadlines q),
       q_sizes := AList.update c n (q_sizes q)\<rparr>"

definition flush_cancelled :: "nat \<Rightarrow> event_queue \<Rightarrow> uuid \<Rightarrow> event_queue \<times> flush_batch" where
  "flush_cancelled now q c =
     (let cancelled = slot (q_cancelled q) c;
          q' = q\<lparr>q_cancelled := AList.delete c (q_cancelled q),
                 q_cancel_reasons := AList.delete c (q_cancel_reasons q)\<rparr>
      in (set_in_flight now q' c (length cancelled),
          \<lparr>fb_channel = c, fb_events = cancelled, fb_cancelled = [],
           fb_reason = map_of (q_cancel_reasons q) c\<rparr>))"

definition created_key :: "batch_event \<Rightarrow> nat" where
  "created_key be = ev_created_at (be_event be)"

definition flush_channel :: "nat \<Rightarrow> event_queue \<Rightarrow> uuid \<Rightarrow> event_queue \<times> flush_batch" where
  "flush_channel now q c =
     (let queue = slot (q_queues q) c;
          drain_count = min MAX_BATCH_EVENTS (length queue);
          events = sort_key created_key (map to_batch (take drain_count queue));
          rest = drop drain_count queue;
          cancelled = slot (q_cancelled q) c;
          q' = q\<lparr>q_queues := (if rest = [] then AList.delete c (q_queues q)
                              else AList.update c rest (q_queues q)),
                 q_cancelled := AList.delete c (q_cancelled q),
                 q_cancel_reasons := AList.delete c (q_cancel_reasons q)\<rparr>
      in (set_in_flight now q' c (length events),
          \<lparr>fb_channel = c, fb_events = events, fb_cancelled = cancelled,
           fb_reason = (if cancelled = [] then None else map_of (q_cancel_reasons q) c)\<rparr>))"

definition flush_next :: "nat \<Rightarrow> hash_order \<Rightarrow> event_queue \<Rightarrow> event_queue \<times> flush_batch option" where
  "flush_next now h q =
     (let q = expire_stuck now h q in
      case next_channel now h q of
        Some c \<Rightarrow> apsnd Some (flush_channel now q c)
      | None \<Rightarrow>
          (case next_cancelled h q of
             Some c \<Rightarrow> apsnd Some (flush_cancelled now q c)
           | None \<Rightarrow> (q, None)))"

definition mark_complete :: "nat \<Rightarrow> event_queue \<Rightarrow> uuid \<Rightarrow> event_queue" where
  "mark_complete now q c =
     (let q = clear_in_flight q c in
      case map_of (q_retry_after q) c of
        Some deadline \<Rightarrow>
          if now < deadline then q
          else q\<lparr>q_retry_after := AList.delete c (q_retry_after q),
                 q_retry_counts := AList.delete c (q_retry_counts q)\<rparr>
      | None \<Rightarrow> q\<lparr>q_retry_counts := AList.delete c (q_retry_counts q)\<rparr>)"

text \<open>
  The backoff: the base delay doubled per attempt and capped, times
  \<open>0.8 + (nanos / u32::MAX) * 0.4\<close>, in nanoseconds. \<open>nanos\<close> is the sub-second part of the
  wall clock.
\<close>

definition capped_secs :: "nat \<Rightarrow> nat" where
  "capped_secs attempt = min (BASE_RETRY_DELAY_SECS * 2 ^ min (attempt - 1) 6) MAX_RETRY_DELAY_SECS"

definition jitter :: "nat \<Rightarrow> rat" where
  "jitter nanos = 8 / 10 + of_nat nanos / of_nat (2 ^ 32 - 1) * (4 / 10)"

definition retry_delay :: "nat \<Rightarrow> nat \<Rightarrow> nat" where
  "retry_delay attempt nanos =
     nat (round (of_nat (secs (capped_secs attempt)) * jitter nanos))"

definition requeue_front :: "event_queue \<Rightarrow> flush_batch \<Rightarrow> event_queue" where
  "requeue_front q b =
     q\<lparr>q_queues := AList.update (fb_channel b)
        (trim_back (push_front_all (map (to_queued (fb_channel b)) (fb_events b))
           (slot (q_queues q) (fb_channel b))))
        (q_queues q)\<rparr>"

definition requeue :: "nat \<Rightarrow> nat \<Rightarrow> event_queue \<Rightarrow> flush_batch \<Rightarrow> event_queue \<times> flush_batch option" where
  "requeue now nanos q b =
     (let c = fb_channel b;
          attempt = (case map_of (q_retry_counts q) c of None \<Rightarrow> 0 | Some n \<Rightarrow> n) + 1
      in if MAX_RETRIES < attempt
         then (q\<lparr>q_retry_counts := AList.delete c (q_retry_counts q),
                 q_retry_after := AList.delete c (q_retry_after q)\<rparr>, Some b)
         else
           let q = requeue_front (q\<lparr>q_retry_counts := AList.update c attempt (q_retry_counts q)\<rparr>) b
           in (q\<lparr>q_retry_after := AList.update c (now + retry_delay attempt nanos) (q_retry_after q)\<rparr>, None))"

definition requeue_preserve_timestamps :: "event_queue \<Rightarrow> flush_batch \<Rightarrow> event_queue" where
  "requeue_preserve_timestamps q b = requeue_front q b"

definition requeue_as_cancelled :: "event_queue \<Rightarrow> flush_batch \<Rightarrow> cancel_reason \<Rightarrow> event_queue" where
  "requeue_as_cancelled q b reason =
     q\<lparr>q_cancelled := AList.update (fb_channel b)
          (slot (q_cancelled q) (fb_channel b) @ fb_cancelled b @ fb_events b) (q_cancelled q),
       q_cancel_reasons := AList.update (fb_channel b) reason (q_cancel_reasons q)\<rparr>"

definition has_flushable_work :: "nat \<Rightarrow> hash_order \<Rightarrow> event_queue \<Rightarrow> event_queue \<times> bool" where
  "has_flushable_work now h q =
     (let q = expire_stuck now h q in
      (q, list_ex (ready now q) (ho_queues h (map fst (q_queues q))) \<or>
          list_ex (\<lambda>c. c \<notin> q_in_flight q) (ho_cancelled h (map fst (q_cancelled q)))))"

definition pending_channels :: "event_queue \<Rightarrow> nat" where
  "pending_channels q = length (q_queues q)"

definition drain_channel :: "event_queue \<Rightarrow> uuid \<Rightarrow> event_queue \<times> event_id list" where
  "drain_channel q c =
     (q\<lparr>q_queues := AList.delete c (q_queues q),
        q_retry_after := AList.delete c (q_retry_after q),
        q_retry_counts := AList.delete c (q_retry_counts q),
        q_cancelled := AList.delete c (q_cancelled q),
        q_cancel_reasons := AList.delete c (q_cancel_reasons q),
        q_withheld := AList.delete c (q_withheld q)\<rparr>,
      map (\<lambda>e. ev_id (qe_event e)) (slot (q_queues q) c))"

definition is_channel_in_flight :: "event_queue \<Rightarrow> uuid \<Rightarrow> bool" where
  "is_channel_in_flight q c = (c \<in> q_in_flight q)"

text \<open>\<open>remove\<close> of the entry when the vector became empty.\<close>

definition put_slot :: "uuid \<Rightarrow> 'v list \<Rightarrow> (uuid \<times> 'v list) list \<Rightarrow> (uuid \<times> 'v list) list" where
  "put_slot c xs m = (if xs = [] then AList.delete c m else AList.update c xs m)"

definition remove_at :: "nat \<Rightarrow> 'a list \<Rightarrow> 'a list" where
  "remove_at i xs = take i xs @ drop (Suc i) xs"

definition has_id :: "event_id \<Rightarrow> queued_event \<Rightarrow> bool" where
  "has_id i e = (ev_id (qe_event e) = i)"

definition mark_native_steer_pending :: "event_queue \<Rightarrow> uuid \<Rightarrow> event_id \<Rightarrow> event_queue \<times> bool" where
  "mark_native_steer_pending q c i =
     (case map_of (q_queues q) c of
        None \<Rightarrow> (q, False)
      | Some queue \<Rightarrow>
          (case find_index (has_id i) queue of
             None \<Rightarrow> (q, False)
           | Some pos \<Rightarrow>
               (q\<lparr>q_queues := put_slot c (remove_at pos queue) (q_queues q),
                  q_withheld := AList.update c (slot (q_withheld q) c @ [queue ! pos]) (q_withheld q)\<rparr>,
                True)))"

definition release_native_steer :: "event_queue \<Rightarrow> uuid \<Rightarrow> event_id \<Rightarrow> event_queue" where
  "release_native_steer q c i =
     (case map_of (q_withheld q) c of
        None \<Rightarrow> q
      | Some entries \<Rightarrow>
          (case find_index (has_id i) entries of
             None \<Rightarrow> q
           | Some pos \<Rightarrow>
               q\<lparr>q_withheld := put_slot c (remove_at pos entries) (q_withheld q),
                 q_queues := AList.update c (trim_back (entries ! pos # slot (q_queues q) c)) (q_queues q)\<rparr>))"

definition retain_slot :: "uuid \<Rightarrow> ('v \<Rightarrow> bool) \<Rightarrow> (uuid \<times> 'v list) list \<Rightarrow> (uuid \<times> 'v list) list" where
  "retain_slot c P m = (case map_of m c of None \<Rightarrow> m | Some xs \<Rightarrow> put_slot c (filter P xs) m)"

definition remove_event :: "event_queue \<Rightarrow> uuid \<Rightarrow> event_id \<Rightarrow> event_queue" where
  "remove_event q c i =
     q\<lparr>q_withheld := retain_slot c (\<lambda>e. \<not> has_id i e) (q_withheld q),
       q_queues := retain_slot c (\<lambda>e. \<not> has_id i e) (q_queues q)\<rparr>"

definition compact_expired_state :: "nat \<Rightarrow> event_queue \<Rightarrow> event_queue" where
  "compact_expired_state now q =
     (let q = q\<lparr>q_retry_after := filter (\<lambda>(c, d). now < d) (q_retry_after q)\<rparr> in
      q\<lparr>q_retry_counts :=
          filter (\<lambda>(c, n). map_of (q_retry_after q) c \<noteq> None \<or> slot (q_queues q) c \<noteq> []
                           \<or> c \<in> q_in_flight q) (q_retry_counts q)\<rparr>)"

section \<open>Generic lemmas\<close>

lemma slot_update [simp]: "slot (AList.update k v m) c = (if c = k then v else slot m c)"
  by (simp add: slot_def update_conv')

lemma slot_delete [simp]: "slot (AList.delete k m) c = (if c = k then [] else slot m c)"
  by (simp add: slot_def delete_conv')

lemma slot_put_slot [simp]: "slot (put_slot k v m) c = (if c = k then v else slot m c)"
  by (simp add: put_slot_def)

lemma slot_retain_slot [simp]: "slot (retain_slot k P m) c = (if c = k then filter P (slot m c) else slot m c)"
  by (auto simp: retain_slot_def slot_def put_slot_def update_conv' delete_conv' split: option.splits)

lemma map_of_slot: "map_of m c = Some xs \<Longrightarrow> slot m c = xs"
  by (simp add: slot_def)

lemma slot_nonempty_key: "slot m c \<noteq> [] \<Longrightarrow> c \<in> set (map fst m)"
  by (auto simp: slot_def split: option.splits dest: map_of_SomeD intro: rev_image_eqI)

lemma trim_back_take: "trim_back xs = take MAX_PENDING_PER_CHANNEL xs"
proof (induction xs rule: trim_back.induct)
  case (1 xs)
  then show ?case
    by (subst trim_back.simps) (auto simp: take_butlast)
qed

declare trim_back.simps [simp del]

lemma push_front_all_append [simp]: "push_front_all xs ys = xs @ ys"
  unfolding push_front_all_def by (induction xs arbitrary: ys rule: rev_induct) simp_all

lemma to_batch_to_queued [simp]: "to_batch (to_queued c be) = be"
  by (simp add: to_batch_def to_queued_def)

lemma to_queued_channel [simp]: "qe_channel (to_queued c be) = c"
  by (simp add: to_queued_def)

lemma to_queued_to_batch: "qe_channel e = c \<Longrightarrow> to_queued c (to_batch e) = e"
  by (simp add: to_batch_def to_queued_def)

lemma min_by_key_None [simp]: "min_by_key f xs = None \<longleftrightarrow> xs = []"
  by (cases xs) (auto split: option.splits)

lemma min_by_key_Some:
  "min_by_key f xs = Some x \<Longrightarrow> x \<in> set xs \<and> (\<forall>y \<in> set xs. f x \<le> f y)"
  by (induction xs arbitrary: x) (fastforce split: option.splits if_splits)+

lemma in_tlD: "x \<in> set (tl xs) \<Longrightarrow> x \<in> set xs"
  by (cases xs) auto

lemma mset_take_subseteq: "mset (take n xs) \<subseteq># mset xs"
proof -
  have "mset xs = mset (take n xs) + mset (drop n xs)"
    by (metis append_take_drop_id mset_append)
  then show ?thesis by simp
qed

lemma mset_remove_at: "i < length xs \<Longrightarrow> add_mset (xs ! i) (mset (remove_at i xs)) = mset xs"
  unfolding remove_at_def
  by (metis id_take_nth_drop mset.simps(2) mset_append union_mset_add_mset_right)

lemma set_remove_at: "set (remove_at i xs) \<subseteq> set xs"
  by (auto simp: remove_at_def dest: in_set_takeD in_set_dropD)

lemma length_remove_at: "length (remove_at i xs) \<le> length xs"
  by (simp add: remove_at_def)

lemma find_index_nth: "find_index P xs = Some i \<Longrightarrow> i < length xs \<and> P (xs ! i)"
  using find_index_Some by blast

section \<open>The invariant\<close>

text \<open>
  What every operation keeps: hash maps have one entry per key; no stored vector is empty, so
  that \<open>pending_channels\<close> counts channels with pending events; a queue holds events of its own
  channel and at most \<^term>\<open>MAX_PENDING_PER_CHANNEL\<close> of them; a channel is in flight exactly
  when it has a deadline and a batch size; a cancelled batch has a reason; and a retry counter
  is between one and \<^term>\<open>MAX_RETRIES\<close>.
\<close>

definition no_empty :: "('k \<times> 'v list) list \<Rightarrow> bool" where
  "no_empty m \<longleftrightarrow> (\<forall>c. map_of m c \<noteq> Some [])"

definition own_channel :: "(uuid \<times> queued_event list) list \<Rightarrow> bool" where
  "own_channel m \<longleftrightarrow> (\<forall>c. \<forall>e \<in> set (slot m c). qe_channel e = c)"

definition maps_ok :: "event_queue \<Rightarrow> bool" where
  "maps_ok q \<longleftrightarrow> distinct (map fst (q_queues q)) \<and> distinct (map fst (q_cancelled q)) \<and>
     distinct (map fst (q_deadlines q)) \<and> no_empty (q_queues q) \<and> no_empty (q_withheld q) \<and>
     no_empty (q_cancelled q)"

definition retries_ok :: "(uuid \<times> nat) list \<Rightarrow> bool" where
  "retries_ok m \<longleftrightarrow> (\<forall>(c, n) \<in> set m. 1 \<le> n \<and> n \<le> MAX_RETRIES)"

definition queue_ok :: "event_queue \<Rightarrow> bool" where
  "queue_ok q \<longleftrightarrow>
     maps_ok q \<and> own_channel (q_queues q) \<and> own_channel (q_withheld q) \<and>
     (\<forall>c. length (slot (q_queues q) c) \<le> MAX_PENDING_PER_CHANNEL) \<and>
     dom (map_of (q_deadlines q)) = q_in_flight q \<and> dom (map_of (q_sizes q)) = q_in_flight q \<and>
     dom (map_of (q_cancel_reasons q)) = dom (map_of (q_cancelled q)) \<and>
     retries_ok (q_retry_counts q)"

lemma queue_ok_new: "queue_ok (event_queue_new mode)"
  by (simp add: queue_ok_def maps_ok_def event_queue_new_def no_empty_def own_channel_def slot_def
      retries_ok_def)

lemma no_empty_update [simp]: "no_empty m \<Longrightarrow> v \<noteq> [] \<Longrightarrow> no_empty (AList.update k v m)"
  by (simp add: no_empty_def update_conv')

lemma no_empty_delete [simp]: "no_empty m \<Longrightarrow> no_empty (AList.delete k m)"
  by (simp add: no_empty_def delete_conv')

lemma no_empty_put_slot [simp]: "no_empty m \<Longrightarrow> no_empty (put_slot k v m)"
  by (simp add: put_slot_def)

lemma no_empty_retain_slot [simp]: "no_empty m \<Longrightarrow> no_empty (retain_slot k P m)"
  by (simp add: retain_slot_def split: option.split)

lemma own_channel_update [simp]:
  "own_channel m \<Longrightarrow> \<forall>e \<in> set v. qe_channel e = k \<Longrightarrow> own_channel (AList.update k v m)"
  by (simp add: own_channel_def)

lemma own_channel_delete [simp]: "own_channel m \<Longrightarrow> own_channel (AList.delete k m)"
  by (simp add: own_channel_def)

lemma own_channel_put_slot [simp]:
  "own_channel m \<Longrightarrow> \<forall>e \<in> set v. qe_channel e = k \<Longrightarrow> own_channel (put_slot k v m)"
  by (simp add: own_channel_def)

lemma own_channel_retain_slot [simp]: "own_channel m \<Longrightarrow> own_channel (retain_slot k P m)"
  by (simp add: own_channel_def)

lemma own_channelD: "own_channel m \<Longrightarrow> e \<in> set (slot m c) \<Longrightarrow> qe_channel e = c"
  by (simp add: own_channel_def)

lemma distinct_put_slot [simp]: "distinct (map fst m) \<Longrightarrow> distinct (map fst (put_slot k v m))"
  by (simp add: put_slot_def distinct_update distinct_delete)

lemma distinct_retain_slot [simp]: "distinct (map fst m) \<Longrightarrow> distinct (map fst (retain_slot k P m))"
  by (simp add: retain_slot_def split: option.split)

lemma alist_update_subset: "set (AList.update k v m) \<subseteq> insert (k, v) (set m)"
  by (induction m) auto

lemma retries_ok_update [simp]:
  "retries_ok m \<Longrightarrow> 1 \<le> n \<Longrightarrow> n \<le> MAX_RETRIES \<Longrightarrow> retries_ok (AList.update c n m)"
  using alist_update_subset [of c n m] by (fastforce simp: retries_ok_def)

lemma retries_ok_delete [simp]: "retries_ok m \<Longrightarrow> retries_ok (AList.delete c m)"
  by (auto simp: retries_ok_def AList.delete_eq)

lemma retries_ok_filter [simp]: "retries_ok m \<Longrightarrow> retries_ok (filter P m)"
  by (auto simp: retries_ok_def)

lemma MAX_PENDING_pos: "0 < MAX_PENDING_PER_CHANNEL"
  by (simp add: MAX_PENDING_PER_CHANNEL_def)

section \<open>Every operation keeps the invariant\<close>

lemmas queue_ok_defs = queue_ok_def maps_ok_def
lemmas alist_map_of = update_conv' delete_conv'

lemma fill_queue_ok:
  assumes "queue_ok q" "\<forall>e \<in> set xs. qe_channel e = c" "xs \<noteq> []" "length xs \<le> MAX_PENDING_PER_CHANNEL"
  shows "queue_ok (q\<lparr>q_queues := AList.update c xs (q_queues q)\<rparr>)"
  using assms by (simp add: queue_ok_defs distinct_update)

lemma push_ok:
  assumes "queue_ok q"
  shows "queue_ok (fst (push q e))"
proof -
  define queue where "queue = slot (q_queues q) (qe_channel e)"
  define xs where "xs = (if MAX_PENDING_PER_CHANNEL \<le> length queue then tl queue else queue) @ [e]"
  have len: "length queue \<le> MAX_PENDING_PER_CHANNEL" and own: "\<forall>x \<in> set queue. qe_channel x = qe_channel e"
    using assms own_channelD [of "q_queues q"] by (simp_all add: queue_ok_def queue_def)
  have "queue_ok (q\<lparr>q_queues := AList.update (qe_channel e) xs (q_queues q)\<rparr>)"
  proof (rule fill_queue_ok [OF assms])
    show "\<forall>x \<in> set xs. qe_channel x = qe_channel e"
      using own by (auto simp: xs_def dest: in_tlD split: if_splits)
    show "xs \<noteq> []" by (simp add: xs_def)
    show "length xs \<le> MAX_PENDING_PER_CHANNEL" using len MAX_PENDING_pos by (auto simp: xs_def)
  qed
  with assms show ?thesis unfolding push_def Let_def queue_def xs_def by simp
qed

lemma recover_withheld_frame:
  "q_in_flight (recover_withheld q c) = q_in_flight q"
  "q_deadlines (recover_withheld q c) = q_deadlines q"
  "q_sizes (recover_withheld q c) = q_sizes q"
  "q_retry_after (recover_withheld q c) = q_retry_after q"
  "q_retry_counts (recover_withheld q c) = q_retry_counts q"
  "q_dedup_mode (recover_withheld q c) = q_dedup_mode q"
  "q_cancelled (recover_withheld q c) = q_cancelled q"
  "q_cancel_reasons (recover_withheld q c) = q_cancel_reasons q"
  "q_deadline (recover_withheld q c) = q_deadline q"
  by (simp_all add: recover_withheld_def split: option.split)

lemma recover_withheld_slots:
  "slot (q_queues (recover_withheld q c)) d =
     (if d = c \<and> map_of (q_withheld q) c \<noteq> None
      then take MAX_PENDING_PER_CHANNEL (slot (q_withheld q) c @ slot (q_queues q) c)
      else slot (q_queues q) d)"
  "slot (q_withheld (recover_withheld q c)) d = (if d = c then [] else slot (q_withheld q) d)"
  by (auto simp: recover_withheld_def trim_back_take slot_def [of "q_withheld q"] split: option.split)

lemma recover_withheld_maps:
  assumes "maps_ok q"
  shows "maps_ok (recover_withheld q c)"
proof (cases "map_of (q_withheld q) c")
  case None
  then show ?thesis using assms by (simp add: recover_withheld_def)
next
  case (Some entries)
  then have "entries \<noteq> []" using assms by (auto simp: maps_ok_def no_empty_def)
  then have "trim_back (push_front_all entries (slot (q_queues q) c)) \<noteq> []"
    using MAX_PENDING_pos by (simp add: trim_back_take)
  then show ?thesis using assms Some by (simp add: recover_withheld_def maps_ok_def distinct_update)
qed

lemma recover_withheld_ok:
  assumes "queue_ok q"
  shows "queue_ok (recover_withheld q c)"
proof -
  have own: "own_channel (q_queues q)" "own_channel (q_withheld q)"
    using assms by (simp_all add: queue_ok_def)
  have "own_channel (q_queues (recover_withheld q c))" "own_channel (q_withheld (recover_withheld q c))"
    unfolding own_channel_def recover_withheld_slots
    using own by (auto simp: own_channel_def dest!: in_set_takeD split: if_splits)
  moreover have "\<forall>d. length (slot (q_queues (recover_withheld q c)) d) \<le> MAX_PENDING_PER_CHANNEL"
    unfolding recover_withheld_slots using assms by (simp add: queue_ok_def del: take_append)
  ultimately show ?thesis
    using assms recover_withheld_maps [of q c]
    by (simp add: queue_ok_def recover_withheld_frame)
qed

lemma clear_in_flight_frame [simp]:
  "q_queues (clear_in_flight q c) = q_queues q" "q_withheld (clear_in_flight q c) = q_withheld q"
  "q_cancelled (clear_in_flight q c) = q_cancelled q"
  "q_cancel_reasons (clear_in_flight q c) = q_cancel_reasons q"
  "q_retry_after (clear_in_flight q c) = q_retry_after q"
  "q_retry_counts (clear_in_flight q c) = q_retry_counts q"
  "q_dedup_mode (clear_in_flight q c) = q_dedup_mode q"
  "q_deadline (clear_in_flight q c) = q_deadline q"
  "q_in_flight (clear_in_flight q c) = q_in_flight q - {c}"
  by (simp_all add: clear_in_flight_def)

lemma clear_in_flight_ok: "queue_ok q \<Longrightarrow> queue_ok (clear_in_flight q c)"
  by (simp add: clear_in_flight_def queue_ok_defs distinct_delete alist_map_of fun_upd_def [symmetric])

lemma expire_one_ok: "queue_ok q \<Longrightarrow> queue_ok (expire_one q c)"
  unfolding expire_one_def by (intro recover_withheld_ok clear_in_flight_ok)

lemma foldl_expire_ok: "queue_ok q \<Longrightarrow> queue_ok (foldl expire_one q cs)"
  by (induction cs arbitrary: q) (simp_all add: expire_one_ok)

lemma expire_stuck_ok: "queue_ok q \<Longrightarrow> queue_ok (expire_stuck now h q)"
  by (simp add: expire_stuck_def foldl_expire_ok)

lemma set_in_flight_ok: "queue_ok q \<Longrightarrow> queue_ok (set_in_flight now q c n)"
  by (simp add: set_in_flight_def queue_ok_defs distinct_update alist_map_of)

lemma drop_cancelled_ok:
  "queue_ok q \<Longrightarrow>
   queue_ok (q\<lparr>q_cancelled := AList.delete c (q_cancelled q),
      q_cancel_reasons := AList.delete c (q_cancel_reasons q)\<rparr>)"
  by (simp add: queue_ok_defs distinct_delete alist_map_of)

lemma shrink_queue_ok:
  assumes "queue_ok q" "set xs \<subseteq> set (slot (q_queues q) c)" "length xs \<le> length (slot (q_queues q) c)"
  shows "queue_ok (q\<lparr>q_queues := put_slot c xs (q_queues q)\<rparr>)"
proof -
  have "own_channel (q_queues q)" "length (slot (q_queues q) c) \<le> MAX_PENDING_PER_CHANNEL"
    using assms(1) by (simp_all add: queue_ok_def)
  then have "\<forall>e \<in> set xs. qe_channel e = c" "length xs \<le> MAX_PENDING_PER_CHANNEL"
    using assms(2,3) by (auto dest: own_channelD)
  then show ?thesis using assms(1) by (simp add: queue_ok_defs)
qed

lemma flush_cancelled_ok: "queue_ok q \<Longrightarrow> queue_ok (fst (flush_cancelled now q c))"
  unfolding flush_cancelled_def Let_def fst_conv by (intro set_in_flight_ok drop_cancelled_ok)

lemma flush_channel_ok:
  assumes "queue_ok q"
  shows "queue_ok (fst (flush_channel now q c))"
proof -
  let ?rest = "drop (min MAX_BATCH_EVENTS (length (slot (q_queues q) c))) (slot (q_queues q) c)"
  have "queue_ok (q\<lparr>q_queues := put_slot c ?rest (q_queues q)\<rparr>)"
    by (rule shrink_queue_ok [OF assms]) (simp_all add: set_drop_subset)
  from drop_cancelled_ok [OF this, of c]
  show ?thesis
    unfolding flush_channel_def Let_def fst_conv put_slot_def
    by (intro set_in_flight_ok) simp
qed

lemma flush_next_ok: "queue_ok q \<Longrightarrow> queue_ok (fst (flush_next now h q))"
  by (simp add: flush_next_def Let_def expire_stuck_ok flush_channel_ok flush_cancelled_ok
      split: option.split)

lemma has_flushable_work_ok: "queue_ok q \<Longrightarrow> queue_ok (fst (has_flushable_work now h q))"
  by (simp add: has_flushable_work_def Let_def expire_stuck_ok)

lemma retry_state_ok:
  "queue_ok q \<Longrightarrow> retries_ok counts \<Longrightarrow> queue_ok (q\<lparr>q_retry_counts := counts, q_retry_after := after\<rparr>)"
  by (simp add: queue_ok_defs)

lemma mark_complete_ok:
  assumes "queue_ok q"
  shows "queue_ok (mark_complete now q c)"
proof -
  let ?q = "clear_in_flight q c"
  have ok: "queue_ok ?q" by (rule clear_in_flight_ok [OF assms])
  have "queue_ok (?q\<lparr>q_retry_counts := AList.delete c (q_retry_counts q)\<rparr>)"
    "queue_ok (?q\<lparr>q_retry_after := after, q_retry_counts := AList.delete c (q_retry_counts q)\<rparr>)" for after
    using ok by (simp_all add: queue_ok_defs)
  with ok show ?thesis by (simp add: mark_complete_def Let_def split: option.split)
qed

lemma requeue_front_ok:
  assumes "queue_ok q" "fb_events b \<noteq> []"
  shows "queue_ok (requeue_front q b)"
  unfolding requeue_front_def
proof (rule fill_queue_ok [OF assms(1)])
  show "\<forall>e \<in> set (trim_back (push_front_all (map (to_queued (fb_channel b)) (fb_events b))
      (slot (q_queues q) (fb_channel b)))). qe_channel e = fb_channel b"
    using own_channelD [of "q_queues q"] assms(1)
    by (auto simp: trim_back_take queue_ok_def simp del: take_append dest!: in_set_takeD)
qed (use assms(2) MAX_PENDING_pos in \<open>simp_all add: trim_back_take del: take_append\<close>)

lemma requeue_ok:
  assumes "queue_ok q" "fb_events b \<noteq> []"
  shows "queue_ok (fst (requeue now nanos q b))"
proof -
  let ?c = "fb_channel b"
  let ?n = "(case map_of (q_retry_counts q) ?c of None \<Rightarrow> 0 | Some n \<Rightarrow> n) + 1"
  have retries: "retries_ok (q_retry_counts q)" using assms(1) by (simp add: queue_ok_def)
  show ?thesis
  proof (cases "MAX_RETRIES < ?n")
    case True
    then show ?thesis
      using retry_state_ok [OF assms(1) retries_ok_delete [OF retries]]
      by (simp add: requeue_def Let_def)
  next
    case False
    let ?q = "q\<lparr>q_retry_counts := AList.update ?c ?n (q_retry_counts q)\<rparr>"
    have "queue_ok ?q" using assms(1) False by (simp add: queue_ok_defs)
    from requeue_front_ok [OF this assms(2)]
    have "queue_ok ((requeue_front ?q b)\<lparr>q_retry_after := after\<rparr>)" for after
      by (simp add: queue_ok_defs)
    then show ?thesis using False by (simp add: requeue_def Let_def)
  qed
qed

lemma requeue_as_cancelled_ok:
  "queue_ok q \<Longrightarrow> fb_events b \<noteq> [] \<Longrightarrow> queue_ok (requeue_as_cancelled q b reason)"
  by (simp add: requeue_as_cancelled_def queue_ok_defs distinct_update alist_map_of)

lemma drain_channel_ok: "queue_ok q \<Longrightarrow> queue_ok (fst (drain_channel q c))"
  by (auto simp: drain_channel_def queue_ok_defs distinct_delete alist_map_of split: if_splits)

lemma compact_expired_state_ok: "queue_ok q \<Longrightarrow> queue_ok (compact_expired_state now q)"
  by (simp add: compact_expired_state_def Let_def queue_ok_defs)

lemma extend_in_flight_deadline_ok: "queue_ok q \<Longrightarrow> queue_ok (extend_in_flight_deadline now q c s)"
  by (auto simp: extend_in_flight_deadline_def Let_def queue_ok_defs distinct_update alist_map_of
      split: option.split)

lemma withheld_ok:
  "queue_ok q \<Longrightarrow> own_channel m \<Longrightarrow> no_empty m \<Longrightarrow> queue_ok (q\<lparr>q_withheld := m\<rparr>)"
  by (simp add: queue_ok_defs)

lemma mark_native_steer_pending_ok:
  assumes "queue_ok q"
  shows "queue_ok (fst (mark_native_steer_pending q c i))"
proof (cases "\<exists>queue pos. map_of (q_queues q) c = Some queue \<and> find_index (has_id i) queue = Some pos")
  case True
  then obtain queue pos where found: "map_of (q_queues q) c = Some queue" "find_index (has_id i) queue = Some pos"
    by blast
  then have queue: "slot (q_queues q) c = queue" and pos: "pos < length queue"
    by (simp_all add: map_of_slot find_index_nth)
  let ?q = "q\<lparr>q_queues := put_slot c (remove_at pos queue) (q_queues q)\<rparr>"
  have ok: "queue_ok ?q"
    by (rule shrink_queue_ok [OF assms]) (simp_all add: queue set_remove_at length_remove_at)
  have own: "own_channel (q_queues q)" "own_channel (q_withheld q)" and "no_empty (q_withheld q)"
    using assms by (simp_all add: queue_ok_defs)
  moreover have "qe_channel (queue ! pos) = c"
    by (rule own_channelD [OF own(1)]) (simp add: queue pos)
  ultimately have "queue_ok (?q\<lparr>q_withheld := AList.update c (slot (q_withheld q) c @ [queue ! pos]) (q_withheld q)\<rparr>)"
    by (intro withheld_ok [OF ok] own_channel_update) (auto dest: own_channelD)
  with found show ?thesis by (simp add: mark_native_steer_pending_def)
next
  case False
  with assms show ?thesis by (auto simp: mark_native_steer_pending_def split: option.split)
qed

lemma release_native_steer_ok:
  assumes "queue_ok q"
  shows "queue_ok (release_native_steer q c i)"
proof (cases "\<exists>entries pos. map_of (q_withheld q) c = Some entries \<and> find_index (has_id i) entries = Some pos")
  case True
  then obtain entries pos where found: "map_of (q_withheld q) c = Some entries" "find_index (has_id i) entries = Some pos"
    by blast
  then have entries: "slot (q_withheld q) c = entries" and pos: "pos < length entries"
    by (simp_all add: map_of_slot find_index_nth)
  have own: "own_channel (q_queues q)" "own_channel (q_withheld q)" and ne: "no_empty (q_withheld q)"
    using assms by (simp_all add: queue_ok_defs)
  let ?q = "q\<lparr>q_withheld := put_slot c (remove_at pos entries) (q_withheld q)\<rparr>"
  have "\<forall>e \<in> set (remove_at pos entries). qe_channel e = c"
    using set_remove_at [of pos entries] own_channelD [OF own(2), of _ c] entries by auto
  with own ne have ok: "queue_ok ?q" by (intro withheld_ok [OF assms]) simp_all
  have head: "qe_channel (entries ! pos) = c"
    by (rule own_channelD [OF own(2)]) (simp add: entries pos)
  have "queue_ok (?q\<lparr>q_queues := AList.update c (trim_back (entries ! pos # slot (q_queues q) c)) (q_queues ?q)\<rparr>)"
    by (rule fill_queue_ok [OF ok])
      (use head own_channelD [OF own(1), of _ c] MAX_PENDING_pos in
        \<open>auto simp: trim_back_take dest!: in_set_takeD\<close>)
  with found show ?thesis by (simp add: release_native_steer_def)
next
  case False
  with assms show ?thesis by (auto simp: release_native_steer_def split: option.split)
qed

lemma remove_event_ok:
  assumes "queue_ok q"
  shows "queue_ok (remove_event q c i)"
proof -
  let ?q = "q\<lparr>q_withheld := retain_slot c (\<lambda>e. \<not> has_id i e) (q_withheld q)\<rparr>"
  have ok: "queue_ok ?q" using assms by (intro withheld_ok) (simp_all add: queue_ok_defs)
  have "length (filter P (slot (q_queues q) d)) \<le> MAX_PENDING_PER_CHANNEL" for P d
    by (rule le_trans [OF length_filter_le]) (use assms in \<open>simp add: queue_ok_def\<close>)
  with ok have "queue_ok (?q\<lparr>q_queues := retain_slot c (\<lambda>e. \<not> has_id i e) (q_queues q)\<rparr>)"
    by (simp add: queue_ok_defs)
  then show ?thesis by (simp add: remove_event_def)
qed

section \<open>Where the events of a channel are\<close>

text \<open>
  The events a queue holds for a channel: pending, withheld and cancelled. \<open>delivered\<close> are the
  events of a batch, those of the cancelled turn it carries included.
\<close>

definition held :: "event_queue \<Rightarrow> uuid \<Rightarrow> batch_event multiset" where
  "held q c = mset (map to_batch (slot (q_queues q) c)) + mset (map to_batch (slot (q_withheld q) c))
     + mset (slot (q_cancelled q) c)"

definition delivered :: "flush_batch \<Rightarrow> batch_event multiset" where
  "delivered b = mset (fb_events b) + mset (fb_cancelled b)"

fun outstanding :: "flush_batch list \<Rightarrow> uuid \<Rightarrow> batch_event multiset" where
  "outstanding [] c = {#}"
| "outstanding (b # bs) c = (if fb_channel b = c then delivered b else {#}) + outstanding bs c"

lemma outstanding_append [simp]: "outstanding (bs @ cs) c = outstanding bs c + outstanding cs c"
  by (induction bs) (simp_all add: ac_simps)

lemma mset_map_take: "mset (map f (take n xs)) \<subseteq># mset (map f xs)"
  by (metis mset_take_subseteq take_map)

lemma held_recover_withheld: "held (recover_withheld q c) d \<subseteq># held q d"
proof (cases "d = c \<and> map_of (q_withheld q) c \<noteq> None")
  case True
  let ?both = "slot (q_withheld q) c @ slot (q_queues q) c"
  have "mset (map to_batch (take MAX_PENDING_PER_CHANNEL ?both)) \<subseteq># mset (map to_batch ?both)"
    by (rule mset_map_take)
  with True show ?thesis
    by (simp add: held_def recover_withheld_slots recover_withheld_frame add.commute del: take_append)
next
  case False
  then show ?thesis
    by (auto simp: held_def recover_withheld_slots recover_withheld_frame slot_def [of "q_withheld q"])
qed

lemma held_expire_one: "held (expire_one q c) d \<subseteq># held q d"
  using held_recover_withheld [of "clear_in_flight q c" c d]
  by (simp add: expire_one_def held_def)

lemma held_expire_stuck: "held (expire_stuck now h q) d \<subseteq># held q d"
proof -
  have "held (foldl expire_one q cs) d \<subseteq># held q d" for cs
    by (induction cs arbitrary: q) (auto intro: subset_mset.order_trans held_expire_one)
  then show ?thesis by (simp add: expire_stuck_def)
qed

lemma held_set_in_flight [simp]: "held (set_in_flight now q c n) d = held q d"
  by (simp add: held_def set_in_flight_def)

lemma held_flush_cancelled:
  "held q d = held (fst (flush_cancelled now q c)) d
     + (if d = c then delivered (snd (flush_cancelled now q c)) else {#})"
  by (simp add: flush_cancelled_def Let_def held_def delivered_def set_in_flight_def)

lemma held_flush_channel:
  "held q d = held (fst (flush_channel now q c)) d
     + (if d = c then delivered (snd (flush_channel now q c)) else {#})"
proof -
  define queue where "queue = slot (q_queues q) c"
  define n where "n = min MAX_BATCH_EVENTS (length queue)"
  have "mset (map to_batch queue) = mset (map to_batch (take n queue)) + mset (map to_batch (drop n queue))"
    by (metis append_take_drop_id map_append mset_append)
  then show ?thesis
    by (simp add: flush_channel_def Let_def held_def delivered_def set_in_flight_def
        flip: queue_def n_def put_slot_def)
qed

lemma flush_next_cases:
  assumes "flush_next now h q = (q', r)"
  obtains (queued) c where "next_channel now h (expire_stuck now h q) = Some c"
      "q' = fst (flush_channel now (expire_stuck now h q) c)"
      "r = Some (snd (flush_channel now (expire_stuck now h q) c))"
  | (cancelled) c where "next_channel now h (expire_stuck now h q) = None"
      "next_cancelled h (expire_stuck now h q) = Some c"
      "q' = fst (flush_cancelled now (expire_stuck now h q) c)"
      "r = Some (snd (flush_cancelled now (expire_stuck now h q) c))"
  | (idle) "next_channel now h (expire_stuck now h q) = None"
      "next_cancelled h (expire_stuck now h q) = None" "q' = expire_stuck now h q" "r = None"
  using assms by (auto simp: flush_next_def Let_def apsnd_def map_prod_def split: option.splits prod.splits)

lemma flush_batch_channel [simp]:
  "fb_channel (snd (flush_channel now q c)) = c" "fb_channel (snd (flush_cancelled now q c)) = c"
  by (simp_all add: flush_channel_def flush_cancelled_def Let_def)

lemma sort_key_Nil_iff [simp]: "sort_key f xs = [] \<longleftrightarrow> xs = []"
  by (metis length_0_conv length_sort)

lemma flush_channel_events:
  "fb_events (snd (flush_channel now q c)) =
     sort_key created_key (map to_batch (take MAX_BATCH_EVENTS (slot (q_queues q) c)))"
  by (simp add: flush_channel_def Let_def min_def)

lemma held_flush_next:
  assumes "flush_next now h q = (q', r)"
  shows "held q' d + outstanding (case r of None \<Rightarrow> [] | Some b \<Rightarrow> [b]) d \<subseteq># held q d"
proof -
  let ?q = "expire_stuck now h q"
  from assms have "held q' d + outstanding (case r of None \<Rightarrow> [] | Some b \<Rightarrow> [b]) d = held ?q d"
  proof (cases rule: flush_next_cases)
    case (queued c)
    then show ?thesis using held_flush_channel [of ?q d now c] by auto
  next
    case (cancelled c)
    then show ?thesis using held_flush_cancelled [of ?q d now c] by auto
  qed simp
  with held_expire_stuck [of now h q d] show ?thesis by simp
qed

lemma held_push:
  assumes "push q e = (q', accepted)"
  shows "held q' d \<subseteq># held q d + (if accepted \<and> d = qe_channel e then {#to_batch e#} else {#})"
proof -
  have "image_mset f (mset (tl xs)) \<subseteq># image_mset f (mset xs)" for f :: "queued_event \<Rightarrow> batch_event" and xs
    by (cases xs) simp_all
  then show ?thesis using assms by (auto simp: push_def Let_def held_def split: if_splits)
qed

lemma held_requeue_front:
  "held (requeue_front q b) d \<subseteq># held q d + (if d = fb_channel b then mset (fb_events b) else {#})"
proof -
  let ?all = "map (to_queued (fb_channel b)) (fb_events b) @ slot (q_queues q) (fb_channel b)"
  have "mset (map to_batch (take MAX_PENDING_PER_CHANNEL ?all)) \<subseteq># mset (map to_batch ?all)"
    by (rule mset_map_take)
  then show ?thesis
    by (simp add: requeue_front_def held_def trim_back_take comp_def ac_simps del: take_append)
qed

lemma held_requeue:
  assumes "requeue now nanos q b = (q', r)"
  shows "held q' d \<subseteq># held q d + outstanding [b] d"
proof -
  have "held (requeue_front (q\<lparr>q_retry_counts := m\<rparr>) b) d \<subseteq># held q d + outstanding [b] d" for m
    using held_requeue_front [of "q\<lparr>q_retry_counts := m\<rparr>" b d]
    by (auto simp: held_def delivered_def intro: subset_mset.order_trans)
  then show ?thesis using assms by (auto simp: requeue_def Let_def held_def split: if_splits)
qed

lemma held_requeue_as_cancelled: "held (requeue_as_cancelled q b reason) d = held q d + outstanding [b] d"
  by (simp add: requeue_as_cancelled_def held_def delivered_def)

lemma held_mark_complete [simp]: "held (mark_complete now q c) d = held q d"
  by (simp add: mark_complete_def Let_def held_def split: option.split)

lemma held_drain_channel: "held (fst (drain_channel q c)) d \<subseteq># held q d"
  by (simp add: drain_channel_def held_def)

lemma held_mark_native_steer_pending: "held (fst (mark_native_steer_pending q c i)) d = held q d"
proof (cases "\<exists>queue pos. map_of (q_queues q) c = Some queue \<and> find_index (has_id i) queue = Some pos")
  case True
  then obtain queue pos where found: "map_of (q_queues q) c = Some queue" "find_index (has_id i) queue = Some pos"
    by blast
  then have "add_mset (queue ! pos) (mset (remove_at pos queue)) = mset (slot (q_queues q) c)"
    by (simp add: map_of_slot mset_remove_at find_index_nth)
  then have "add_mset (to_batch (queue ! pos)) (image_mset to_batch (mset (remove_at pos queue)))
      = image_mset to_batch (mset (slot (q_queues q) c))"
    by (metis image_mset_add_mset)
  with found show ?thesis by (auto simp: mark_native_steer_pending_def held_def)
next
  case False
  then show ?thesis by (auto simp: mark_native_steer_pending_def split: option.split)
qed

lemma held_release_native_steer: "held (release_native_steer q c i) d \<subseteq># held q d"
proof (cases "\<exists>entries pos. map_of (q_withheld q) c = Some entries \<and> find_index (has_id i) entries = Some pos")
  case True
  then obtain entries pos where found: "map_of (q_withheld q) c = Some entries" "find_index (has_id i) entries = Some pos"
    by blast
  then have "add_mset (entries ! pos) (mset (remove_at pos entries)) = mset (slot (q_withheld q) c)"
    by (simp add: map_of_slot mset_remove_at find_index_nth)
  then have "add_mset (to_batch (entries ! pos)) (image_mset to_batch (mset (remove_at pos entries)))
      = image_mset to_batch (mset (slot (q_withheld q) c))"
    by (metis image_mset_add_mset)
  note split = this
  have "mset (map to_batch (take MAX_PENDING_PER_CHANNEL (entries ! pos # slot (q_queues q) c)))
      \<subseteq># mset (map to_batch (entries ! pos # slot (q_queues q) c))"
    by (rule mset_map_take)
  from subset_mset.add_right_mono [OF this, of "image_mset to_batch (mset (remove_at pos entries))"]
  show ?thesis
    using found by (auto simp: release_native_steer_def held_def trim_back_take simp flip: split)
next
  case False
  then show ?thesis by (auto simp: release_native_steer_def split: option.split)
qed

lemma held_remove_event: "held (remove_event q c i) d \<subseteq># held q d"
proof -
  have "image_mset f (filter_mset P M) \<subseteq># image_mset f M" for f :: "queued_event \<Rightarrow> batch_event" and P M
    by (simp add: image_mset_subseteq_mono)
  then show ?thesis by (auto simp: remove_event_def held_def intro!: subset_mset.add_mono)
qed

section \<open>Runs of the harness over a queue\<close>

definition iterates :: "hash_order \<Rightarrow> bool" where
  "iterates h \<longleftrightarrow> (\<forall>ks. mset (ho_deadlines h ks) = mset ks \<and> mset (ho_queues h ks) = mset ks \<and>
     mset (ho_cancelled h ks) = mset ks)"

lemma iterates_set:
  assumes "iterates h"
  shows "set (ho_deadlines h ks) = set ks" "set (ho_queues h ks) = set ks" "set (ho_cancelled h ks) = set ks"
  by (rule mset_eq_setD, use assms in \<open>simp add: iterates_def\<close>)+

text \<open>
  Every sequence of calls the harness can make: it pushes events, flushes batches, and each
  flushed batch is finished or handed back once. The second argument lists the batches handed
  to agents and not yet accounted for, the third the events accepted so far per channel.
\<close>

inductive queue_run :: "event_queue \<Rightarrow> flush_batch list \<Rightarrow> (uuid \<Rightarrow> batch_event multiset) \<Rightarrow> bool" where
  opened: "queue_run (event_queue_new mode) [] (\<lambda>_. {#})"
| configured: "queue_run q bs acc \<Longrightarrow> queue_run (with_in_flight_deadline q s) bs acc"
| pushed: "queue_run q bs acc \<Longrightarrow> push q e = (q', True) \<Longrightarrow>
    queue_run q' bs (acc(qe_channel e := add_mset (to_batch e) (acc (qe_channel e))))"
| refused: "queue_run q bs acc \<Longrightarrow> push q e = (q', False) \<Longrightarrow> queue_run q' bs acc"
| flushed: "queue_run q bs acc \<Longrightarrow> iterates h \<Longrightarrow> flush_next now h q = (q', Some b) \<Longrightarrow> queue_run q' (b # bs) acc"
| idle: "queue_run q bs acc \<Longrightarrow> iterates h \<Longrightarrow> flush_next now h q = (q', None) \<Longrightarrow> queue_run q' bs acc"
| polled: "queue_run q bs acc \<Longrightarrow> has_flushable_work now h q = (q', r) \<Longrightarrow> queue_run q' bs acc"
| completed: "queue_run q bs acc \<Longrightarrow> queue_run (mark_complete now q c) bs acc"
| finished: "queue_run q (bs @ b # cs) acc \<Longrightarrow> queue_run q (bs @ cs) acc"
| retried: "queue_run q (bs @ b # cs) acc \<Longrightarrow> requeue now nanos q b = (q', r) \<Longrightarrow> queue_run q' (bs @ cs) acc"
| returned: "queue_run q (bs @ b # cs) acc \<Longrightarrow> queue_run (requeue_preserve_timestamps q b) (bs @ cs) acc"
| cancelled: "queue_run q (bs @ b # cs) acc \<Longrightarrow> queue_run (requeue_as_cancelled q b reason) (bs @ cs) acc"
| drained: "queue_run q bs acc \<Longrightarrow> drain_channel q c = (q', ids) \<Longrightarrow> queue_run q' bs acc"
| steered: "queue_run q bs acc \<Longrightarrow> mark_native_steer_pending q c i = (q', r) \<Longrightarrow> queue_run q' bs acc"
| released: "queue_run q bs acc \<Longrightarrow> queue_run (release_native_steer q c i) bs acc"
| consumed: "queue_run q bs acc \<Longrightarrow> queue_run (remove_event q c i) bs acc"
| compacted: "queue_run q bs acc \<Longrightarrow> queue_run (compact_expired_state now q) bs acc"
| extended: "queue_run q bs acc \<Longrightarrow> queue_run (extend_in_flight_deadline now q c s) bs acc"

lemma next_cancelled_Some:
  assumes "next_cancelled h q = Some c" "iterates h"
  shows "c \<in> set (map fst (q_cancelled q)) \<and> c \<notin> q_in_flight q"
  using find_Some_in [OF assms(1) [unfolded next_cancelled_def]] iterates_set [OF assms(2)] by simp

lemma next_channel_Some:
  assumes "next_channel now h q = Some c" "iterates h"
  shows "ready now q c \<and> (\<forall>d. ready now q d \<longrightarrow> head_received q c \<le> head_received q d)"
proof -
  from min_by_key_Some [OF assms(1) [unfolded next_channel_def]] iterates_set [OF assms(2)]
  have "ready now q c" "\<forall>d \<in> set (map fst (q_queues q)). ready now q d \<longrightarrow> head_received q c \<le> head_received q d"
    by auto
  then show ?thesis using slot_nonempty_key [of "q_queues q"] by (auto simp: ready_def)
qed

lemma flush_next_nonempty:
  assumes "flush_next now h q = (q', Some b)" "iterates h" "queue_ok q"
  shows "fb_events b \<noteq> []"
  using assms(1)
proof (cases rule: flush_next_cases)
  case (queued c)
  from next_channel_Some [OF queued(1) assms(2)]
  have "slot (q_queues (expire_stuck now h q)) c \<noteq> []" by (simp add: ready_def)
  with queued(3) show ?thesis by (simp add: flush_channel_events MAX_BATCH_EVENTS_def)
next
  case (cancelled c)
  have "no_empty (q_cancelled (expire_stuck now h q))"
    using expire_stuck_ok [OF assms(3)] by (simp add: queue_ok_defs)
  moreover from next_cancelled_Some [OF cancelled(2) assms(2)]
  have "map_of (q_cancelled (expire_stuck now h q)) c \<noteq> None" by (simp add: map_of_eq_None_iff)
  ultimately have "slot (q_cancelled (expire_stuck now h q)) c \<noteq> []"
    by (auto simp: no_empty_def slot_def split: option.split)
  with cancelled(4) show ?thesis by (simp add: flush_cancelled_def Let_def)
qed simp

lemma queue_run_ok:
  assumes "queue_run q bs acc"
  shows "queue_ok q \<and> (\<forall>b \<in> set bs. fb_events b \<noteq> [])"
  using assms
proof induction
  case (configured q bs acc s)
  then show ?case by (simp add: with_in_flight_deadline_def queue_ok_defs)
next
  case (flushed q bs acc h now q' b)
  then show ?case using flush_next_ok [of q now h] flush_next_nonempty by auto
next
  case (idle q bs acc h now q')
  then show ?case using flush_next_ok [of q now h] by auto
next
  case (polled q bs acc now h q' r)
  then show ?case using has_flushable_work_ok [of q now h] by auto
next
  case (retried q bs b cs acc now nanos q' r)
  then show ?case using requeue_ok [of q b now nanos] by auto
next
  case (pushed q bs acc e q')
  then show ?case using push_ok [of q e] by auto
next
  case (refused q bs acc e q')
  then show ?case using push_ok [of q e] by auto
next
  case (drained q bs acc c q' ids)
  then show ?case using drain_channel_ok [of q c] by auto
next
  case (steered q bs acc c i q' r)
  then show ?case using mark_native_steer_pending_ok [of q c i] by auto
qed (simp_all add: queue_ok_new mark_complete_ok requeue_preserve_timestamps_def requeue_front_ok
    requeue_as_cancelled_ok release_native_steer_ok remove_event_ok compact_expired_state_ok
    extend_in_flight_deadline_ok)

lemma held_moves:
  fixes H' G H N F A :: "'a multiset"
  assumes "H' + G \<subseteq># H + N" "H + F \<subseteq># A"
  shows "H' + (G + F) \<subseteq># A + N"
proof -
  have "H' + (G + F) = H' + G + F" by (simp add: add.assoc)
  also have "\<dots> \<subseteq># H + N + F" by (rule subset_mset.add_right_mono [OF assms(1)])
  also have "\<dots> = H + F + N" by (simp add: ac_simps)
  also have "\<dots> \<subseteq># A + N" by (rule subset_mset.add_right_mono [OF assms(2)])
  finally show ?thesis .
qed

lemmas held_shrinks = held_moves [of _ "{#}" _ "{#}", simplified]

lemma held_handed_back:
  fixes H' G H F1 F2 A :: "'a multiset"
  assumes "H' \<subseteq># H + G" "H + (F1 + (G + F2)) \<subseteq># A"
  shows "H' + (F1 + F2) \<subseteq># A"
proof -
  have "H' + (F1 + F2) \<subseteq># H + G + (F1 + F2)" by (rule subset_mset.add_right_mono [OF assms(1)])
  also have "\<dots> = H + (F1 + (G + F2))" by (simp add: ac_simps)
  finally show ?thesis using assms(2) by (rule subset_mset.order_trans)
qed

lemma queue_run_conserves:
  assumes "queue_run q bs acc"
  shows "held q c + outstanding bs c \<subseteq># acc c"
  using assms
proof (induction arbitrary: c)
  case (opened mode)
  then show ?case by (simp add: held_def event_queue_new_def slot_def)
next
  case (configured q bs acc s)
  then show ?case by (simp add: held_def with_in_flight_deadline_def)
next
  case (pushed q bs acc e q')
  from held_moves [of _ "{#}", simplified, OF held_push [OF pushed(2)] pushed.IH, of c]
  show ?case by (simp split: if_splits)
next
  case (refused q bs acc e q')
  from held_moves [of _ "{#}", simplified, OF held_push [OF refused(2)] refused.IH]
  show ?case by simp
next
  case (flushed q bs acc h now q' b)
  from held_moves [of _ _ _ "{#}", simplified, OF held_flush_next [OF flushed(3)] flushed.IH]
  show ?case by simp
next
  case (idle q bs acc h now q')
  from held_moves [of _ _ _ "{#}", simplified, OF held_flush_next [OF idle(3)] idle.IH]
  show ?case by simp
next
  case (polled q bs acc now h q' r)
  then have "q' = expire_stuck now h q" by (simp add: has_flushable_work_def Let_def)
  with held_shrinks [OF held_expire_stuck polled.IH] show ?case by simp
next
  case (finished q bs b cs acc)
  have "held q c + outstanding (bs @ cs) c \<subseteq># held q c + outstanding (bs @ b # cs) c" by simp
  with finished.IH [of c] show ?case by (blast intro: subset_mset.order_trans)
next
  case (retried q bs b cs acc now nanos q' r)
  from held_handed_back [OF held_requeue [OF retried(2)], of c "outstanding bs c" "outstanding cs c"] retried.IH [of c]
  show ?case by simp
next
  case (returned q bs b cs acc)
  have "held (requeue_front q b) c \<subseteq># held q c + outstanding [b] c"
    using held_requeue_front [of q b c] by (auto simp: delivered_def intro: subset_mset.order_trans)
  from held_handed_back [OF this, of "outstanding bs c" "outstanding cs c"] returned.IH [of c]
  show ?case by (simp add: requeue_preserve_timestamps_def)
next
  case (cancelled q bs b cs acc reason)
  then show ?case by (simp add: held_requeue_as_cancelled ac_simps)
next
  case (drained q bs acc d q' ids)
  then have "q' = fst (drain_channel q d)" by simp
  with held_shrinks [OF held_drain_channel drained.IH] show ?case by simp
next
  case (steered q bs acc d i q' r)
  then have "q' = fst (mark_native_steer_pending q d i)" by simp
  with steered.IH [of c] show ?case by (simp add: held_mark_native_steer_pending)
next
  case (released q bs acc d i)
  show ?case by (rule held_shrinks [OF held_release_native_steer released.IH])
next
  case (consumed q bs acc d i)
  show ?case by (rule held_shrinks [OF held_remove_event consumed.IH])
next
  case (compacted q bs acc now)
  then show ?case by (simp add: held_def compact_expired_state_def Let_def)
next
  case (extended q bs acc now d s)
  then show ?case by (simp add: held_def extend_in_flight_deadline_def Let_def split: option.split)
qed simp

section \<open>Properties\<close>

definition in_order :: hash_order where
  "in_order = \<lparr>ho_deadlines = (\<lambda>ks. ks), ho_queues = (\<lambda>ks. ks), ho_cancelled = (\<lambda>ks. ks)\<rparr>"

lemma in_order_iterates: "iterates in_order"
  by (simp add: iterates_def in_order_def)

lemma expire_one_frame:
  "q_cancelled (expire_one q c) = q_cancelled q" "q_cancel_reasons (expire_one q c) = q_cancel_reasons q"
  "q_retry_after (expire_one q c) = q_retry_after q" "q_deadline (expire_one q c) = q_deadline q"
  "q_in_flight (expire_one q c) = q_in_flight q - {c}"
  "q_deadlines (expire_one q c) = AList.delete c (q_deadlines q)"
  by (simp_all add: expire_one_def recover_withheld_frame clear_in_flight_def)

lemma expire_stuck_in_flight:
  assumes "iterates h" "dom (map_of (q_deadlines q)) = q_in_flight q"
  shows "q_in_flight (expire_stuck now h q) =
    {c \<in> q_in_flight q. \<forall>d. map_of (q_deadlines q) c = Some d \<longrightarrow> now < d}"
proof -
  have "q_in_flight (foldl expire_one q cs) = q_in_flight q - set cs" for cs
    by (induction cs arbitrary: q) (auto simp: expire_one_frame)
  moreover have "set (expired_ids now h q) = {c. \<exists>d. map_of (q_deadlines q) c = Some d \<and> d \<le> now}"
    unfolding expired_ids_def
    by (auto simp: iterates_set(1) [OF assms(1)] split: option.splits dest: map_of_SomeD intro: rev_image_eqI)
  ultimately show ?thesis using assms(2) by (auto simp: expire_stuck_def not_less)
qed

lemma distinct_count_le_1:
  assumes "\<And>e. count (mset xs) e \<le> 1"
  shows "distinct xs"
  unfolding distinct_count_atmost_1
proof (intro allI)
  fix e
  show "count (mset xs) e = (if e \<in> set xs then 1 else 0)"
  proof (cases "e \<in> set xs")
    case True
    then have "0 < count (mset xs) e" by simp
    with assms [of e] have "count (mset xs) e = 1" by linarith
    with True show ?thesis by simp
  qed (simp add: count_eq_zero_iff)
qed

lemma disjoint_of_counts:
  assumes "\<And>e. count A e + count B e \<le> 1"
  shows "set_mset A \<inter> set_mset B = {}"
proof -
  have False if "e \<in># A" "e \<in># B" for e
    using assms [of e] that [folded count_greater_zero_iff] by linarith
  then show ?thesis by blast
qed

lemma delivered_outstanding:
  "b' \<in> set bs \<Longrightarrow> fb_channel b' = c \<Longrightarrow> delivered b' \<subseteq># outstanding bs c"
  by (induction bs) (auto intro: subset_mset.order_trans)

text \<open>
  C8: The queue never delivers an event twice. Take any sequence of calls the harness can make
  (pushes, flushes, completions, retries, hand-backs, cancellations, steers, expiries, drains),
  with any hash iteration order, in which every event is accepted at most once. Then a batch
  that \<open>flush_next\<close> hands out shares no event with a batch that is still with an agent, and
  holds no event twice, the events of a cancelled turn it carries included.
\<close>

theorem no_double_delivery:
  assumes "queue_run q bs acc" "iterates h" "flush_next now h q = (q', Some b)"
    "\<forall>e. count (acc (fb_channel b)) e \<le> 1"
  shows "distinct (fb_events b @ fb_cancelled b) \<and>
    (\<forall>b' \<in> set bs. fb_channel b' = fb_channel b \<longrightarrow> set_mset (delivered b) \<inter> set_mset (delivered b') = {}) \<and>
    set_mset (delivered b) \<inter> set_mset (held q' (fb_channel b)) = {}"
proof -
  let ?c = "fb_channel b"
  have "held q' ?c + outstanding (b # bs) ?c \<subseteq># acc ?c"
    by (rule queue_run_conserves [OF queue_run.flushed [OF assms(1-3)]])
  from mset_subset_eq_count [OF this]
  have le: "count (held q' ?c) e + (count (delivered b) e + count (outstanding bs ?c) e) \<le> 1" for e
    using order_trans [OF _ assms(4) [rule_format, of e]] by simp
  have "count (mset (fb_events b @ fb_cancelled b)) e \<le> 1" for e
    using le [of e] by (simp add: delivered_def)
  then have "distinct (fb_events b @ fb_cancelled b)" by (rule distinct_count_le_1)
  moreover have "set_mset (delivered b) \<inter> set_mset (held q' ?c) = {}"
  proof (rule disjoint_of_counts)
    show "count (delivered b) e + count (held q' ?c) e \<le> 1" for e using le [of e] by linarith
  qed
  moreover have "set_mset (delivered b) \<inter> set_mset (delivered b') = {}"
    if "b' \<in> set bs" "fb_channel b' = ?c" for b'
  proof (rule disjoint_of_counts)
    fix e
    have "count (delivered b') e \<le> count (outstanding bs ?c) e"
      using mset_subset_eq_count [OF delivered_outstanding [OF that]] .
    then show "count (delivered b) e + count (delivered b') e \<le> 1" using le [of e] by linarith
  qed
  ultimately show ?thesis by blast
qed

text \<open>A queue with two pending events, the first batch of which is with an agent.\<close>

definition queued :: "uuid \<Rightarrow> string \<Rightarrow> nat \<Rightarrow> nat \<Rightarrow> queued_event" where
  "queued c i created received =
     \<lparr>qe_channel = c,
      qe_event = \<lparr>ev_id = i, ev_pubkey = ''a'', ev_created_at = created, ev_kind = 9, ev_tags = [],
                  ev_content = ''hi'', ev_sig = ''''\<rparr>,
      qe_received = received, qe_tag = ''mention''\<rparr>"

definition busy_queue :: event_queue where
  "busy_queue =
     fst (push (mark_complete 20
       (fst (flush_next 10 in_order (fst (push (event_queue_new QueueMode) (queued ''c'' ''e1'' 1 5))))) ''c'')
       (queued ''c'' ''e2'' 2 6))"

definition busy_batch :: flush_batch where
  "busy_batch = the (snd (flush_next 10 in_order (fst (push (event_queue_new QueueMode) (queued ''c'' ''e1'' 1 5)))))"

lemma busy_queue_run:
  "queue_run busy_queue [busy_batch]
     ((\<lambda>_. {#})(''c'' := {#to_batch (queued ''c'' ''e2'' 2 6), to_batch (queued ''c'' ''e1'' 1 5)#}))"
proof -
  let ?q1 = "fst (push (event_queue_new QueueMode) (queued ''c'' ''e1'' 1 5))"
  have "push (event_queue_new QueueMode) (queued ''c'' ''e1'' 1 5) = (?q1, True)" by code_simp
  from queue_run.pushed [OF queue_run.opened this]
  have 1: "queue_run ?q1 [] ((\<lambda>_. {#})(''c'' := {#to_batch (queued ''c'' ''e1'' 1 5)#}))"
    by (simp add: queued_def)
  have "flush_next 10 in_order ?q1 = (fst (flush_next 10 in_order ?q1), Some busy_batch)" by code_simp
  from queue_run.completed [OF queue_run.flushed [OF 1 in_order_iterates this]]
  have 2: "queue_run (mark_complete 20 (fst (flush_next 10 in_order ?q1)) ''c'') [busy_batch]
      ((\<lambda>_. {#})(''c'' := {#to_batch (queued ''c'' ''e1'' 1 5)#}))" .
  have "push (mark_complete 20 (fst (flush_next 10 in_order ?q1)) ''c'') (queued ''c'' ''e2'' 2 6) = (busy_queue, True)"
    by code_simp
  from queue_run.pushed [OF 2 this] show ?thesis by (simp add: queued_def)
qed

lemma no_double_delivery_witness:
  "set_mset (delivered (the (snd (flush_next 30 in_order busy_queue)))) \<inter> set_mset (delivered busy_batch) = {}"
proof -
  let ?r = "flush_next 30 in_order busy_queue"
  have flush: "?r = (fst ?r, Some (the (snd ?r)))" and chan: "fb_channel (the (snd ?r)) = ''c''"
    and "fb_channel busy_batch = ''c''"
    by code_simp+
  have "count ({#to_batch (queued ''c'' ''e2'' 2 6), to_batch (queued ''c'' ''e1'' 1 5)#}) e \<le> 1" for e
    by (auto simp: to_batch_def queued_def)
  with no_double_delivery [OF busy_queue_run in_order_iterates flush] chan \<open>fb_channel busy_batch = ''c''\<close>
  show ?thesis by simp
qed



text \<open>
  The poll \<open>has_flushable_work\<close> and the flush agree: at the same instant the poll answers
  true exactly when a flush hands out a batch, and when there is none both leave the same queue
  behind, with the stuck prompts expired. So the harness neither spins on a poll whose flush
  yields nothing nor sleeps while a batch is ready.
\<close>

theorem poll_agrees_with_flush:
  "(snd (has_flushable_work now h q) \<longleftrightarrow> snd (flush_next now h q) \<noteq> None) \<and>
   (\<not> snd (has_flushable_work now h q) \<longrightarrow> fst (has_flushable_work now h q) = fst (flush_next now h q))"
proof -
  let ?e = "expire_stuck now h q"
  have "next_channel now h ?e = None \<longleftrightarrow> \<not> list_ex (ready now ?e) (ho_queues h (map fst (q_queues ?e)))"
    by (simp add: next_channel_def filter_empty_conv list_ex_iff)
  moreover have "next_cancelled h ?e = None \<longleftrightarrow>
      \<not> list_ex (\<lambda>c. c \<notin> q_in_flight ?e) (ho_cancelled h (map fst (q_cancelled ?e)))"
    by (auto simp: next_cancelled_def find_None_iff list_ex_iff)
  ultimately show ?thesis
    by (auto simp: has_flushable_work_def flush_next_def Let_def split: option.splits)
qed

lemma jitter_bounds:
  assumes "nanos < 1000000000"
  shows "8 / 10 \<le> jitter nanos" "jitter nanos \<le> 9 / 10"
proof -
  have "(of_nat nanos :: rat) \<le> of_nat 1000000000" using assms by (simp only: of_nat_le_iff)
  then show "8 / 10 \<le> jitter nanos" "jitter nanos \<le> 9 / 10" by (simp_all add: jitter_def)
qed

lemma retry_delay_bounds:
  assumes "nanos < 1000000000"
  shows "8 * secs (capped_secs n) \<le> 10 * retry_delay n nanos" "10 * retry_delay n nanos \<le> 9 * secs (capped_secs n)"
proof -
  define k where "k = capped_secs n"
  let ?x = "(of_nat (secs k) :: rat) * jitter nanos"
  have "of_int (int k * 800000000) \<le> ?x" "?x \<le> of_int (int k * 900000000)"
    using mult_left_mono [OF jitter_bounds(1) [OF assms], of "of_nat (secs k)"]
      mult_left_mono [OF jitter_bounds(2) [OF assms], of "of_nat (secs k)"]
    by (simp_all add: secs_def)
  from round_mono [OF this(1)] round_mono [OF this(2)]
  have "int k * 800000000 \<le> round ?x" "round ?x \<le> int k * 900000000" unfolding round_of_int .
  then show "8 * secs (capped_secs n) \<le> 10 * retry_delay n nanos" "10 * retry_delay n nanos \<le> 9 * secs (capped_secs n)"
    unfolding k_def [symmetric] retry_delay_def secs_def by linarith+
qed

definition retry_count :: "event_queue \<Rightarrow> uuid \<Rightarrow> nat" where
  "retry_count q c = (case map_of (q_retry_counts q) c of None \<Rightarrow> 0 | Some n \<Rightarrow> n)"

text \<open>
  C21: A failed batch is retried with exponential backoff at most ten times. While fewer than ten
  attempts are counted, \<open>requeue\<close> puts the batch's events back at the front of the channel in
  order, counts the attempt, and the channel is not ready before the delay has passed; completing
  the turn meanwhile keeps the count. The delay is between 80 and 90 percent of 5 seconds doubled
  per attempt and capped at 300. On the next failure the batch is returned as a dead letter, the
  count and the throttle are cleared and the pending events are untouched.
\<close>

theorem retry_backoff:
  assumes "nanos < 1000000000" "requeue now nanos q b = (q', r)"
  shows "let c = fb_channel b; n = retry_count q c in
    if n < MAX_RETRIES
    then r = None \<and> retry_count q' c = n + 1 \<and>
      slot (q_queues q') c = take MAX_PENDING_PER_CHANNEL (map (to_queued c) (fb_events b) @ slot (q_queues q) c) \<and>
      (\<forall>t. ready t q' c \<longrightarrow> 10 * now + 8 * secs (min (5 * 2 ^ n) 300) \<le> 10 * t) \<and>
      (\<forall>t. 10 * now + 9 * secs (min (5 * 2 ^ n) 300) \<le> 10 * t \<longrightarrow> c \<notin> q_in_flight q' \<longrightarrow> fb_events b \<noteq> [] \<longrightarrow> ready t q' c) \<and>
      (\<forall>t. 10 * t < 10 * now + 8 * secs (min (5 * 2 ^ n) 300) \<longrightarrow> retry_count (mark_complete t q' c) c = n + 1)
    else r = Some b \<and> retry_count q' c = 0 \<and> map_of (q_retry_after q') c = None \<and> q_queues q' = q_queues q"
proof (cases "retry_count q (fb_channel b) < MAX_RETRIES")
  case True
  let ?c = "fb_channel b" and ?n = "retry_count q (fb_channel b)"
  have shift: "capped_secs (?n + 1) = min (5 * 2 ^ ?n) 300"
  proof (cases "?n \<le> 6")
    case False
    then have "(2::nat) ^ 6 \<le> 2 ^ ?n" by (intro power_increasing) simp_all
    with False show ?thesis
      by (simp add: capped_secs_def BASE_RETRY_DELAY_SECS_def MAX_RETRY_DELAY_SECS_def min_def)
  qed (simp add: capped_secs_def BASE_RETRY_DELAY_SECS_def MAX_RETRY_DELAY_SECS_def min_def)
  note delay = retry_delay_bounds [OF assms(1), of "?n + 1", unfolded shift]
  from True assms(2) have q': "r = None"
    "q' = (requeue_front (q\<lparr>q_retry_counts := AList.update ?c (?n + 1) (q_retry_counts q)\<rparr>) b)
       \<lparr>q_retry_after := AList.update ?c (now + retry_delay (?n + 1) nanos) (q_retry_after q)\<rparr>"
    by (auto simp: requeue_def Let_def requeue_front_def simp flip: retry_count_def)
  have after: "map_of (q_retry_after q') ?c = Some (now + retry_delay (?n + 1) nanos)"
    and counts: "map_of (q_retry_counts q') ?c = Some (?n + 1)"
    and queue: "slot (q_queues q') ?c = take MAX_PENDING_PER_CHANNEL (map (to_queued ?c) (fb_events b) @ slot (q_queues q) ?c)"
    by (simp_all add: q' update_conv' requeue_front_def trim_back_take del: take_append)
  have ready: "ready t q' ?c \<longleftrightarrow> slot (q_queues q') ?c \<noteq> [] \<and> ?c \<notin> q_in_flight q' \<and> now + retry_delay (?n + 1) nanos \<le> t" for t
    by (simp add: ready_def after)
  have kept: "retry_count (mark_complete t q' ?c) ?c = ?n + 1" if "t < now + retry_delay (?n + 1) nanos" for t
    using that by (simp add: mark_complete_def Let_def after counts retry_count_def)
  show ?thesis
    unfolding Let_def if_P [OF True] ready queue
    using q'(1) counts delay MAX_PENDING_pos kept
    by (auto simp: retry_count_def simp del: take_append)
next
  case False
  with assms(2) show ?thesis
    by (auto simp: requeue_def Let_def retry_count_def delete_conv' split: option.splits)
qed

lemma retry_backoff_witness:
  "snd (requeue 40 7 busy_queue busy_batch) = None \<and>
   retry_count (fst (requeue 40 7 busy_queue busy_batch)) ''c'' = 1"
proof -
  have "fb_channel busy_batch = ''c''" "retry_count busy_queue ''c'' = 0" by code_simp+
  with retry_backoff [of 7 40 busy_queue busy_batch "fst (requeue 40 7 busy_queue busy_batch)" "snd (requeue 40 7 busy_queue busy_batch)"]
  show ?thesis by (auto simp: Let_def MAX_RETRIES_def)
qed

end
