(* ===== verification/Acp_Prompt.thy ===== *)
theory Acp_Prompt
  imports Acp_Queue
begin

text \<open>
  What the agent harness reads out of a batch and how it renders it
  (\<open>crates/buzz-acp/src/queue.rs\<close>, second half): the NIP-10 thread tags of an event, slash
  commands behind leading mentions, profile labels, reply anchors, and the sections of the prompt
  for a flushed batch. Strings are UTF-8 byte sequences, so characters, white space and control
  characters are recognised in their encoding. The bech32 form of a key, RFC 3339 times and the
  JSON text of the tags come from libraries and are parameters.
\<close>

section \<open>Thread tags\<close>

record thread_tags =
  tt_root :: "string option"
  tt_parent :: "string option"
  tt_mentions :: "string list"

definition empty_thread_tags :: thread_tags where
  "empty_thread_tags = \<lparr>tt_root = None, tt_parent = None, tt_mentions = []\<rparr>"

definition scan_tag ::
  "string option \<times> string option \<times> string list \<Rightarrow> tag \<Rightarrow> string option \<times> string option \<times> string list" where
  "scan_tag acc t =
     (case acc of (root_id, reply, mentions) \<Rightarrow>
        let parts = tag_values_list t in
        if tag_name t = ''e'' \<and> 4 \<le> length parts then
          if parts ! 3 = ''root'' then (Some (parts ! 1), reply, mentions)
          else if parts ! 3 = ''reply'' then (root_id, Some (parts ! 1), mentions)
          else (root_id, reply, mentions)
        else if tag_name t = ''p'' \<and> 2 \<le> length parts then (root_id, reply, mentions @ [parts ! 1])
        else (root_id, reply, mentions))"

definition parse_thread_tags :: "event \<Rightarrow> thread_tags" where
  "parse_thread_tags e =
     (case foldl scan_tag (None, None, []) (ev_tags e) of (root_id, reply, mentions) \<Rightarrow>
        let (r, p) = (case (root_id, reply) of
              (Some r, Some p) \<Rightarrow> (Some r, Some p)
            | (Some r, None) \<Rightarrow> (Some r, Some r)
            | (None, Some p) \<Rightarrow> (Some p, Some p)
            | (None, None) \<Rightarrow> (None, None))
        in \<lparr>tt_root = r, tt_parent = p, tt_mentions = mentions\<rparr>)"

section \<open>Slash commands\<close>

definition skip_token :: "string \<Rightarrow> string" where
  "skip_token s = concat (dropWhile (\<lambda>c. \<not> is_whitespace c) (chars s))"

definition name_match :: "string \<Rightarrow> string \<Rightarrow> nat option" where
  "name_match after_at name =
     (if length name \<le> length after_at \<and> is_char_boundary after_at (length name)
         \<and> eq_ignore_ascii_case (take (length name) after_at) name
      then (case chars (drop (length name) after_at) of
              [] \<Rightarrow> Some (length name)
            | c # _ \<Rightarrow> if is_whitespace c then Some (length name) else None)
      else None)"

definition plain_mention :: "string \<Rightarrow> nat option" where
  "plain_mention after_at =
     (let n = length (takeWhile (\<lambda>c. is_ascii_alphanumeric c \<or> c = CHR ''.'' \<or> c = CHR ''-'' \<or> c = CHR ''_'') after_at)
      in if 0 < n then Some n else None)"

definition mention_length :: "string list \<Rightarrow> string \<Rightarrow> nat option" where
  "mention_length names after_at =
     (case find_map (name_match after_at) names of Some n \<Rightarrow> Some n | None \<Rightarrow> plain_mention after_at)"

definition is_nip27 :: "string \<Rightarrow> bool" where
  "is_nip27 s \<longleftrightarrow> starts_with s ''nostr:npub1'' \<or> starts_with s ''nostr:nprofile1''"

lemma skip_token_shorter:
  assumes "is_nip27 s"
  shows "length (skip_token s) < length s"
proof -
  from assms obtain r where s: "s = CHR ''n'' # r"
    by (auto simp: is_nip27_def starts_with_iff)
  have "\<not> is_whitespace [CHR ''n'']" by code_simp
  moreover have w: "utf8_width CHR ''n'' = 1" by code_simp
  ultimately have "skip_token s = concat (dropWhile (\<lambda>c. \<not> is_whitespace c) (chars r))"
    by (simp add: skip_token_def s w)
  moreover have "suffix \<dots> r"
    using suffix_dropWhile_concat [of "\<lambda>c. \<not> is_whitespace c" "chars r"] by simp
  ultimately show ?thesis using suffix_length_le by (fastforce simp: s)
qed

function strip_mentions :: "string list \<Rightarrow> string \<Rightarrow> string option" where
  "strip_mentions names rest =
     (if is_nip27 rest then strip_mentions names (trim_start (skip_token rest))
      else (case strip_prefix rest ''@'' of
              None \<Rightarrow> Some rest
            | Some after_at \<Rightarrow>
                (case mention_length names after_at of
                   None \<Rightarrow> None
                 | Some n \<Rightarrow> strip_mentions names (trim_start (drop n after_at)))))"
  by auto
termination
proof (relation "measure (\<lambda>(names, rest). length rest)")
  fix names rest
  assume "is_nip27 rest"
  from le_less_trans [OF trim_start_length skip_token_shorter [OF this]]
  show "((names, trim_start (skip_token rest)), names, rest) \<in> measure (\<lambda>(names, rest). length rest)"
    by simp
next
  fix names rest after_at n
  assume "strip_prefix rest ''@'' = Some after_at"
  then have "length after_at < length rest" by (simp add: strip_prefix_eq_Some)
  with trim_start_length [of "drop n after_at"]
  show "((names, trim_start (drop n after_at)), names, rest) \<in> measure (\<lambda>(names, rest). length rest)"
    by simp
qed simp

declare strip_mentions.simps [simp del]

definition is_command :: "string \<Rightarrow> bool" where
  "is_command s = (case s of a # c # _ \<Rightarrow> a = CHR ''/'' \<and> is_ascii_alphanumeric c | _ \<Rightarrow> False)"

definition extract_slash_command :: "string \<Rightarrow> string list \<Rightarrow> string option" where
  "extract_slash_command content known_names =
     (let names = sort_key (\<lambda>n. - int (length n)) (filter (\<lambda>n. \<not> is_blank n) known_names) in
      case strip_mentions names (trim_start content) of
        None \<Rightarrow> None
      | Some rest \<Rightarrow> if is_command rest then Some rest else None)"

definition slash_command_for_batch :: "flush_batch \<Rightarrow> string list \<Rightarrow> string option" where
  "slash_command_for_batch b known_names =
     (if length (fb_events b) \<noteq> 1 \<or> fb_cancelled b \<noteq> [] then None
      else extract_slash_command (ev_content (be_event (fb_events b ! 0))) known_names)"

section \<open>Profiles, labels and reply anchors\<close>

record context_message =
  cm_pubkey :: string
  cm_timestamp :: string
  cm_content :: string

datatype conversation_context =
  ThreadContext "context_message list" nat bool
| DmContext "context_message list" nat bool

record prompt_channel_info =
  pci_name :: string
  pci_channel_type :: string

record prompt_profile =
  pp_display_name :: "string option"
  pp_nip05_handle :: "string option"
  pp_is_agent :: bool

type_synonym profile_lookup = "string \<Rightarrow> prompt_profile option"

record prompt_lib =
  pl_bech32 :: "pubkey \<Rightarrow> string option"
  pl_rfc3339 :: "nat \<Rightarrow> string option"
  pl_tags_json :: "string list list \<Rightarrow> string option"

definition normalize_lookup_key :: "string \<Rightarrow> string" where
  "normalize_lookup_key pubkey = to_ascii_lowercase (trim pubkey)"

definition MAX_PROMPT_LABEL_LEN :: nat where
  "MAX_PROMPT_LABEL_LEN = 64"

definition sanitize_prompt_label :: "string \<Rightarrow> string option" where
  "sanitize_prompt_label raw =
     (let clean = concat (take MAX_PROMPT_LABEL_LEN (filter (\<lambda>c. \<not> is_control c) (chars (trim raw))))
      in if clean = [] then None else Some clean)"

definition resolve_prompt_label :: "string \<Rightarrow> profile_lookup option \<Rightarrow> string option" where
  "resolve_prompt_label pubkey lookup =
     Option.bind (Option.bind lookup (\<lambda>m. m (normalize_lookup_key pubkey))) (\<lambda>profile.
       case Option.bind (pp_display_name profile) sanitize_prompt_label of
         Some label \<Rightarrow> Some label
       | None \<Rightarrow> Option.bind (pp_nip05_handle profile) sanitize_prompt_label)"

definition format_prompt_actor :: "string \<Rightarrow> profile_lookup option \<Rightarrow> string" where
  "format_prompt_actor pubkey lookup =
     (case resolve_prompt_label pubkey lookup of
        Some label \<Rightarrow> label @ '' ('' @ pubkey @ '')''
      | None \<Rightarrow> pubkey)"

definition profile_is_agent :: "profile_lookup option \<Rightarrow> string \<Rightarrow> bool" where
  "profile_is_agent lookup pubkey =
     (case Option.bind lookup (\<lambda>m. m (normalize_lookup_key pubkey)) of
        None \<Rightarrow> False | Some p \<Rightarrow> pp_is_agent p)"

definition turn_is_human_facing :: "string \<Rightarrow> thread_tags \<Rightarrow> profile_lookup option \<Rightarrow> bool" where
  "turn_is_human_facing sender tags lookup =
     (\<not> profile_is_agent lookup sender \<or> list_ex (\<lambda>pk. \<not> profile_is_agent lookup pk) (tt_mentions tags))"

definition resolve_reply_anchor ::
  "string \<Rightarrow> thread_tags \<Rightarrow> string \<Rightarrow> profile_lookup option \<Rightarrow> string option" where
  "resolve_reply_anchor sender tags triggering_id lookup =
     (if \<not> turn_is_human_facing sender tags lookup then None
      else Some (case tt_root tags of Some r \<Rightarrow> r | None \<Rightarrow> triggering_id))"

section \<open>Rendering a batch\<close>

definition nl :: string where
  "nl = [CHR 10]"

definition em_dash :: string where
  "em_dash = [char_of (226::nat), char_of (128::nat), char_of (148::nat)]"

definition channel_display :: "uuid \<Rightarrow> prompt_channel_info option \<Rightarrow> string" where
  "channel_display c info =
     (case info of Some ci \<Rightarrow> pci_name ci @ '' (#'' @ c @ '')'' | None \<Rightarrow> c)"

definition format_event_block ::
  "prompt_lib \<Rightarrow> uuid \<Rightarrow> prompt_channel_info option \<Rightarrow> batch_event \<Rightarrow> profile_lookup option \<Rightarrow> string" where
  "format_event_block P c info be lookup =
     (let e = be_event be;
          hex = ev_pubkey e;
          npub = (case pl_bech32 P hex of Some s \<Rightarrow> s | None \<Rightarrow> hex);
          time = (case pl_rfc3339 P (ev_created_at e) of Some s \<Rightarrow> s | None \<Rightarrow> show_nat (ev_created_at e));
          sender = (case resolve_prompt_label hex lookup of
              Some label \<Rightarrow> label @ '' (npub: '' @ npub @ '', hex: '' @ hex @ '')''
            | None \<Rightarrow> npub @ '' (hex: '' @ hex @ '')'');
          block = ''Event ID: '' @ ev_id e @ nl @ ''Channel: '' @ channel_display c info @ nl
            @ ''Kind: '' @ show_nat (ev_kind e) @ nl @ ''From: '' @ sender @ nl @ ''Time: '' @ time @ nl
            @ ''Content: '' @ ev_content e;
          tags = (case pl_tags_json P (map tag_values_list (ev_tags e)) of
              Some s \<Rightarrow> nl @ ''Tags: '' @ s | None \<Rightarrow> []);
          thread = parse_thread_tags e;
          parsed = (case tt_parent thread of Some p \<Rightarrow> [''parent='' @ p] | None \<Rightarrow> [])
            @ (case tt_root thread of Some r \<Rightarrow> [''root='' @ r] | None \<Rightarrow> [])
            @ (if tt_mentions thread = [] then []
               else [''mentions=['' @ join '', '' (map (\<lambda>p. format_prompt_actor p lookup) (tt_mentions thread)) @ '']''])
      in block @ tags @ (if parsed = [] then [] else nl @ ''Parsed: '' @ join '', '' parsed))"

definition reply_instruction :: "string \<Rightarrow> string" where
  "reply_instruction i = nl
     @ ''IMPORTANT: For ordinary replies in this turn, use `--reply-to '' @ i @ ''` ''
     @ ''on `buzz messages send` so the conversation stays threaded. ''
     @ ''If the human explicitly asks for a channel-root, top-level, ''
     @ ''or broadcast post, send that message without `--reply-to`. ''
     @ ''If the requested destination is ambiguous, ask before sending.''"

definition new_thread_reply_instruction :: "string \<Rightarrow> string" where
  "new_thread_reply_instruction i = nl
     @ ''IMPORTANT: This is a new top-level message. For ordinary replies in ''
     @ ''this turn, use `--reply-to '' @ i @ ''` on `buzz messages send` '' @ em_dash @ '' the ''
     @ ''triggering message is the thread root. Do NOT reply into any other ''
     @ ''(older) thread. If the human explicitly asks for a channel-root, ''
     @ ''top-level, or broadcast post, send that message without `--reply-to`.''"

definition thread_hint :: string where
  "thread_hint = ''Thread context included below. Use `buzz messages thread --channel <UUID> --event <ID>` for full history if truncated.''"

definition parent_line :: "thread_tags \<Rightarrow> string \<Rightarrow> string" where
  "parent_line tags r =
     (case tt_parent tags of Some p \<Rightarrow> if p \<noteq> r then nl @ ''Parent: '' @ p else [] | None \<Rightarrow> [])"

definition anchored :: "(string \<Rightarrow> string) \<Rightarrow> string option \<Rightarrow> string" where
  "anchored f anchor = (case anchor of Some i \<Rightarrow> f i | None \<Rightarrow> [])"

definition format_context_hints ::
  "uuid \<Rightarrow> prompt_channel_info option \<Rightarrow> thread_tags \<Rightarrow> bool \<Rightarrow> bool \<Rightarrow> string option \<Rightarrow> string" where
  "format_context_hints c info tags is_dm has_context anchor =
     (if is_dm then
        let is_reply = (tt_root tags \<noteq> None);
            hint = (if has_context \<and> is_reply then thread_hint
              else if has_context then ''Conversation context included below. Use `buzz messages get --channel <UUID>` for full history if truncated.''
              else if is_reply then ''Use `buzz messages thread --channel <UUID> --event <ID>` to fetch the reply chain.''
              else ''Use `buzz messages get --channel <UUID>` for conversation context.'')
        in ''[Context]'' @ nl @ ''Scope: dm'' @ nl @ ''Channel: '' @ channel_display c info @ nl @ hint
           @ (case tt_root tags of
                Some r \<Rightarrow> nl @ ''Thread root: '' @ r @ parent_line tags r @ anchored reply_instruction anchor
              | None \<Rightarrow> [])
      else case tt_root tags of
        Some r \<Rightarrow>
          ''[Context]'' @ nl @ ''Scope: thread'' @ nl @ ''Channel: '' @ channel_display c info @ nl
          @ ''Thread root: '' @ r @ parent_line tags r @ nl
          @ (if has_context then thread_hint
             else ''Use `buzz messages thread --channel <UUID> --event <ID>` to fetch thread context.'')
          @ anchored reply_instruction anchor
      | None \<Rightarrow>
          ''[Context]'' @ nl @ ''Scope: channel'' @ nl @ ''Channel: '' @ channel_display c info @ nl
          @ ''Hint: Use `buzz messages get --channel <UUID>` for recent messages if needed.''
          @ anchored new_thread_reply_instruction anchor)"

definition format_message :: "profile_lookup option \<Rightarrow> nat \<Rightarrow> context_message \<Rightarrow> string" where
  "format_message lookup i msg =
     nl @ ''['' @ show_nat (i + 1) @ ''] '' @ format_prompt_actor (cm_pubkey msg) lookup @ '' ('' @ cm_timestamp msg
     @ ''): '' @ cm_content msg"

definition context_section :: "string \<Rightarrow> context_message list \<Rightarrow> nat \<Rightarrow> bool \<Rightarrow> profile_lookup option \<Rightarrow> string" where
  "context_section label messages total_count truncated lookup =
     ''['' @ label @ '' ('' @ show_nat (length messages) @ '' of '' @ show_nat total_count @ '' messages''
     @ (if truncated then '', truncated'' else []) @ '')]''
     @ concat (map (\<lambda>(i, msg). format_message lookup i msg) (enumerate 0 messages))"

fun format_conversation_context :: "conversation_context \<Rightarrow> profile_lookup option \<Rightarrow> string" where
  "format_conversation_context (ThreadContext messages total_count truncated) lookup =
     context_section ''Thread Context'' messages total_count truncated lookup"
| "format_conversation_context (DmContext messages total_count truncated) lookup =
     context_section ''Conversation Context'' messages total_count truncated lookup"

record merge_framing =
  mf_prior_header :: string
  mf_new_header_single :: string
  mf_new_header_multi_prefix :: string
  mf_closing_note :: string

definition steer_framing :: merge_framing where
  "steer_framing =
     \<lparr>mf_prior_header = ''[What you were working on]'',
      mf_new_header_single = ''[New message '' @ em_dash @ '' arrived while you were working]'',
      mf_new_header_multi_prefix = ''[New messages '' @ em_dash @ '' arrived while you were working'',
      mf_closing_note = ''Note: A new message arrived while you were working. Continue your ''
        @ ''in-progress work and incorporate the new message if it's relevant; if it's ''
        @ ''unrelated, you may briefly acknowledge it and carry on.''\<rparr>"

definition interrupt_framing :: merge_framing where
  "interrupt_framing =
     \<lparr>mf_prior_header = ''[Previous request '' @ em_dash @ '' interrupted before completion]'',
      mf_new_header_single = ''[New request '' @ em_dash @ '' supersedes previous]'',
      mf_new_header_multi_prefix = ''[New request '' @ em_dash @ '' supersedes previous'',
      mf_closing_note = ''Note: The previous request was interrupted. Please address the new ''
        @ ''request.'' @ nl @ ''If the new request is unrelated to the previous one, you may ''
        @ ''briefly acknowledge the interruption.''\<rparr>"

fun framing_for_reason :: "cancel_reason option \<Rightarrow> merge_framing" where
  "framing_for_reason None = steer_framing"
| "framing_for_reason (Some Steer) = steer_framing"
| "framing_for_reason (Some Interrupt) = interrupt_framing"

definition native_steer_framing :: "string \<times> string" where
  "native_steer_framing =
     (let f = framing_for_reason (Some Steer) in (mf_new_header_single f, mf_closing_note f))"

record format_prompt_args =
  fa_agent_core :: "string option"
  fa_channel_info :: "prompt_channel_info option"
  fa_conversation_context :: "conversation_context option"
  fa_profile_lookup :: "profile_lookup option"
  fa_has_system_prompt_support :: bool
  fa_base_prompt :: "string option"
  fa_system_prompt :: "string option"
  fa_team_instructions :: "string option"
  fa_agent_canvas :: "string option"

definition base_section :: "string \<Rightarrow> string" where
  "base_section base_prompt = ''[Base]'' @ nl @ trim_end base_prompt"

definition opt_section :: "string option \<Rightarrow> string list" where
  "opt_section s = (case s of Some x \<Rightarrow> [x] | None \<Rightarrow> [])"

text \<open>The sections a legacy agent, without a system role, gets in the user message.\<close>

definition legacy_sections :: "format_prompt_args \<Rightarrow> string list" where
  "legacy_sections a =
     (if fa_has_system_prompt_support a then []
      else opt_section (map_option base_section (fa_base_prompt a))
        @ opt_section (map_option (\<lambda>sp. ''[System]'' @ nl @ sp) (fa_system_prompt a))
        @ (case map_option trim (fa_team_instructions a) of
             Some team \<Rightarrow> if team \<noteq> [] then [''[Team Instructions]'' @ nl @ team] else []
           | None \<Rightarrow> [])
        @ opt_section (fa_agent_core a)
        @ opt_section (fa_agent_canvas a))"

definition event_entry :: "prompt_lib \<Rightarrow> flush_batch \<Rightarrow> format_prompt_args \<Rightarrow> nat \<Rightarrow> batch_event \<Rightarrow> string" where
  "event_entry P b a i be =
     nl @ nl @ ''--- Event '' @ show_nat (i + 1) @ '' ('' @ be_tag be @ '') ---'' @ nl
     @ format_event_block P (fb_channel b) (fa_channel_info a) be (fa_profile_lookup a)"

definition event_entries :: "prompt_lib \<Rightarrow> flush_batch \<Rightarrow> format_prompt_args \<Rightarrow> batch_event list \<Rightarrow> string" where
  "event_entries P b a bes = concat (map (\<lambda>(i, be). event_entry P b a i be) (enumerate 0 bes))"

definition event_section :: "prompt_lib \<Rightarrow> flush_batch \<Rightarrow> format_prompt_args \<Rightarrow> string" where
  "event_section P b a =
     (let framing = framing_for_reason (fb_reason b);
          has_cancelled = (fb_cancelled b \<noteq> [])
      in case fb_events b of
           [be] \<Rightarrow>
             if has_cancelled then mf_new_header_single framing @ event_entry P b a 0 be
             else ''[Buzz event: '' @ be_tag be @ '']'' @ nl
               @ format_event_block P (fb_channel b) (fa_channel_info a) be (fa_profile_lookup a)
         | _ \<Rightarrow>
             (if has_cancelled
              then mf_new_header_multi_prefix framing @ '' '' @ em_dash @ '' '' @ show_nat (length (fb_events b)) @ '' events]''
              else ''[Buzz events '' @ em_dash @ '' '' @ show_nat (length (fb_events b)) @ '' events]'')
             @ event_entries P b a (fb_events b))"

definition prompt_anchor :: "bool \<Rightarrow> event \<Rightarrow> format_prompt_args \<Rightarrow> string option" where
  "prompt_anchor is_dm e a =
     (let tags = parse_thread_tags e in
      if is_dm then (if tt_root tags \<noteq> None then Some (ev_id e) else None)
      else resolve_reply_anchor (ev_pubkey e) tags (ev_id e) (fa_profile_lookup a))"

definition format_prompt :: "prompt_lib \<Rightarrow> flush_batch \<Rightarrow> format_prompt_args \<Rightarrow> string list" where
  "format_prompt P b a =
     (case last_of (fb_events b) of
        None \<Rightarrow> []
      | Some last_event \<Rightarrow>
          let e = be_event last_event;
              is_dm = (case fa_channel_info a of Some ci \<Rightarrow> pci_channel_type ci = ''dm'' | None \<Rightarrow> False);
              framing = framing_for_reason (fb_reason b)
          in legacy_sections a
             @ [format_context_hints (fb_channel b) (fa_channel_info a) (parse_thread_tags e) is_dm
                  (fa_conversation_context a \<noteq> None) (prompt_anchor is_dm e a)]
             @ opt_section (map_option (\<lambda>ctx. format_conversation_context ctx (fa_profile_lookup a)) (fa_conversation_context a))
             @ (if fb_cancelled b \<noteq> [] then [mf_prior_header framing @ event_entries P b a (fb_cancelled b)] else [])
             @ [event_section P b a]
             @ (if fb_cancelled b \<noteq> [] then [mf_closing_note framing] else []))"

section \<open>Properties\<close>

lemma strip_mentions_suffix: "strip_mentions names rest = Some r \<Longrightarrow> suffix r rest"
proof (induction names rest rule: strip_mentions.induct)
  case (1 names rest)
  show ?case
  proof (cases "is_nip27 rest")
    case True
    with "1.prems" have "strip_mentions names (trim_start (skip_token rest)) = Some r"
      by (simp add: strip_mentions.simps [of names rest])
    with "1.IH"(1) [OF True] have "suffix r (trim_start (skip_token rest))" .
    moreover have "suffix (skip_token rest) rest"
      using suffix_dropWhile_concat [of "\<lambda>c. \<not> is_whitespace c" "chars rest"] by (simp add: skip_token_def)
    ultimately show ?thesis using trim_start_suffix suffix_order.trans by blast
  next
    case False
    show ?thesis
    proof (cases "strip_prefix rest ''@''")
      case None
      with False "1.prems" show ?thesis by (simp add: strip_mentions.simps [of names rest])
    next
      case (Some after_at)
      with False "1.prems" obtain n where n: "mention_length names after_at = Some n"
        "strip_mentions names (trim_start (drop n after_at)) = Some r"
        by (auto simp: strip_mentions.simps [of names rest] split: option.splits)
      with "1.IH"(2) [OF False Some n(1)] have "suffix r (trim_start (drop n after_at))" by blast
      moreover have "suffix (drop n after_at) rest"
        using Some by (auto simp: strip_prefix_eq_Some suffix_drop intro: suffix_ConsI)
      ultimately show ?thesis using trim_start_suffix suffix_order.trans by blast
    qed
  qed
qed

lemma chars_ascii: "byte c < 192 \<Longrightarrow> chars (c # cs) = [c] # chars cs"
  by (simp add: utf8_width_def)

lemma trim_start_unchanged: "chars s = c # cs \<Longrightarrow> \<not> is_whitespace c \<Longrightarrow> trim_start s = s"
  using concat_chars [of s] by (simp add: trim_start_def)

lemma strip_mentions_plain:
  "\<not> is_nip27 s \<Longrightarrow> strip_prefix s ''@'' = None \<Longrightarrow> strip_mentions names s = Some s"
  by (simp add: strip_mentions.simps)

lemma is_command_slash: "is_command s \<Longrightarrow> \<exists>r. s = CHR ''/'' # r"
  by (auto simp: is_command_def split: list.splits)

lemma starts_with_at: "chars s = c # cs \<Longrightarrow> c \<noteq> ''@'' \<Longrightarrow> strip_prefix s ''@'' = None"
  using chars_ascii [of "CHR ''@''"]
  by (cases "strip_prefix s ''@''") (auto simp: strip_prefix_eq_Some byte_def)



lemma sublist_behind: "sublist xs ys \<Longrightarrow> zs = us @ ys \<Longrightarrow> sublist xs zs"
  unfolding sublist_def by (metis append_assoc)

lemma event_entry_block:
  "sublist (format_event_block P (fb_channel b) (fa_channel_info a) be (fa_profile_lookup a)) (event_entry P b a i be)"
  by (rule sublist_behind [OF sublist_order.order_refl, where us = "nl @ nl @ ''--- Event '' @ show_nat (i + 1) @ '' ('' @ be_tag be @ '') ---'' @ nl"])
    (simp add: event_entry_def)

lemma event_entries_blocks:
  assumes "be \<in> set bes"
  shows "sublist (format_event_block P (fb_channel b) (fa_channel_info a) be (fa_profile_lookup a)) (event_entries P b a bes)"
proof -
  from assms obtain i where "i < length bes" "bes ! i = be" by (auto simp: in_set_conv_nth)
  then have "(i, be) \<in> set (enumerate 0 bes)" by (simp add: in_set_enumerate_eq)
  then obtain us vs where "enumerate 0 bes = us @ (i, be) # vs" by (meson split_list)
  then have "event_entries P b a bes = concat (map (\<lambda>(i, be). event_entry P b a i be) us) @ event_entry P b a i be
      @ concat (map (\<lambda>(i, be). event_entry P b a i be) vs)"
    by (simp add: event_entries_def)
  then have "sublist (event_entry P b a i be) (event_entries P b a bes)" by (simp add: sublist_appendI)
  with event_entry_block show ?thesis by (rule sublist_order.order_trans)
qed


definition plain_lib :: prompt_lib where
  "plain_lib = \<lparr>pl_bech32 = (\<lambda>_. None), pl_rfc3339 = (\<lambda>_. None), pl_tags_json = (\<lambda>_. None)\<rparr>"

definition plain_args :: format_prompt_args where
  "plain_args = \<lparr>fa_agent_core = None, fa_channel_info = None, fa_conversation_context = None,
     fa_profile_lookup = None, fa_has_system_prompt_support = True, fa_base_prompt = None,
     fa_system_prompt = None, fa_team_instructions = None, fa_agent_canvas = None\<rparr>"

definition merged_batch :: flush_batch where
  "merged_batch = \<lparr>fb_channel = ''c'', fb_events = [to_batch (queued ''c'' ''e2'' 2 6)],
     fb_cancelled = [to_batch (queued ''c'' ''e1'' 1 5)], fb_reason = Some Interrupt\<rparr>"


end
