(* ===== verification/Acp_Harness.thy ===== *)
theory Acp_Harness
  imports Acp_Prompt
begin

text \<open>
  The agent harness around the event queue (\<open>crates/buzz-acp/src/lib.rs\<close>, \<open>pool.rs\<close>,
  \<open>pool_lifecycle.rs\<close>): the pool of agents and their sessions, the dispatch of flushed batches,
  what happens to a batch when its turn ends, the control signals and steers that reach a turn in
  flight, recovery from a panicked task, the circuit breaker of an agent slot, and the lazy start
  of the pool. Agent subprocesses, task spawning and the posting of notices are outside the model:
  an operation returns the notices it posts, and the ids and clock readings it takes are arguments.
\<close>

section \<open>Agents and their sessions\<close>

record session_state =
  ss_sessions :: "(uuid \<times> string) list"
  ss_heartbeat_session :: "string option"
  ss_turn_counts :: "(uuid \<times> nat) list"
  ss_heartbeat_turn_count :: nat
  ss_core_sections :: "(uuid \<times> string) list"
  ss_canvas_sections :: "(uuid \<times> string) list"

datatype prompt_source = Channel uuid | Heartbeat

definition session_default :: session_state where
  "session_default = \<lparr>ss_sessions = [], ss_heartbeat_session = None, ss_turn_counts = [],
     ss_heartbeat_turn_count = 0, ss_core_sections = [], ss_canvas_sections = []\<rparr>"

definition invalidate_channel :: "session_state \<Rightarrow> uuid \<Rightarrow> session_state \<times> bool" where
  "invalidate_channel s c =
     (s\<lparr>ss_turn_counts := AList.delete c (ss_turn_counts s),
        ss_core_sections := AList.delete c (ss_core_sections s),
        ss_canvas_sections := AList.delete c (ss_canvas_sections s),
        ss_sessions := AList.delete c (ss_sessions s)\<rparr>,
      map_of (ss_sessions s) c \<noteq> None)"

fun invalidate :: "session_state \<Rightarrow> prompt_source \<Rightarrow> session_state" where
  "invalidate s (Channel c) = fst (invalidate_channel s c)"
| "invalidate s Heartbeat = s\<lparr>ss_heartbeat_session := None, ss_heartbeat_turn_count := 0\<rparr>"

definition invalidate_all :: "session_state \<Rightarrow> session_state" where
  "invalidate_all s =
     s\<lparr>ss_sessions := [], ss_turn_counts := [], ss_heartbeat_session := None,
       ss_heartbeat_turn_count := 0, ss_core_sections := [], ss_canvas_sections := []\<rparr>"

record owned_agent =
  ag_index :: nat
  ag_state :: session_state
  ag_desired_model :: "string option"
  ag_model_overridden :: bool
  ag_agent_name :: string
  ag_goose_system_prompt_supported :: "bool option"
  ag_protocol_version :: nat

definition has_system_prompt_support :: "owned_agent \<Rightarrow> bool" where
  "has_system_prompt_support a =
     (if ag_agent_name a = ''goose'' then ag_goose_system_prompt_supported a = Some True
      else 2 \<le> ag_protocol_version a)"

section \<open>The pool\<close>

record task_meta =
  tm_agent_index :: nat
  tm_channel :: "uuid option"
  tm_turn_id :: string
  tm_batch :: "flush_batch option"
  tm_control :: bool
  tm_steer :: bool

record agent_pool =
  ap_agents :: "owned_agent option list"
  ap_tasks :: "(nat \<times> task_meta) list"

definition from_slots :: "owned_agent option list \<Rightarrow> agent_pool" where
  "from_slots slots = \<lparr>ap_agents = slots, ap_tasks = []\<rparr>"

definition has_session :: "uuid \<Rightarrow> owned_agent option \<Rightarrow> bool" where
  "has_session c s = (case s of Some a \<Rightarrow> map_of (ss_sessions (ag_state a)) c \<noteq> None | None \<Rightarrow> False)"

definition claim_index :: "agent_pool \<Rightarrow> uuid option \<Rightarrow> nat option" where
  "claim_index p ch =
     (case Option.bind ch (\<lambda>c. find_index (has_session c) (ap_agents p)) of
        Some i \<Rightarrow> Some i
      | None \<Rightarrow> find_index (\<lambda>s. s \<noteq> None) (ap_agents p))"

definition try_claim :: "agent_pool \<Rightarrow> uuid option \<Rightarrow> (owned_agent \<times> agent_pool) option" where
  "try_claim p ch =
     map_option (\<lambda>i. (the (ap_agents p ! i), p\<lparr>ap_agents := (ap_agents p)[i := None]\<rparr>)) (claim_index p ch)"

definition return_agent :: "agent_pool \<Rightarrow> owned_agent \<Rightarrow> agent_pool" where
  "return_agent p a = p\<lparr>ap_agents := (ap_agents p)[ag_index a := Some a]\<rparr>"

definition any_idle :: "agent_pool \<Rightarrow> bool" where
  "any_idle p = list_ex (\<lambda>s. s \<noteq> None) (ap_agents p)"

definition has_session_for :: "agent_pool \<Rightarrow> uuid \<Rightarrow> bool" where
  "has_session_for p c = list_ex (has_session c) (ap_agents p)"

definition idle_count :: "agent_pool \<Rightarrow> nat" where
  "idle_count p = length (filter (\<lambda>s. s \<noteq> None) (ap_agents p))"

definition live_count :: "agent_pool \<Rightarrow> nat" where
  "live_count p = idle_count p + length (ap_tasks p)"

definition slot_alive :: "agent_pool \<Rightarrow> nat \<Rightarrow> bool" where
  "slot_alive p i =
     ((i < length (ap_agents p) \<and> ap_agents p ! i \<noteq> None) \<or>
      list_ex (\<lambda>(_, m). tm_agent_index m = i) (ap_tasks p))"

definition invalidate_slot :: "uuid \<Rightarrow> owned_agent option \<Rightarrow> owned_agent option" where
  "invalidate_slot c = map_option (\<lambda>a. a\<lparr>ag_state := fst (invalidate_channel (ag_state a) c)\<rparr>)"

definition invalidate_channel_sessions :: "agent_pool \<Rightarrow> uuid \<Rightarrow> agent_pool \<times> nat" where
  "invalidate_channel_sessions p c =
     (p\<lparr>ap_agents := map (invalidate_slot c) (ap_agents p)\<rparr>, length (filter (has_session c) (ap_agents p)))"

section \<open>Steers and control signals\<close>

datatype control_signal = Cancel | InterruptSignal | SteerSignal | Rotate | SwitchModel string

datatype steer_error = SteerAgentError int string | SteerTransport string | ExpectedRunIdMissing | PromptCompleted

datatype steer_ack = SteerSuccess | SteerErr steer_error | PromptCompletedNeutral

datatype multiple_event_handling = HandleQueue | HandleSteer | HandleInterrupt | HandleOwnerInterrupt

definition task_for :: "agent_pool \<Rightarrow> uuid \<Rightarrow> (nat \<times> task_meta) option" where
  "task_for p c = find (\<lambda>(_, m). tm_channel m = Some c) (ap_tasks p)"

text \<open>
  \<open>sent\<close> is the answer of \<open>try_send\<close> on the task's channel of capacity one: the text of the
  error (full or closed), or success.
\<close>

definition send_steer :: "agent_pool \<Rightarrow> uuid \<Rightarrow> string + unit \<Rightarrow> steer_error + unit" where
  "send_steer p c sent =
     (case task_for p c of
        None \<Rightarrow> Inl PromptCompleted
      | Some (_, m) \<Rightarrow>
          if \<not> tm_steer m then Inl (SteerTransport ''steer_tx not installed'')
          else map_err SteerTransport sent)"

fun mode_gate_signal :: "multiple_event_handling \<Rightarrow> string \<Rightarrow> string option \<Rightarrow> control_signal option" where
  "mode_gate_signal HandleQueue author owner = None"
| "mode_gate_signal HandleSteer author owner = Some SteerSignal"
| "mode_gate_signal HandleInterrupt author owner = Some InterruptSignal"
| "mode_gate_signal HandleOwnerInterrupt author owner =
     (if owner = Some author then Some InterruptSignal else None)"

definition signal_in_flight_task :: "agent_pool \<Rightarrow> uuid \<Rightarrow> agent_pool \<times> bool" where
  "signal_in_flight_task p c =
     (case task_for p c of
        Some (t, m) \<Rightarrow>
          if tm_control m then (p\<lparr>ap_tasks := AList.update t (m\<lparr>tm_control := False\<rparr>) (ap_tasks p)\<rparr>, True)
          else (p, False)
      | None \<Rightarrow> (p, False))"

definition steer_body :: "prompt_lib \<Rightarrow> uuid \<Rightarrow> batch_event \<Rightarrow> string" where
  "steer_body P c be =
     (case native_steer_framing of (header, closing) \<Rightarrow>
        header @ nl @ nl @ ''[Buzz event: '' @ be_tag be @ '']'' @ nl
        @ format_event_block P c None be None @ nl @ nl @ closing)"

definition try_native_steer ::
  "agent_pool \<Rightarrow> event_queue \<Rightarrow> uuid \<Rightarrow> event_id \<Rightarrow> string + unit \<Rightarrow> event_queue \<times> bool" where
  "try_native_steer p q c i sent =
     (case send_steer p c sent of
        Inr _ \<Rightarrow> (fst (mark_native_steer_pending q c i), True)
      | Inl _ \<Rightarrow> (q, False))"

text \<open>
  The three decisions of the acknowledgement handler: release the withheld event, drop it, send
  the cancelling fallback. \<open>None\<close> is an acknowledgement channel that was dropped.
\<close>

fun ack_decision :: "steer_ack option \<Rightarrow> bool \<times> bool \<times> bool" where
  "ack_decision (Some SteerSuccess) = (False, True, False)"
| "ack_decision (Some (SteerErr (SteerAgentError code message))) =
     (if code = - 32601 then (True, False, True) else (True, False, False))"
| "ack_decision (Some (SteerErr _)) = (True, False, True)"
| "ack_decision (Some PromptCompletedNeutral) = (True, False, False)"
| "ack_decision None = (True, False, False)"

definition apply_steer_ack ::
  "nat \<Rightarrow> nat \<Rightarrow> agent_pool \<Rightarrow> event_queue \<Rightarrow> uuid \<Rightarrow> event_id \<Rightarrow> steer_ack option \<Rightarrow> agent_pool \<times> event_queue" where
  "apply_steer_ack now max_turn_secs p q c i ack =
     (case ack_decision ack of (release_withheld, drop_withheld, signal_fallback) \<Rightarrow>
        let q = (if ack = Some SteerSuccess then extend_in_flight_deadline now q c max_turn_secs else q);
            q = (if drop_withheld then remove_event q c i else q);
            q = (if release_withheld then release_native_steer q c i else q);
            p = (if signal_fallback then fst (signal_in_flight_task p c) else p)
        in (p, q))"

section \<open>Dispatch\<close>

text \<open>
  What one iteration of the dispatch loop reads from outside: the clock at the flush, the hash
  orders, the clock when an unclaimed batch is put back, and the ids of the spawned task.
\<close>

record dispatch_env =
  de_now :: nat
  de_order :: hash_order
  de_done :: nat
  de_task :: nat
  de_turn :: string

definition typing_scope :: "flush_batch \<Rightarrow> thread_tags" where
  "typing_scope b =
     (case last_of (fb_events b) of Some be \<Rightarrow> parse_thread_tags (be_event be) | None \<Rightarrow> empty_thread_tags)"

definition spawn_prompt_task ::
  "dedup_mode \<Rightarrow> dispatch_env \<Rightarrow> agent_pool \<Rightarrow> owned_agent \<Rightarrow> flush_batch \<Rightarrow> agent_pool" where
  "spawn_prompt_task mode d p a b =
     p\<lparr>ap_tasks := AList.update (de_task d)
         \<lparr>tm_agent_index = ag_index a, tm_channel = Some (fb_channel b), tm_turn_id = de_turn d,
          tm_batch = (case mode of QueueMode \<Rightarrow> Some b | DropMode \<Rightarrow> None),
          tm_control = True, tm_steer = True\<rparr> (ap_tasks p)\<rparr>"

lemma claim_index_idle:
  assumes "claim_index p ch = Some i"
  shows "i < length (ap_agents p) \<and> ap_agents p ! i \<noteq> None"
proof -
  have "find_index (has_session c) (ap_agents p) = Some i \<Longrightarrow> ?thesis" for c
    using find_index_nth [of "has_session c" "ap_agents p" i] by (auto simp: has_session_def split: option.splits)
  moreover have "find_index (\<lambda>s. s \<noteq> None) (ap_agents p) = Some i \<Longrightarrow> ?thesis"
    using find_index_nth [of "\<lambda>s. s \<noteq> None" "ap_agents p" i] by blast
  ultimately show ?thesis
    using assms by (auto simp: claim_index_def split: option.splits Option.bind_splits)
qed

lemma length_filter_update_None:
  "i < length xs \<Longrightarrow> xs ! i \<noteq> None \<Longrightarrow>
   Suc (length (filter (\<lambda>s. s \<noteq> None) (xs[i := None]))) = length (filter (\<lambda>s. s \<noteq> None) xs)"
  by (induction xs arbitrary: i) (auto split: nat.split simp: nth_Cons)

lemma try_claim_idle_count:
  assumes "try_claim p ch = Some (a, p')"
  shows "Suc (idle_count p') = idle_count p" "ap_tasks p' = ap_tasks p"
proof -
  from assms obtain i where i: "claim_index p ch = Some i" "p' = p\<lparr>ap_agents := (ap_agents p)[i := None]\<rparr>"
    by (auto simp: try_claim_def)
  with claim_index_idle [OF i(1)] length_filter_update_None [of i "ap_agents p"]
  show "Suc (idle_count p') = idle_count p" "ap_tasks p' = ap_tasks p"
    by (simp_all add: idle_count_def)
qed

lemma idle_count_spawn [simp]: "idle_count (spawn_prompt_task mode d p a b) = idle_count p"
  by (simp add: idle_count_def spawn_prompt_task_def)

function dispatch_pending ::
  "dedup_mode \<Rightarrow> (nat \<Rightarrow> dispatch_env) \<Rightarrow> nat \<Rightarrow> agent_pool \<Rightarrow> event_queue
     \<Rightarrow> agent_pool \<times> event_queue \<times> (uuid \<times> thread_tags) list" where
  "dispatch_pending mode envs k p q =
     (case flush_next (de_now (envs k)) (de_order (envs k)) q of
        (q', None) \<Rightarrow> (p, q', [])
      | (q', Some b) \<Rightarrow>
          (case try_claim p (Some (fb_channel b)) of
             None \<Rightarrow> (p, mark_complete (de_done (envs k)) (requeue_preserve_timestamps q' b) (fb_channel b), [])
           | Some (a, p') \<Rightarrow>
               (case dispatch_pending mode envs (Suc k) (spawn_prompt_task mode (envs k) p' a b) q' of
                  (p'', q'', dispatched) \<Rightarrow> (p'', q'', (fb_channel b, typing_scope b) # dispatched))))"
  by pat_completeness auto
termination
  by (relation "measure (\<lambda>(mode, envs, k, p, q). idle_count p)") (auto dest: try_claim_idle_count(1))

declare dispatch_pending.simps [simp del]

section \<open>The circuit breaker of a slot\<close>

definition CIRCUIT_BREAKER_THRESHOLD :: nat where
  "CIRCUIT_BREAKER_THRESHOLD = 3"

definition CIRCUIT_BREAKER_WINDOW :: nat where
  "CIRCUIT_BREAKER_WINDOW = secs 60"

definition CIRCUIT_BREAKER_COOLDOWN :: nat where
  "CIRCUIT_BREAKER_COOLDOWN = secs 300"

definition RESPAWN_BASE_DELAY :: nat where
  "RESPAWN_BASE_DELAY = secs 1"

definition RESPAWN_MAX_DELAY :: nat where
  "RESPAWN_MAX_DELAY = secs 30"

record slot_circuit =
  sc_crash_times :: "nat list"
  sc_open_until :: "nat option"
  sc_respawn_in_flight :: bool

datatype crash_verdict = Respawn nat | CircuitOpen | HalfOpenProbe

definition respawn_delay :: "nat \<Rightarrow> nat \<Rightarrow> nat" where
  "respawn_delay recent nanos =
     (let capped = min (RESPAWN_BASE_DELAY * 2 ^ min (recent - 1) 5) RESPAWN_MAX_DELAY
      in nat (round (of_nat capped * (8 / 10 + of_nat nanos / 1000000000 * (4 / 10)) :: rat)))"

definition half_open :: "nat \<Rightarrow> slot_circuit \<Rightarrow> slot_circuit" where
  "half_open now s = s\<lparr>sc_crash_times := replicate (CIRCUIT_BREAKER_THRESHOLD - 1) now, sc_open_until := None\<rparr>"

definition record_crash :: "nat \<Rightarrow> nat \<Rightarrow> slot_circuit \<Rightarrow> slot_circuit \<times> crash_verdict" where
  "record_crash now nanos s =
     (case sc_open_until s of
        Some open_until \<Rightarrow> if open_until \<le> now then (half_open now s, HalfOpenProbe) else (s, CircuitOpen)
      | None \<Rightarrow>
          let times = filter (\<lambda>t. now - t < CIRCUIT_BREAKER_WINDOW) (sc_crash_times s @ [now]);
              recent = length times
          in if CIRCUIT_BREAKER_THRESHOLD \<le> recent
             then (s\<lparr>sc_crash_times := times, sc_open_until := Some (now + CIRCUIT_BREAKER_COOLDOWN)\<rparr>, CircuitOpen)
             else (s\<lparr>sc_crash_times := times\<rparr>, Respawn (respawn_delay recent nanos)))"

definition mark_spawn_failed :: "nat \<Rightarrow> slot_circuit \<Rightarrow> slot_circuit" where
  "mark_spawn_failed now s = s\<lparr>sc_open_until := Some (now + CIRCUIT_BREAKER_COOLDOWN)\<rparr>"

definition can_refill :: "nat \<Rightarrow> slot_circuit \<Rightarrow> slot_circuit \<times> bool" where
  "can_refill now s =
     (case sc_open_until s of
        Some open_until \<Rightarrow> if open_until \<le> now then (half_open now s, True) else (s, False)
      | None \<Rightarrow> (s, True))"

definition any_respawn_in_flight :: "slot_circuit list \<Rightarrow> bool" where
  "any_respawn_in_flight circuits = list_ex sc_respawn_in_flight circuits"

text \<open>\<open>spawn_respawn_task\<close> on slot \<open>i\<close>: whether a respawn was started.\<close>

definition spawn_respawn_task :: "nat \<Rightarrow> nat \<Rightarrow> slot_circuit list \<Rightarrow> nat \<Rightarrow> slot_circuit list \<times> bool" where
  "spawn_respawn_task now nanos circuits i =
     (case record_crash now nanos (circuits ! i) of
        (s, CircuitOpen) \<Rightarrow> (circuits[i := s], False)
      | (s, _) \<Rightarrow> (circuits[i := s\<lparr>sc_respawn_in_flight := True\<rparr>], True))"

section \<open>The end of a turn\<close>

datatype acp_error =
  AcpIo string | AcpJson string | AcpAgentExited | AcpIdleTimeout nat | AcpHardTimeout nat
| AcpCancelDrainTimeout nat | AcpTimeout nat | AcpWriteTimeout nat | AcpProtocol string | AcpAgentError int string

datatype timeout_kind = Idle | Hard bool

datatype prompt_outcome =
  OutcomeOk | OutcomeError acp_error | AgentExited | Timeout timeout_kind | Cancelled | CancelDrainTimeout nat

record prompt_result =
  pr_agent :: owned_agent
  pr_source :: prompt_source
  pr_outcome :: prompt_outcome
  pr_batch :: "flush_batch option"

fun is_auth_error :: "acp_error \<Rightarrow> bool" where
  "is_auth_error (AcpAgentError code message) =
     (contains message ''Re-authenticate'' \<or> contains message ''API Error: 401'')"
| "is_auth_error _ = False"

fun is_transport_error :: "acp_error \<Rightarrow> bool" where
  "is_transport_error (AcpIo _) = True"
| "is_transport_error (AcpWriteTimeout _) = True"
| "is_transport_error (AcpTimeout _) = True"
| "is_transport_error (AcpProtocol _) = True"
| "is_transport_error _ = False"

definition requeue_batch_if_queue :: "dedup_mode \<Rightarrow> flush_batch option \<Rightarrow> flush_batch option" where
  "requeue_batch_if_queue mode b = (case mode of QueueMode \<Rightarrow> b | DropMode \<Rightarrow> None)"

fun signal_reason :: "control_signal \<Rightarrow> cancel_reason option" where
  "signal_reason SteerSignal = Some Steer"
| "signal_reason InterruptSignal = Some Interrupt"
| "signal_reason (SwitchModel _) = Some Interrupt"
| "signal_reason Cancel = None"
| "signal_reason Rotate = None"

definition requeue_cancelled_batch :: "dedup_mode \<Rightarrow> control_signal \<Rightarrow> flush_batch option \<Rightarrow> flush_batch option" where
  "requeue_cancelled_batch mode signal b =
     (case signal_reason signal of
        None \<Rightarrow> None
      | Some reason \<Rightarrow> map_option (\<lambda>b. b\<lparr>fb_reason := Some reason\<rparr>) (requeue_batch_if_queue mode b))"

definition CONTROL_CANCEL_GRACE :: nat where
  "CONTROL_CANCEL_GRACE = secs 5"

fun cancel_failure_outcome :: "acp_error \<Rightarrow> prompt_outcome \<times> bool" where
  "cancel_failure_outcome AcpAgentExited = (AgentExited, True)"
| "cancel_failure_outcome (AcpIdleTimeout _) = (Timeout Idle, False)"
| "cancel_failure_outcome (AcpCancelDrainTimeout grace) = (CancelDrainTimeout grace, False)"
| "cancel_failure_outcome (AcpHardTimeout _) = (CancelDrainTimeout CONTROL_CANCEL_GRACE, False)"
| "cancel_failure_outcome e = (OutcomeError e, False)"

definition classify_control_cancel_failure ::
  "dedup_mode \<Rightarrow> acp_error \<Rightarrow> control_signal \<Rightarrow> flush_batch option \<Rightarrow> prompt_outcome \<times> flush_batch option \<times> bool" where
  "classify_control_cancel_failure mode e signal b =
     (case cancel_failure_outcome e of (outcome, invalidates) \<Rightarrow>
        (outcome, requeue_cancelled_batch mode signal b, invalidates))"

text \<open>The failure notices posted to a channel, with the batch they are about.\<close>

datatype failure_notice =
  TurnTooLong flush_batch
| RetriesTooLong flush_batch
| AuthenticationFailed flush_batch
| RetriesExhausted flush_batch prompt_outcome

fun notice_batch :: "failure_notice \<Rightarrow> flush_batch" where
  "notice_batch (TurnTooLong b) = b"
| "notice_batch (RetriesTooLong b) = b"
| "notice_batch (AuthenticationFailed b) = b"
| "notice_batch (RetriesExhausted b _) = b"

record harness_clock =
  hc_requeue :: nat
  hc_nanos :: nat
  hc_complete :: nat
  hc_crash :: nat
  hc_crash_nanos :: nat

definition dead_letter :: "(flush_batch \<Rightarrow> failure_notice) \<Rightarrow> event_queue \<times> flush_batch option \<Rightarrow> event_queue \<times> failure_notice list" where
  "dead_letter f r = (case r of (q, None) \<Rightarrow> (q, []) | (q, Some dead) \<Rightarrow> (q, [f dead]))"

fun settle_batch ::
  "harness_clock \<Rightarrow> event_queue \<Rightarrow> prompt_outcome \<Rightarrow> flush_batch \<Rightarrow> event_queue \<times> failure_notice list" where
  "settle_batch t q Cancelled b =
     (requeue_as_cancelled q b (case fb_reason b of Some r \<Rightarrow> r | None \<Rightarrow> Steer), [])"
| "settle_batch t q (CancelDrainTimeout _) b =
     (requeue_as_cancelled q b (case fb_reason b of Some r \<Rightarrow> r | None \<Rightarrow> Steer), [])"
| "settle_batch t q (Timeout (Hard recently_active)) b =
     (if recently_active then dead_letter RetriesTooLong (requeue (hc_requeue t) (hc_nanos t) q b)
      else (q, [TurnTooLong b]))"
| "settle_batch t q (OutcomeError e) b =
     (if is_auth_error e then (q, [AuthenticationFailed b])
      else dead_letter (\<lambda>d. RetriesExhausted d (OutcomeError e)) (requeue (hc_requeue t) (hc_nanos t) q b))"
| "settle_batch t q outcome b =
     dead_letter (\<lambda>d. RetriesExhausted d outcome) (requeue (hc_requeue t) (hc_nanos t) q b)"

record harness =
  h_pool :: agent_pool
  h_queue :: event_queue
  h_heartbeat :: bool
  h_circuits :: "slot_circuit list"

datatype loop_action = Continue | Exit

definition forget_tasks :: "agent_pool \<Rightarrow> nat \<Rightarrow> agent_pool" where
  "forget_tasks p i = p\<lparr>ap_tasks := filter (\<lambda>(_, m). tm_agent_index m \<noteq> i) (ap_tasks p)\<rparr>"

definition drop_keys :: "uuid set \<Rightarrow> (uuid \<times> 'v) list \<Rightarrow> (uuid \<times> 'v) list" where
  "drop_keys cs m = filter (\<lambda>(c, _). c \<notin> cs) m"

definition strip_removed :: "uuid set \<Rightarrow> owned_agent \<Rightarrow> owned_agent" where
  "strip_removed removed a =
     (let s = ag_state a in
      a\<lparr>ag_state := s\<lparr>ss_turn_counts := drop_keys removed (ss_turn_counts s),
                     ss_core_sections := drop_keys removed (ss_core_sections s),
                     ss_canvas_sections := drop_keys removed (ss_canvas_sections s),
                     ss_sessions := drop_keys removed (ss_sessions s)\<rparr>\<rparr>)"

definition needs_respawn :: "prompt_outcome \<Rightarrow> bool" where
  "needs_respawn outcome =
     (case outcome of
        OutcomeOk \<Rightarrow> False | Cancelled \<Rightarrow> False | OutcomeError e \<Rightarrow> is_transport_error e
      | AgentExited \<Rightarrow> True | Timeout _ \<Rightarrow> True | CancelDrainTimeout _ \<Rightarrow> True)"

definition settle_result_batch ::
  "harness_clock \<Rightarrow> uuid set \<Rightarrow> event_queue \<Rightarrow> prompt_result \<Rightarrow> event_queue \<times> failure_notice list" where
  "settle_result_batch t removed q r =
     (case pr_batch r of
        Some b \<Rightarrow> if fb_channel b \<notin> removed then settle_batch t q (pr_outcome r) b else (q, [])
      | None \<Rightarrow> (q, []))"

definition handle_prompt_result ::
  "harness_clock \<Rightarrow> uuid set \<Rightarrow> harness \<Rightarrow> prompt_result \<Rightarrow> harness \<times> failure_notice list \<times> loop_action" where
  "handle_prompt_result t removed h r =
     (let p = forget_tasks (h_pool h) (ag_index (pr_agent r));
          (q, notices) = settle_result_batch t removed (h_queue h) r;
          q = (case pr_source r of Channel c \<Rightarrow> mark_complete (hc_complete t) q c | Heartbeat \<Rightarrow> q);
          hb = (case pr_source r of Channel c \<Rightarrow> h_heartbeat h | Heartbeat \<Rightarrow> False);
          a = strip_removed removed (pr_agent r);
          h = h\<lparr>h_pool := p, h_queue := q, h_heartbeat := hb\<rparr>
      in if needs_respawn (pr_outcome r)
         then (case spawn_respawn_task (hc_crash t) (hc_crash_nanos t) (h_circuits h) (ag_index a) of
                 (circuits, spawned) \<Rightarrow>
                   (h\<lparr>h_circuits := circuits\<rparr>, notices,
                    if \<not> spawned \<and> live_count p = 0 \<and> \<not> any_respawn_in_flight circuits then Exit else Continue))
         else (h\<lparr>h_pool := return_agent p a\<rparr>, notices, Continue))"

definition recover_panicked_agent :: "harness_clock \<Rightarrow> uuid set \<Rightarrow> harness \<Rightarrow> nat \<Rightarrow> harness" where
  "recover_panicked_agent t removed h task =
     (case map_of (ap_tasks (h_pool h)) task of
        None \<Rightarrow> h
      | Some m \<Rightarrow>
          let p = (h_pool h)\<lparr>ap_tasks := AList.delete task (ap_tasks (h_pool h))\<rparr>;
              q = (case (tm_batch m, tm_channel m) of
                     (Some b, Some c) \<Rightarrow>
                       if c \<notin> removed then fst (requeue (hc_requeue t) (hc_nanos t) (h_queue h) b) else h_queue h
                   | _ \<Rightarrow> h_queue h);
              q = (case tm_channel m of Some c \<Rightarrow> mark_complete (hc_complete t) q c | None \<Rightarrow> q);
              hb = (case tm_channel m of Some c \<Rightarrow> h_heartbeat h | None \<Rightarrow> False);
              circuits = fst (spawn_respawn_task (hc_crash t) (hc_crash_nanos t) (h_circuits h) (tm_agent_index m))
          in h\<lparr>h_pool := p, h_queue := q, h_heartbeat := hb, h_circuits := circuits\<rparr>)"

definition dispatch_heartbeat :: "nat \<Rightarrow> string \<Rightarrow> harness \<Rightarrow> harness" where
  "dispatch_heartbeat task turn h =
     (if h_heartbeat h then h
      else case try_claim (h_pool h) None of
             None \<Rightarrow> h
           | Some (a, p) \<Rightarrow>
               h\<lparr>h_pool := p\<lparr>ap_tasks := AList.update task
                    \<lparr>tm_agent_index = ag_index a, tm_channel = None, tm_turn_id = turn, tm_batch = None,
                     tm_control = False, tm_steer = False\<rparr> (ap_tasks p)\<rparr>,
                 h_heartbeat := True\<rparr>)"

text \<open>
  The arrival of a matched event: it is queued, and when its channel has a turn in flight the
  configured handling may steer or interrupt that turn; then pending work is dispatched.
\<close>

definition admit_event ::
  "multiple_event_handling \<Rightarrow> string option \<Rightarrow> string + unit \<Rightarrow> agent_pool \<Rightarrow> event_queue \<Rightarrow> queued_event
     \<Rightarrow> agent_pool \<times> event_queue \<times> bool" where
  "admit_event handling owner sent p q e =
     (let c = qe_channel e; (q, accepted) = push q e in
      if accepted \<and> is_channel_in_flight q c then
        (case mode_gate_signal handling (ev_pubkey (qe_event e)) owner of
           None \<Rightarrow> (p, q, accepted)
         | Some signal \<Rightarrow>
             let (q, native_attempted) =
               (if signal = SteerSignal then try_native_steer p q c (ev_id (qe_event e)) sent else (q, False))
             in (if native_attempted then p else fst (signal_in_flight_task p c), q, accepted))
      else (p, q, accepted))"

section \<open>The lazy start of the pool\<close>

datatype 'p pool_lifecycle =
  Listening
| Waking nat
| Ready 'p
| Failed nat nat string

definition INITIAL_RETRY_DELAY :: nat where
  "INITIAL_RETRY_DELAY = 5"

definition MAX_RETRY_DELAY :: nat where
  "MAX_RETRY_DELAY = 300"

definition u32_max :: nat where
  "u32_max = 4294967295"

definition wake_retry_delay :: "nat \<Rightarrow> nat" where
  "wake_retry_delay attempt =
     (let exponent = min (attempt - 1) 63;
          multiplier = 2 ^ exponent
      in secs (min (min (INITIAL_RETRY_DELAY * multiplier) u64_max) MAX_RETRY_DELAY))"

definition start_wake_if_due :: "'p pool_lifecycle \<Rightarrow> bool \<Rightarrow> nat \<Rightarrow> 'p pool_lifecycle \<times> nat option" where
  "start_wake_if_due l has_pending_work now =
     (if \<not> has_pending_work then (l, None)
      else let next_attempt = (case l of
               Listening \<Rightarrow> Some 1
             | Failed attempt retry_at _ \<Rightarrow> if retry_at \<le> now then Some (min (attempt + 1) u32_max) else None
             | _ \<Rightarrow> None)
           in case next_attempt of
                Some attempt \<Rightarrow> (Waking attempt, Some attempt)
              | None \<Rightarrow> (l, None))"

definition take_ready :: "'p pool_lifecycle \<Rightarrow> 'p pool_lifecycle \<times> 'p option" where
  "take_ready l = (case l of Ready p \<Rightarrow> (Listening, Some p) | _ \<Rightarrow> (l, None))"

definition complete_wake ::
  "'p pool_lifecycle \<Rightarrow> nat \<Rightarrow> string + 'p \<Rightarrow> nat \<Rightarrow> 'p pool_lifecycle \<times> (string + unit)" where
  "complete_wake l completed result now =
     (case l of
        Waking attempt \<Rightarrow>
          if attempt = completed
          then ((case result of Inr p \<Rightarrow> Ready p | Inl e \<Rightarrow> Failed attempt (now + wake_retry_delay attempt) e), Inr ())
          else (l, Inl ''wake result attempt did not match Waking attempt'')
      | _ \<Rightarrow> (l, Inl ''wake completed while lifecycle was not Waking''))"

definition cancel_wake :: "'p pool_lifecycle \<Rightarrow> nat \<Rightarrow> string \<Rightarrow> nat \<Rightarrow> 'p pool_lifecycle \<times> bool" where
  "cancel_wake l attempt e now = (case complete_wake l attempt (Inl e) now of (l', r) \<Rightarrow> (l', is_ok r))"

section \<open>Every agent is in one place\<close>

text \<open>
  The agent of slot \<open>i\<close> carries the index \<open>i\<close>, no two tasks run the same agent, and the slot
  of a running agent is empty.
\<close>

definition task_agents :: "agent_pool \<Rightarrow> nat list" where
  "task_agents p = map (\<lambda>(_, m). tm_agent_index m) (ap_tasks p)"

definition pool_ok :: "agent_pool \<Rightarrow> bool" where
  "pool_ok p \<longleftrightarrow>
     (\<forall>i < length (ap_agents p). \<forall>a. ap_agents p ! i = Some a \<longrightarrow> ag_index a = i) \<and>
     distinct (task_agents p) \<and>
     (\<forall>i \<in> set (task_agents p). i < length (ap_agents p) \<and> ap_agents p ! i = None)"

lemma alist_update_fresh: "k \<notin> fst ` set m \<Longrightarrow> AList.update k v m = m @ [(k, v)]"
  by (induction m) auto

lemma try_claim_cases:
  assumes "try_claim p ch = Some (a, p')"
  obtains i where "i < length (ap_agents p)" "ap_agents p ! i = Some a"
    "p' = p\<lparr>ap_agents := (ap_agents p)[i := None]\<rparr>"
proof -
  from assms obtain i where i: "claim_index p ch = Some i" "a = the (ap_agents p ! i)"
    "p' = p\<lparr>ap_agents := (ap_agents p)[i := None]\<rparr>"
    by (auto simp: try_claim_def)
  with claim_index_idle [OF i(1)] show ?thesis by (intro that [of i]) auto
qed

lemma try_claim_None:
  assumes "try_claim p ch = None"
  shows "idle_count p = 0"
proof -
  from assms have "find_index (\<lambda>s. s \<noteq> None) (ap_agents p) = None"
    by (auto simp: try_claim_def claim_index_def split: option.splits)
  then show ?thesis by (simp add: find_index_None idle_count_def filter_empty_conv)
qed

lemma spawn_prompt_task_ok:
  assumes "pool_ok p" "try_claim p ch = Some (a, p')" "de_task d \<notin> fst ` set (ap_tasks p)"
  shows "pool_ok (spawn_prompt_task mode d p' a b)"
  using assms(2)
proof (cases rule: try_claim_cases)
  case (1 i)
  have a: "ag_index a = i" using assms(1) 1 by (auto simp: pool_ok_def)
  have "i \<notin> set (task_agents p)" using assms(1) 1 by (auto simp: pool_ok_def)
  then show ?thesis
    using assms(1,3) 1 a
    by (auto simp: pool_ok_def spawn_prompt_task_def task_agents_def alist_update_fresh nth_list_update)
qed

definition fresh_tasks :: "(nat \<Rightarrow> dispatch_env) \<Rightarrow> nat \<Rightarrow> agent_pool \<Rightarrow> bool" where
  "fresh_tasks envs k p \<longleftrightarrow> inj (\<lambda>j. de_task (envs j)) \<and> (\<forall>j \<ge> k. de_task (envs j) \<notin> fst ` set (ap_tasks p))"

lemma spawn_fresh:
  assumes "fresh_tasks envs k p" "try_claim p ch = Some (a, p')"
  shows "fresh_tasks envs (Suc k) (spawn_prompt_task mode (envs k) p' a b)"
    "set (ap_tasks (spawn_prompt_task mode (envs k) p' a b)) =
       insert (de_task (envs k), \<lparr>tm_agent_index = ag_index a, tm_channel = Some (fb_channel b), tm_turn_id = de_turn (envs k),
          tm_batch = (case mode of QueueMode \<Rightarrow> Some b | DropMode \<Rightarrow> None),
          tm_control = True, tm_steer = True\<rparr>) (set (ap_tasks p))"
proof -
  have tasks: "ap_tasks p' = ap_tasks p" by (rule try_claim_idle_count(2) [OF assms(2)])
  have new: "de_task (envs k) \<notin> fst ` set (ap_tasks p)" and inj: "inj (\<lambda>j. de_task (envs j))"
    using assms(1) by (auto simp: fresh_tasks_def)
  have "de_task (envs j) \<noteq> de_task (envs k)" if "Suc k \<le> j" for j
    using injD [OF inj, of j k] that by auto
  with assms(1) show "fresh_tasks envs (Suc k) (spawn_prompt_task mode (envs k) p' a b)"
    by (auto simp: fresh_tasks_def spawn_prompt_task_def tasks alist_update_fresh [OF new])
  show "set (ap_tasks (spawn_prompt_task mode (envs k) p' a b)) =
       insert (de_task (envs k), \<lparr>tm_agent_index = ag_index a, tm_channel = Some (fb_channel b), tm_turn_id = de_turn (envs k),
          tm_batch = (case mode of QueueMode \<Rightarrow> Some b | DropMode \<Rightarrow> None),
          tm_control = True, tm_steer = True\<rparr>) (set (ap_tasks p))"
    by (simp add: spawn_prompt_task_def tasks alist_update_fresh [OF new])
qed

section \<open>Dispatch is work-conserving\<close>

lemma expire_stuck_deadlines:
  assumes "iterates h" "queue_ok q"
  shows "map_of (q_deadlines (expire_stuck now h q)) c = Some d \<Longrightarrow> now < d"
proof -
  have "q_deadlines (foldl expire_one q cs) = foldl (\<lambda>m c. AList.delete c m) (q_deadlines q) cs" for cs
    by (induction cs arbitrary: q) (simp_all add: expire_one_frame)
  moreover have "map_of (foldl (\<lambda>m c. AList.delete c m) m cs) c = (if c \<in> set cs then None else map_of m c)"
    for m :: "(uuid \<times> nat) list" and cs
    by (induction cs arbitrary: m) (auto simp: delete_conv')
  ultimately have "map_of (q_deadlines (expire_stuck now h q)) c =
      (if c \<in> set (expired_ids now h q) then None else map_of (q_deadlines q) c)"
    by (simp add: expire_stuck_def)
  moreover assume "map_of (q_deadlines (expire_stuck now h q)) c = Some d"
  ultimately have "c \<notin> set (expired_ids now h q)" "map_of (q_deadlines q) c = Some d" by (auto split: if_splits)
  then show "now < d"
    using iterates_set(1) [OF assms(1)] by (force simp: expired_ids_def dest: map_of_SomeD)
qed

lemma expire_stuck_idem:
  assumes "iterates h" "queue_ok q"
  shows "expire_stuck now h (expire_stuck now h q) = expire_stuck now h q"
proof -
  have "expired_ids now h (expire_stuck now h q) = []"
    using expire_stuck_deadlines [OF assms, of now]
    by (auto simp: expired_ids_def filter_empty_conv not_le split: option.splits)
  then show ?thesis by (subst expire_stuck_def) simp
qed

lemma flush_next_idle_again:
  assumes "iterates h" "queue_ok q" "flush_next now h q = (q', None)"
  shows "snd (flush_next now h q') = None"
  using assms(3)
proof (cases rule: flush_next_cases)
  case idle
  then show ?thesis by (simp add: flush_next_def Let_def expire_stuck_idem [OF assms(1,2)])
qed simp_all

lemma dispatch_pending_cases:
  assumes "dispatch_pending mode envs k p q = (p', q', ds)"
  obtains (idle) "flush_next (de_now (envs k)) (de_order (envs k)) q = (q', None)" "p' = p" "ds = []"
  | (exhausted) q1 b where "flush_next (de_now (envs k)) (de_order (envs k)) q = (q1, Some b)"
      "try_claim p (Some (fb_channel b)) = None" "p' = p" "ds = []"
      "q' = mark_complete (de_done (envs k)) (requeue_preserve_timestamps q1 b) (fb_channel b)"
  | (claimed) q1 b a p1 ds' where "flush_next (de_now (envs k)) (de_order (envs k)) q = (q1, Some b)"
      "try_claim p (Some (fb_channel b)) = Some (a, p1)"
      "dispatch_pending mode envs (Suc k) (spawn_prompt_task mode (envs k) p1 a b) q1 = (p', q', ds')"
      "ds = (fb_channel b, typing_scope b) # ds'"
  using assms
  by (subst (asm) dispatch_pending.simps) (auto split: prod.splits option.splits)

definition runs_batch :: "dedup_mode \<Rightarrow> agent_pool \<Rightarrow> flush_batch \<Rightarrow> bool" where
  "runs_batch mode p b \<longleftrightarrow> (\<exists>t m. (t, m) \<in> set (ap_tasks p) \<and> tm_channel m = Some (fb_channel b) \<and>
     (mode = QueueMode \<longrightarrow> tm_batch m = Some b))"

definition dispatched_ok ::
  "dedup_mode \<Rightarrow> (nat \<Rightarrow> dispatch_env) \<Rightarrow> nat \<Rightarrow> agent_pool \<Rightarrow> flush_batch list \<Rightarrow> (uuid \<Rightarrow> batch_event multiset)
    \<Rightarrow> agent_pool \<Rightarrow> event_queue \<Rightarrow> (uuid \<times> thread_tags) list \<Rightarrow> bool" where
  "dispatched_ok mode envs k p bs acc p' q' ds \<longleftrightarrow>
     pool_ok p' \<and> idle_count p' + length ds = idle_count p \<and>
     (idle_count p' = 0 \<or>
      snd (flush_next (de_now (envs (k + length ds))) (de_order (envs (k + length ds))) q') = None) \<and>
     set (ap_tasks p) \<subseteq> set (ap_tasks p') \<and>
     (\<exists>bs'. queue_run q' (rev bs' @ bs) acc \<and> map fb_channel bs' = map fst ds \<and>
        (\<forall>b \<in> set bs'. runs_batch mode p' b))"

lemma dispatch_pending_ok:
  assumes "dispatch_pending mode envs k p q = (p', q', ds)" "queue_run q bs acc" "pool_ok p"
    "\<forall>j. iterates (de_order (envs j))" "fresh_tasks envs k p"
  shows "dispatched_ok mode envs k p bs acc p' q' ds"
  using assms
proof (induction mode envs k p q arbitrary: bs p' q' ds rule: dispatch_pending.induct)
  case (1 mode envs k p q)
  have h: "iterates (de_order (envs k))" using "1.prems"(4) by blast
  from "1.prems"(1) show ?case
  proof (cases rule: dispatch_pending_cases)
    case idle
    have "queue_run q' bs acc" by (rule queue_run.idle [OF "1.prems"(2) h idle(1)])
    moreover have "snd (flush_next (de_now (envs k)) (de_order (envs k)) q') = None"
      by (rule flush_next_idle_again [OF h _ idle(1)]) (use queue_run_ok [OF "1.prems"(2)] in blast)
    ultimately show ?thesis
      unfolding dispatched_ok_def using "1.prems"(3) idle(2,3) by (auto intro!: exI [of _ "[]"])
  next
    case (exhausted q1 b)
    have "queue_run q1 (b # bs) acc" by (rule queue_run.flushed [OF "1.prems"(2) h exhausted(1)])
    then have "queue_run q' bs acc"
      using queue_run.completed [OF queue_run.returned [of q1 "[]" b bs acc]] exhausted(5) by simp
    moreover have "idle_count p = 0" by (rule try_claim_None [OF exhausted(2)])
    ultimately show ?thesis
      unfolding dispatched_ok_def using "1.prems"(3) exhausted(3,4) by (auto intro!: exI [of _ "[]"])
  next
    case (claimed q1 b a p1 ds')
    let ?p = "spawn_prompt_task mode (envs k) p1 a b"
    have run: "queue_run q1 (b # bs) acc" by (rule queue_run.flushed [OF "1.prems"(2) h claimed(1)])
    have new: "de_task (envs k) \<notin> fst ` set (ap_tasks p)" using "1.prems"(5) by (simp add: fresh_tasks_def)
    have pool: "pool_ok ?p" by (rule spawn_prompt_task_ok [OF "1.prems"(3) claimed(2) new])
    have "dispatched_ok mode envs (Suc k) ?p (b # bs) acc p' q' ds'"
      using "1.IH" [OF claimed(1) [symmetric] refl claimed(2) refl claimed(3) run pool "1.prems"(4)
          spawn_fresh(1) [OF "1.prems"(5) claimed(2)]] .
    then obtain bs' where ih: "pool_ok p'" "idle_count p' + length ds' = idle_count ?p"
      "idle_count p' = 0 \<or> snd (flush_next (de_now (envs (Suc k + length ds'))) (de_order (envs (Suc k + length ds'))) q') = None"
      "set (ap_tasks ?p) \<subseteq> set (ap_tasks p')" "queue_run q' (rev bs' @ b # bs) acc" "map fb_channel bs' = map fst ds'"
      "\<forall>b \<in> set bs'. runs_batch mode p' b"
      unfolding dispatched_ok_def by blast
    have "Suc (idle_count ?p) = idle_count p" using try_claim_idle_count(1) [OF claimed(2)] by simp
    moreover have "runs_batch mode p' b"
      using ih(4) unfolding spawn_fresh(2) [OF "1.prems"(5) claimed(2)] runs_batch_def by fastforce
    moreover have "set (ap_tasks p) \<subseteq> set (ap_tasks p')"
      using ih(4) unfolding spawn_fresh(2) [OF "1.prems"(5) claimed(2)] by blast
    ultimately show ?thesis
      unfolding dispatched_ok_def using ih claimed(4) by (auto intro!: exI [of _ "b # bs'"])
  qed
qed

text \<open>
  C9: Dispatch ends and is work-conserving. From any reachable queue and any pool in which every
  agent is in one place, \<open>dispatch_pending\<close> returns after at most as many rounds as there are
  idle agents; it leaves no agent idle while a batch could be flushed; it uses one agent per
  dispatched batch, never one that already runs a task, and keeps every running task; each
  dispatched batch is an outstanding batch of a legal run of the queue, so that the delivery
  guarantees of the queue carry over, and in queue mode its task keeps a copy for recovery.
\<close>

theorem dispatch_is_work_conserving:
  assumes "queue_run q bs acc" "pool_ok p" "\<forall>j. iterates (de_order (envs j))" "fresh_tasks envs k p"
  shows "\<exists>p' q' ds bs'. dispatch_pending mode envs k p q = (p', q', ds) \<and>
    length ds \<le> idle_count p \<and> idle_count p' + length ds = idle_count p \<and> pool_ok p' \<and>
    (idle_count p' = 0 \<or>
     snd (flush_next (de_now (envs (k + length ds))) (de_order (envs (k + length ds))) q') = None) \<and>
    set (ap_tasks p) \<subseteq> set (ap_tasks p') \<and>
    queue_run q' (rev bs' @ bs) acc \<and> map fb_channel bs' = map fst ds \<and> (\<forall>b \<in> set bs'. runs_batch mode p' b)"
proof -
  obtain p' q' ds where d: "dispatch_pending mode envs k p q = (p', q', ds)" by (cases "dispatch_pending mode envs k p q")
  from dispatch_pending_ok [OF d assms] obtain bs' where ok: "pool_ok p'" "idle_count p' + length ds = idle_count p"
    "idle_count p' = 0 \<or> snd (flush_next (de_now (envs (k + length ds))) (de_order (envs (k + length ds))) q') = None"
    "set (ap_tasks p) \<subseteq> set (ap_tasks p')" "queue_run q' (rev bs' @ bs) acc" "map fb_channel bs' = map fst ds"
    "\<forall>b \<in> set bs'. runs_batch mode p' b"
    unfolding dispatched_ok_def by blast
  then have "length ds \<le> idle_count p" by linarith
  with d ok show ?thesis by blast
qed

definition sample_agent :: "nat \<Rightarrow> owned_agent" where
  "sample_agent i = \<lparr>ag_index = i, ag_state = session_default, ag_desired_model = None, ag_model_overridden = False,
     ag_agent_name = ''goose'', ag_goose_system_prompt_supported = None, ag_protocol_version = 2\<rparr>"

definition sample_pool :: agent_pool where
  "sample_pool = from_slots [Some (sample_agent 0), None]"

definition sample_envs :: "nat \<Rightarrow> dispatch_env" where
  "sample_envs j = \<lparr>de_now = 30, de_order = in_order, de_done = 31, de_task = j, de_turn = ''t''\<rparr>"

lemma sample_pool_ok: "pool_ok sample_pool"
  by (auto simp: pool_ok_def sample_pool_def from_slots_def task_agents_def sample_agent_def less_Suc_eq)

lemma sample_envs_ok: "\<forall>j. iterates (de_order (sample_envs j))" "fresh_tasks sample_envs 0 sample_pool"
  by (simp_all add: sample_envs_def in_order_iterates fresh_tasks_def sample_pool_def from_slots_def inj_def)

lemma dispatch_is_work_conserving_witness:
  "\<exists>p' q' ds. dispatch_pending QueueMode sample_envs 0 sample_pool busy_queue = (p', q', ds) \<and>
     length ds \<le> 1 \<and> pool_ok p'"
proof -
  have "idle_count sample_pool = 1" by code_simp
  with dispatch_is_work_conserving [OF busy_queue_run sample_pool_ok sample_envs_ok, of QueueMode]
  show ?thesis by metis
qed

section \<open>The fate of a batch\<close>

lemma held_requeue_front_exact:
  assumes "length (fb_events b) + length (slot (q_queues q) (fb_channel b)) \<le> MAX_PENDING_PER_CHANNEL"
  shows "held (requeue_front q b) d = held q d + (if d = fb_channel b then mset (fb_events b) else {#})"
proof -
  let ?all = "map (to_queued (fb_channel b)) (fb_events b) @ slot (q_queues q) (fb_channel b)"
  have "take MAX_PENDING_PER_CHANNEL ?all = ?all" using assms by simp
  then show ?thesis
    by (simp add: requeue_front_def held_def trim_back_take multiset.map_comp comp_def ac_simps del: take_append)
qed

lemma flush_next_hands_over:
  assumes "flush_next now h q = (q', Some b)"
  shows "held q' (fb_channel b) + delivered b = held (expire_stuck now h q) (fb_channel b) \<and>
    slot (q_cancelled q') (fb_channel b) = []"
  using assms
proof (cases rule: flush_next_cases)
  case (queued c)
  then show ?thesis
    using held_flush_channel [of "expire_stuck now h q" c now c]
    by (simp add: flush_channel_def Let_def set_in_flight_def)
next
  case (cancelled c)
  then show ?thesis
    using held_flush_cancelled [of "expire_stuck now h q" c now c]
    by (simp add: flush_cancelled_def Let_def set_in_flight_def)
qed simp

text \<open>
  C22: When no agent is free, the batch that was flushed goes back: every pending event is in its
  queue again and the channel is no longer in flight. But the events of a cancelled turn that the
  flush had merged into the batch are not put back anywhere; they are lost.
\<close>

theorem unclaimed_batch_loses_cancelled:
  assumes "idle_count p = 0" "flush_next (de_now (envs k)) (de_order (envs k)) q = (q1, Some b)"
    "length (fb_events b) + length (slot (q_queues q1) (fb_channel b)) \<le> MAX_PENDING_PER_CHANNEL"
  shows "\<exists>q'. dispatch_pending mode envs k p q = (p, q', []) \<and> fb_channel b \<notin> q_in_flight q' \<and>
    (\<forall>d. held q' d = held q1 d + (if d = fb_channel b then mset (fb_events b) else {#})) \<and>
    slot (q_cancelled q') (fb_channel b) = [] \<and>
    held q' (fb_channel b) + mset (fb_cancelled b) =
      held (expire_stuck (de_now (envs k)) (de_order (envs k)) q) (fb_channel b)"
proof -
  let ?q' = "mark_complete (de_done (envs k)) (requeue_preserve_timestamps q1 b) (fb_channel b)"
  have "try_claim p (Some (fb_channel b)) = None"
    using assms(1) try_claim_idle_count(1) [of p "Some (fb_channel b)"] by (cases "try_claim p (Some (fb_channel b))") auto
  then have d: "dispatch_pending mode envs k p q = (p, ?q', [])"
    using assms(2) by (simp add: dispatch_pending.simps)
  have restored: "held ?q' d = held q1 d + (if d = fb_channel b then mset (fb_events b) else {#})" for d
    by (simp add: requeue_preserve_timestamps_def held_requeue_front_exact [OF assms(3)])
  have released: "fb_channel b \<notin> q_in_flight ?q'"
    by (simp add: mark_complete_def Let_def split: option.split)
  have whole: "held q1 (fb_channel b) + delivered b = held (expire_stuck (de_now (envs k)) (de_order (envs k)) q) (fb_channel b)"
    and none: "slot (q_cancelled q1) (fb_channel b) = []"
    using flush_next_hands_over [OF assms(2)] by blast+
  have "slot (q_cancelled ?q') (fb_channel b) = []"
    using none by (simp add: mark_complete_def Let_def requeue_preserve_timestamps_def requeue_front_def split: option.split)
  moreover have "held ?q' (fb_channel b) + mset (fb_cancelled b) =
      held (expire_stuck (de_now (envs k)) (de_order (envs k)) q) (fb_channel b)"
    unfolding restored using whole by (simp add: delivered_def ac_simps)
  ultimately show ?thesis using d restored released by blast
qed

text \<open>A channel whose turn was interrupted by a second event.\<close>

definition interrupted_queue :: event_queue where
  "interrupted_queue =
     fst (push (mark_complete 20 (requeue_as_cancelled
       (fst (flush_next 10 in_order (fst (push (event_queue_new QueueMode) (queued ''c'' ''e1'' 1 5))))) busy_batch Interrupt) ''c'')
       (queued ''c'' ''e2'' 2 6))"

lemma unclaimed_batch_loses_cancelled_witness:
  "\<exists>q'. dispatch_pending QueueMode sample_envs 0 (from_slots [None]) interrupted_queue = (from_slots [None], q', []) \<and>
     held q' ''c'' = {#to_batch (queued ''c'' ''e2'' 2 6)#} \<and>
     held (expire_stuck 30 in_order interrupted_queue) ''c'' =
       {#to_batch (queued ''c'' ''e1'' 1 5), to_batch (queued ''c'' ''e2'' 2 6)#}"
proof -
  let ?r = "flush_next (de_now (sample_envs 0)) (de_order (sample_envs 0)) interrupted_queue"
  have flush: "?r = (fst ?r, Some (the (snd ?r)))" and idle: "idle_count (from_slots [None]) = 0"
    and room: "length (fb_events (the (snd ?r))) + length (slot (q_queues (fst ?r)) (fb_channel (the (snd ?r)))) \<le> MAX_PENDING_PER_CHANNEL"
    and b: "fb_channel (the (snd ?r)) = ''c''" "fb_cancelled (the (snd ?r)) = [to_batch (queued ''c'' ''e1'' 1 5)]"
      "fb_events (the (snd ?r)) = [to_batch (queued ''c'' ''e2'' 2 6)]"
    and rest: "held (fst ?r) ''c'' = {#}"
    and env: "de_now (sample_envs 0) = 30" "de_order (sample_envs 0) = in_order"
    by (code_simp, code_simp, code_simp, code_simp, code_simp, code_simp, code_simp, simp_all add: sample_envs_def)
  from unclaimed_batch_loses_cancelled [where envs = sample_envs and k = 0, OF idle flush room, of QueueMode]
  show ?thesis by (auto simp: b rest env [symmetric] add.commute add_mset_commute)
qed

lemma held_requeue_exact:
  assumes "requeue now nanos q b = (q', r)"
    "length (fb_events b) + length (slot (q_queues q) (fb_channel b)) \<le> MAX_PENDING_PER_CHANNEL"
  shows "(r = None \<and> (\<forall>d. held q' d = held q d + (if d = fb_channel b then mset (fb_events b) else {#}))) \<or>
    (r = Some b \<and> (\<forall>d. held q' d = held q d))"
proof -
  have "held (requeue_front (q\<lparr>q_retry_counts := m\<rparr>) b) d = held q d + (if d = fb_channel b then mset (fb_events b) else {#})"
    for m d using held_requeue_front_exact [of b "q\<lparr>q_retry_counts := m\<rparr>" d] assms(2) by (simp add: held_def)
  moreover have "held (q1\<lparr>q_retry_after := m\<rparr>) d = held q1 d" "held (q1\<lparr>q_retry_counts := m', q_retry_after := m\<rparr>) d = held q1 d"
    for q1 m m' d by (simp_all add: held_def)
  ultimately show ?thesis using assms(1) by (auto simp: requeue_def Let_def split: if_splits)
qed

definition carries_over :: "prompt_outcome \<Rightarrow> bool" where
  "carries_over outcome = (case outcome of Cancelled \<Rightarrow> True | CancelDrainTimeout _ \<Rightarrow> True | _ \<Rightarrow> False)"

definition kept_or_noticed ::
  "event_queue \<Rightarrow> prompt_outcome \<Rightarrow> flush_batch \<Rightarrow> event_queue \<Rightarrow> failure_notice list \<Rightarrow> bool" where
  "kept_or_noticed q outcome b q' notices \<longleftrightarrow>
     (map notice_batch notices = [b] \<and> (\<forall>d. held q' d = held q d)) \<or>
     (notices = [] \<and> (\<forall>d. held q' d = held q d + (if d = fb_channel b
        then mset (fb_events b) + (if carries_over outcome then mset (fb_cancelled b) else {#}) else {#})))"

lemma dead_letter_fate:
  assumes "dead_letter f (requeue now nanos q b) = (q', notices)" "\<And>d. notice_batch (f d) = d"
    "\<not> carries_over outcome"
    "length (fb_events b) + length (slot (q_queues q) (fb_channel b)) \<le> MAX_PENDING_PER_CHANNEL"
  shows "kept_or_noticed q outcome b q' notices"
proof -
  obtain q1 r where r: "requeue now nanos q b = (q1, r)" by (cases "requeue now nanos q b")
  from held_requeue_exact [OF r assms(4)] assms(1-3) r show ?thesis
    by (auto simp: dead_letter_def kept_or_noticed_def split: option.splits)
qed

lemma cancelled_fate: "carries_over outcome \<Longrightarrow> kept_or_noticed q outcome b (requeue_as_cancelled q b reason) []"
  by (simp add: kept_or_noticed_def held_requeue_as_cancelled delivered_def)

lemma noticed_fate: "notice_batch n = b \<Longrightarrow> kept_or_noticed q outcome b q [n]"
  by (simp add: kept_or_noticed_def)

lemma settle_batch_fate:
  assumes "settle_batch t q outcome b = (q', notices)"
    "length (fb_events b) + length (slot (q_queues q) (fb_channel b)) \<le> MAX_PENDING_PER_CHANNEL"
  shows "kept_or_noticed q outcome b q' notices"
proof (cases outcome)
  case (OutcomeError e)
  with assms show ?thesis
    by (cases "is_auth_error e") (auto intro: dead_letter_fate noticed_fate simp: carries_over_def)
next
  case (Timeout k)
  show ?thesis
  proof (cases k)
    case Idle
    with Timeout assms show ?thesis by (auto intro: dead_letter_fate simp: carries_over_def)
  next
    case (Hard recently_active)
    with Timeout assms show ?thesis
      by (cases recently_active) (auto intro: dead_letter_fate noticed_fate simp: carries_over_def)
  qed
qed (use assms in \<open>auto intro: dead_letter_fate cancelled_fate simp: carries_over_def\<close>)


definition sample_clock :: harness_clock where
  "sample_clock = \<lparr>hc_requeue = 40, hc_nanos = 7, hc_complete = 41, hc_crash = 42, hc_crash_nanos = 8\<rparr>"

definition sample_harness :: harness where
  "sample_harness = \<lparr>h_pool = from_slots [None], h_queue = busy_queue, h_heartbeat = False,
     h_circuits = [\<lparr>sc_crash_times = [], sc_open_until = None, sc_respawn_in_flight = False\<rparr>]\<rparr>"

definition failed_turn :: prompt_result where
  "failed_turn = \<lparr>pr_agent = sample_agent 0, pr_source = Channel ''c'', pr_outcome = Timeout (Hard False),
     pr_batch = Some merged_batch\<rparr>"


section \<open>The circuit breaker bounds respawns\<close>

text \<open>The crashes of a slot at given instants, and the instants at which a respawn was allowed.\<close>

fun crash_run :: "slot_circuit \<Rightarrow> nat list \<Rightarrow> (nat \<times> nat) list \<Rightarrow> nat list" where
  "crash_run s allowed [] = allowed"
| "crash_run s allowed ((now, nanos) # crashes) =
     (case record_crash now nanos s of (s', v) \<Rightarrow>
        crash_run s' (if v = CircuitOpen then allowed else allowed @ [now]) crashes)"

definition in_window :: "nat \<Rightarrow> nat \<Rightarrow> bool" where
  "in_window w t \<longleftrightarrow> w \<le> t \<and> t < w + CIRCUIT_BREAKER_WINDOW"

definition recent_at :: "nat \<Rightarrow> nat list \<Rightarrow> nat" where
  "recent_at m ts = length (filter (\<lambda>t. m - t < CIRCUIT_BREAKER_WINDOW) ts)"

definition circuit_inv :: "nat \<Rightarrow> slot_circuit \<Rightarrow> nat list \<Rightarrow> bool" where
  "circuit_inv n s allowed \<longleftrightarrow>
     (\<forall>a \<in> set allowed. a \<le> n) \<and>
     (case sc_open_until s of
        Some until \<Rightarrow> \<forall>a \<in> set allowed. a + CIRCUIT_BREAKER_COOLDOWN \<le> until
      | None \<Rightarrow> \<forall>m \<ge> n. recent_at m allowed \<le> recent_at m (sc_crash_times s)) \<and>
     (\<forall>w. length (filter (in_window w) allowed) < CIRCUIT_BREAKER_THRESHOLD)"

lemma window_le_cooldown: "CIRCUIT_BREAKER_WINDOW \<le> CIRCUIT_BREAKER_COOLDOWN" "0 < CIRCUIT_BREAKER_WINDOW"
  by (simp_all add: CIRCUIT_BREAKER_WINDOW_def CIRCUIT_BREAKER_COOLDOWN_def secs_def)

lemma probe_inv:
  assumes "circuit_inv n s allowed" "n \<le> now" "sc_open_until s = Some until" "until \<le> now"
  shows "circuit_inv now (half_open now s) (allowed @ [now])"
proof -
  have old: "a + CIRCUIT_BREAKER_WINDOW \<le> now" if "a \<in> set allowed" for a
    using assms that window_le_cooldown by (force simp: circuit_inv_def)
  then have "filter (\<lambda>t. m - t < CIRCUIT_BREAKER_WINDOW) allowed = []" if "now \<le> m" for m
    using that by (force simp: filter_empty_conv)
  then have "recent_at m (allowed @ [now]) \<le> recent_at m (sc_crash_times (half_open now s))" if "now \<le> m" for m
    using that by (simp add: recent_at_def half_open_def CIRCUIT_BREAKER_THRESHOLD_def numeral_2_eq_2)
  moreover have "length (filter (in_window w) (allowed @ [now])) < CIRCUIT_BREAKER_THRESHOLD" for w
  proof (cases "in_window w now")
    case True
    then have "filter (in_window w) allowed = []" using old by (force simp: filter_empty_conv in_window_def)
    then show ?thesis by (simp add: CIRCUIT_BREAKER_THRESHOLD_def)
  next
    case False
    then show ?thesis using assms(1) by (simp add: circuit_inv_def)
  qed
  moreover have "a \<le> now" if "a \<in> set (allowed @ [now])" for a
    using assms(1,2) that by (force simp: circuit_inv_def)
  ultimately show ?thesis by (simp add: circuit_inv_def half_open_def)
qed

lemma recent_at_prune:
  "now \<le> m \<Longrightarrow> recent_at m (filter (\<lambda>t. now - t < CIRCUIT_BREAKER_WINDOW) ts) = recent_at m ts"
  unfolding recent_at_def filter_filter by (metis (no_types, lifting) diff_le_mono le_less_trans)

lemma length_filter_mono: "(\<And>x. P x \<Longrightarrow> Q x) \<Longrightarrow> length (filter P xs) \<le> length (filter Q xs)"
  by (induction xs) (auto intro: le_SucI)

lemma respawn_inv:
  assumes "circuit_inv n s allowed" "n \<le> now" "sc_open_until s = None"
    "ts = filter (\<lambda>t. now - t < CIRCUIT_BREAKER_WINDOW) (sc_crash_times s @ [now])"
    "length ts < CIRCUIT_BREAKER_THRESHOLD"
  shows "circuit_inv now (s\<lparr>sc_crash_times := ts\<rparr>) (allowed @ [now])"
proof -
  have bound: "a \<le> now" if "a \<in> set (allowed @ [now])" for a
    using assms(1,2) that by (force simp: circuit_inv_def)
  have recent: "recent_at m (allowed @ [now]) \<le> recent_at m ts" if "now \<le> m" for m
  proof -
    have "recent_at m allowed \<le> recent_at m (sc_crash_times s)"
      using assms(1-3) that by (simp add: circuit_inv_def)
    then have "recent_at m (allowed @ [now]) \<le> recent_at m (sc_crash_times s @ [now])" by (simp add: recent_at_def)
    then show ?thesis unfolding assms(4) recent_at_prune [OF that] .
  qed
  have "length (filter (in_window w) (allowed @ [now])) < CIRCUIT_BREAKER_THRESHOLD" for w
  proof (cases "in_window w now")
    case True
    have "now - a < CIRCUIT_BREAKER_WINDOW" if "in_window w a" for a
      using True that window_le_cooldown(2) unfolding in_window_def by linarith
    then have "length (filter (in_window w) (allowed @ [now])) \<le> recent_at now (allowed @ [now])"
      unfolding recent_at_def by (rule length_filter_mono)
    also have "\<dots> \<le> recent_at now ts" by (rule recent) simp
    also have "\<dots> \<le> length ts" by (simp add: recent_at_def)
    finally show ?thesis using assms(5) by simp
  next
    case False
    then show ?thesis using assms(1) by (simp add: circuit_inv_def)
  qed
  with bound recent assms(3) show ?thesis by (simp add: circuit_inv_def)
qed

lemma record_crash_inv:
  assumes "circuit_inv n s allowed" "n \<le> now" "record_crash now nanos s = (s', v)"
  shows "circuit_inv now s' (if v = CircuitOpen then allowed else allowed @ [now])"
proof (cases "sc_open_until s")
  case None
  let ?times = "filter (\<lambda>t. now - t < CIRCUIT_BREAKER_WINDOW) (sc_crash_times s @ [now])"
  show ?thesis
  proof (cases "CIRCUIT_BREAKER_THRESHOLD \<le> length ?times")
    case True
    with None assms(3) have "s' = s\<lparr>sc_crash_times := ?times, sc_open_until := Some (now + CIRCUIT_BREAKER_COOLDOWN)\<rparr>"
      "v = CircuitOpen" unfolding record_crash_def Let_def by auto
    with assms(1,2) show ?thesis by (force simp: circuit_inv_def)
  next
    case False
    with None assms(3) have "s' = s\<lparr>sc_crash_times := ?times\<rparr>" "v \<noteq> CircuitOpen"
      unfolding record_crash_def Let_def by auto
    with respawn_inv [OF assms(1,2) None refl] False show ?thesis by simp
  qed
next
  case (Some until)
  then show ?thesis
    using assms probe_inv [OF assms(1,2) Some]
    by (cases "until \<le> now") (force simp: record_crash_def circuit_inv_def)+
qed



end
