(* ===== verification/Portable_Policy.thy ===== *)
theory Portable_Policy
  imports Declarations Beacon
begin

text \<open>
  The policies of the portable relay node (\<open>cloudflare/portable-relay/src\<close>), the replica in
  TypeScript that stands between two local relays: what it takes from untrusted JSON
  (\<open>protocol.ts\<close>, \<open>replication.ts\<close>, \<open>stable-node-key.ts\<close>), the proofs it accepts and the events it
  discloses (\<open>identity.ts\<close>), the configuration it derives from declaration heads
  (\<open>declarations.ts\<close>) and its Beacon statements (\<open>pulse.ts\<close>).

  The functions of \<open>nostr-tools\<close>, the URL parser, the digest and the JSON codec are the fields of
  \<open>js_lib\<close>. A thrown exception is the left side of a result. Events are those of the other
  theories: an event with an empty tag, or with a time or kind that is no natural number, which
  \<open>validateEvent\<close> lets pass, is not represented. Denial codes are the wire tokens of
  \<open>identity_denial_code\<close>.
\<close>

section \<open>The JavaScript side\<close>

record js_url =
  u_protocol :: string
  u_username :: string
  u_password :: string
  u_hostname :: string
  u_port :: string
  u_host :: string
  u_origin :: string
  u_pathname :: string
  u_search :: string

record js_lib =
  j_validate_event :: "json \<Rightarrow> event option"
  j_verify_event :: "event \<Rightarrow> bool"
  j_match_filter :: "json \<Rightarrow> event \<Rightarrow> bool"
  j_match_filters :: "json list \<Rightarrow> event \<Rightarrow> bool"
  j_sort_events :: "event list \<Rightarrow> event list"
  j_finalize_event :: "event_builder \<Rightarrow> string \<Rightarrow> event option"
  j_public_key :: "string \<Rightarrow> pubkey option"
  j_json_parse :: "string \<Rightarrow> json option"
  j_json_stringify :: "json \<Rightarrow> string"
  j_event_json :: "event \<Rightarrow> string"
  j_float_integer :: "nat \<Rightarrow> int option"
  j_atob :: "string \<Rightarrow> string option"
  j_url :: "string \<Rightarrow> js_url option"
  j_sha256 :: "string \<Rightarrow> string"

definition MAX_SAFE_INTEGER :: int where
  "MAX_SAFE_INTEGER = 9007199254740991"

text \<open>\<open>Number.isSafeInteger\<close> with the integer; a number with a fraction or exponent may be one.\<close>

definition safe_integer :: "js_lib \<Rightarrow> json \<Rightarrow> int option" where
  "safe_integer J v =
     Option.bind (case v of
         JNumber (PosInt n) \<Rightarrow> Some (int n)
       | JNumber (NegInt i) \<Rightarrow> Some i
       | JNumber (FloatBits b) \<Rightarrow> j_float_integer J b
       | _ \<Rightarrow> None)
       (\<lambda>i. if \<bar>i\<bar> \<le> MAX_SAFE_INTEGER then Some i else None)"

text \<open>The length of a string in UTF-16 units: a character of four bytes is a surrogate pair.\<close>

definition js_length :: "string \<Rightarrow> nat" where
  "js_length s = sum_list (map (\<lambda>c. if length c = 4 then 2 else 1) (chars s))"

text \<open>
  Reading a property of an object used as a dictionary: its own entry, or what every object
  inherits under that name.
\<close>

datatype 'v property = Undefined | Inherited | Own 'v

definition OBJECT_PROTOTYPE_NAMES :: "string list" where
  "OBJECT_PROTOTYPE_NAMES = [''constructor'', ''__defineGetter__'', ''__defineSetter__'', ''hasOwnProperty'',
     ''__lookupGetter__'', ''__lookupSetter__'', ''isPrototypeOf'', ''propertyIsEnumerable'', ''toString'',
     ''valueOf'', ''__proto__'', ''toLocaleString'']"

definition get_property :: "(string \<times> 'v) list \<Rightarrow> string \<Rightarrow> 'v property" where
  "get_property entries name =
     (case map_of entries name of
        Some v \<Rightarrow> Own v
      | None \<Rightarrow> if name \<in> set OBJECT_PROTOTYPE_NAMES then Inherited else Undefined)"

definition is_hex :: "nat \<Rightarrow> string \<Rightarrow> bool" where
  "is_hex n s = (length s = n \<and> list_all is_lower_hexdigit s)"

definition is_record :: "json \<Rightarrow> bool" where
  "is_record v = (json_as_object v \<noteq> None)"

definition nonempty_string :: "json option \<Rightarrow> string option" where
  "nonempty_string v = Option.bind (Option.bind v json_as_str) (\<lambda>s. if s = [] then None else Some s)"

section \<open>Untrusted input\<close>

definition event_from_unknown :: "js_lib \<Rightarrow> json \<Rightarrow> string + event" where
  "event_from_unknown J v =
     and_then (ok_or ''invalid event envelope'' (if is_record v then j_validate_event J v else None)) (\<lambda>e.
     and_then (require (is_hex 64 (ev_id e) \<and> is_hex 64 (ev_pubkey e) \<and> is_hex 128 (ev_sig e))
       ''invalid event identity or signature encoding'') (\<lambda>_.
     and_then (require (ev_kind e \<le> 65535) ''event kind must be an unsigned 16-bit integer'') (\<lambda>_.
     Inr e)))"

definition FILTER_FIELDS :: "string list" where
  "FILTER_FIELDS = [''ids'', ''authors'', ''kinds'', ''since'', ''until'', ''limit'']"

definition require_string_array :: "string \<Rightarrow> json \<Rightarrow> string + unit" where
  "require_string_array field v =
     require (case json_as_array v of None \<Rightarrow> False | Some vs \<Rightarrow> list_all (\<lambda>v. json_as_str v \<noteq> None) vs)
       (field @ '' must be an array of strings'')"

definition require_integer_array :: "js_lib \<Rightarrow> string \<Rightarrow> json \<Rightarrow> string + unit" where
  "require_integer_array J field v =
     require (case json_as_array v of None \<Rightarrow> False | Some vs \<Rightarrow> list_all (\<lambda>v. safe_integer J v \<noteq> None) vs)
       (field @ '' must be an array of integers'')"

definition check_filter_field :: "js_lib \<Rightarrow> bool \<Rightarrow> string \<times> json \<Rightarrow> string + unit" where
  "check_filter_field J allow_cursor entry =
     (case entry of (field, v) \<Rightarrow>
       if starts_with field ''#'' then require_string_array field v
       else if field = ''before_id'' \<and> allow_cursor
       then require (case json_as_str v of None \<Rightarrow> False | Some s \<Rightarrow> is_hex 64 s)
         ''before_id must be a 64-hex event id''
       else if field \<notin> set FILTER_FIELDS then Inl (''unsupported filter field: '' @ field)
       else if field = ''ids'' \<or> field = ''authors'' then require_string_array field v
       else if field = ''kinds'' then require_integer_array J field v
       else require (case safe_integer J v of None \<Rightarrow> False | Some i \<Rightarrow> field = ''limit'' \<longrightarrow> 0 \<le> i)
         (field @ '' must be an integer''))"

definition filter_from_unknown :: "js_lib \<Rightarrow> bool \<Rightarrow> json \<Rightarrow> string + json" where
  "filter_from_unknown J allow_cursor v =
     and_then (ok_or ''each filter must be a JSON object'' (json_as_object v)) (\<lambda>entries.
     and_then (require (json_get v ''search'' = None) ''NIP-50 search is unsupported'') (\<lambda>_.
     and_then (collect_results (map (check_filter_field J allow_cursor) entries)) (\<lambda>_.
     and_then (require (json_get v ''before_id'' = None \<or> json_get v ''until'' \<noteq> None)
       ''before_id requires until to be set'') (\<lambda>_.
     Inr v))))"

definition filters_from_unknown_with_cursor :: "js_lib \<Rightarrow> bool \<Rightarrow> json \<Rightarrow> string + json list" where
  "filters_from_unknown_with_cursor J allow_cursor v =
     and_then (ok_or ''filters must be a JSON array'' (json_as_array v)) (\<lambda>vs.
     collect_results (map (filter_from_unknown J allow_cursor) vs))"

definition filters_from_unknown :: "js_lib \<Rightarrow> json \<Rightarrow> string + json list" where
  "filters_from_unknown J v = filters_from_unknown_with_cursor J False v"

definition query_filters_from_unknown :: "js_lib \<Rightarrow> json \<Rightarrow> string + json list" where
  "query_filters_from_unknown J v = filters_from_unknown_with_cursor J True v"

definition NODE_MAX_REPLICATION_BATCH_SIZE :: nat where
  "NODE_MAX_REPLICATION_BATCH_SIZE = 500"

definition replication_record_from_unknown :: "js_lib \<Rightarrow> json \<Rightarrow> string + replication_record" where
  "replication_record_from_unknown J v =
     and_then (require (is_record v) ''each replication record must be an object'') (\<lambda>_.
     and_then (ok_or ''replication record requires a source'' (nonempty_string (json_get v ''source''))) (\<lambda>source.
     and_then (ok_or ''replication record requires a cursor'' (nonempty_string (json_get v ''cursor''))) (\<lambda>cursor.
     and_then (event_from_unknown J (json_index v ''event'')) (\<lambda>e.
     Inr \<lparr>rr_source = source, rr_cursor = cursor, rr_event = e\<rparr>))))"

definition replication_records_from_unknown :: "js_lib \<Rightarrow> json \<Rightarrow> string + replication_record list" where
  "replication_records_from_unknown J v =
     and_then (ok_or ''replication body must be a record array'' (json_as_array v)) (\<lambda>vs.
     and_then (require (length vs \<le> NODE_MAX_REPLICATION_BATCH_SIZE)
       (''replication batch exceeds '' @ show_nat NODE_MAX_REPLICATION_BATCH_SIZE @ '' records'')) (\<lambda>_.
     collect_results (map (replication_record_from_unknown J) vs)))"

definition READ_CURSOR_PREFIX :: string where
  "READ_CURSOR_PREFIX = ''cf-sqlite-v1:''"

definition MAX_READ_BATCH :: nat where
  "MAX_READ_BATCH = 500"

record read_request =
  rq_source :: source_id
  rq_cursor :: "string option"
  rq_limit :: nat

text \<open>The digits behind the prefix of a cursor.\<close>

definition cursor_digits :: "string \<Rightarrow> string option" where
  "cursor_digits cursor =
     Option.bind (strip_prefix cursor READ_CURSOR_PREFIX) (\<lambda>ds.
       if ds \<noteq> [] \<and> list_all is_ascii_digit ds then Some ds else None)"

definition read_cursor_from_unknown :: "json option \<Rightarrow> string + string option" where
  "read_cursor_from_unknown v =
     (case v of
        None \<Rightarrow> Inr None
      | Some JNull \<Rightarrow> Inr None
      | Some (JString cursor) \<Rightarrow>
          (case cursor_digits cursor of
             None \<Rightarrow> Inl ''cursor was not issued by this source''
           | Some _ \<Rightarrow> Inr (Some cursor))
      | Some _ \<Rightarrow> Inl ''cursor must be a string or null'')"

definition replication_read_request_from_unknown :: "js_lib \<Rightarrow> json \<Rightarrow> string + read_request" where
  "replication_read_request_from_unknown J v =
     and_then (require (is_record v) ''replication read body must be an object'') (\<lambda>_.
     and_then (ok_or ''replication read requires a source'' (nonempty_string (json_get v ''source''))) (\<lambda>source.
     and_then (read_cursor_from_unknown (json_get v ''cursor'')) (\<lambda>cursor.
     let limit = (case Option.bind (json_get v ''limit'') (safe_integer J) of
                    Some i \<Rightarrow> i | None \<Rightarrow> int MAX_READ_BATCH) in
     and_then (require (1 \<le> limit) ''limit must be at least 1'') (\<lambda>_.
     Inr \<lparr>rq_source = source, rq_cursor = cursor, rq_limit = nat limit\<rparr>))))"

definition MAX_STABLE_NODE_KEY_LENGTH :: nat where
  "MAX_STABLE_NODE_KEY_LENGTH = 255"

definition SUPPORTED_SCHEMES :: "string list" where
  "SUPPORTED_SCHEMES = [''http:'', ''https:'', ''ws:'', ''wss:'']"

definition normalize_hostname :: "string \<Rightarrow> string" where
  "normalize_hostname hostname =
     (let lower = to_ascii_lowercase hostname in
      if first_of lower = Some (CHR ''['') \<and> last_of lower = Some (CHR '']'') then lower
      else rev (dropWhile (\<lambda>c. c = CHR ''.'') (rev lower)))"

definition stable_node_key_from_url :: "js_url \<Rightarrow> string + string" where
  "stable_node_key_from_url url =
     and_then (require (to_ascii_lowercase (u_protocol url) \<in> set SUPPORTED_SCHEMES)
       (''unsupported stable node scheme: '' @ u_protocol url)) (\<lambda>_.
     and_then (require (u_username url = [] \<and> u_password url = [])
       ''stable node authority must not contain credentials'') (\<lambda>_.
     let hostname = normalize_hostname (u_hostname url) in
     and_then (require (hostname \<noteq> []) ''stable node authority has no hostname'') (\<lambda>_.
     let key = (if u_port url = [] then hostname else hostname @ '':'' @ u_port url) in
     and_then (require (js_length key \<le> MAX_STABLE_NODE_KEY_LENGTH) ''stable node key exceeds 255 characters'') (\<lambda>_.
     Inr key))))"

section \<open>Proofs\<close>

definition NODE_TIMESTAMP_TOLERANCE_SECS :: nat where
  "NODE_TIMESTAMP_TOLERANCE_SECS = 60"

definition NODE_PROOF_RETENTION_SECS :: nat where
  "NODE_PROOF_RETENTION_SECS = NODE_TIMESTAMP_TOLERANCE_SECS * 10"

fun http_status_for_denial :: "identity_denial_code \<Rightarrow> nat" where
  "http_status_for_denial AuthenticationRequired = 401"
| "http_status_for_denial InvalidEvidence = 401"
| "http_status_for_denial EvidenceExpired = 401"
| "http_status_for_denial AudienceMismatch = 401"
| "http_status_for_denial ReplayDetected = 401"
| "http_status_for_denial _ = 403"

definition tag_value :: "event \<Rightarrow> string \<Rightarrow> string option" where
  "tag_value e name = tag_find_content (ev_tags e) name"

definition same_authority :: "js_lib \<Rightarrow> string \<Rightarrow> string \<Rightarrow> bool" where
  "same_authority J left right =
     (case (j_url J left, j_url J right) of
        (Some a, Some b) \<Rightarrow> to_ascii_lowercase (u_host a) = to_ascii_lowercase (u_host b)
      | _ \<Rightarrow> False)"

definition within_tolerance :: "nat \<Rightarrow> nat \<Rightarrow> bool" where
  "within_tolerance created_at now = (abs_diff now created_at \<le> NODE_TIMESTAMP_TOLERANCE_SECS)"

definition verify_nip42_at ::
  "js_lib \<Rightarrow> event \<Rightarrow> string \<Rightarrow> string \<Rightarrow> nat \<Rightarrow> identity_denial_code + (pubkey \<times> event_id)" where
  "verify_nip42_at J e expected_challenge audience now =
     (if ev_kind e \<noteq> KIND_AUTH \<or> \<not> j_verify_event J e then Inl InvalidEvidence
      else if tag_value e ''challenge'' \<noteq> Some expected_challenge then Inl AudienceMismatch
      else if \<not> (case tag_value e ''relay'' of None \<Rightarrow> False | Some relay \<Rightarrow> same_authority J relay audience)
      then Inl AudienceMismatch
      else if \<not> within_tolerance (ev_created_at e) now then Inl EvidenceExpired
      else Inr (ev_pubkey e, ev_id e))"

definition urls_equal :: "js_lib \<Rightarrow> string \<Rightarrow> string \<Rightarrow> bool" where
  "urls_equal J left right =
     (case (j_url J left, j_url J right) of
        (Some a, Some b) \<Rightarrow>
          to_ascii_lowercase (u_origin a) = to_ascii_lowercase (u_origin b)
          \<and> u_pathname a = u_pathname b \<and> u_search a = u_search b
      | _ \<Rightarrow> False)"

record nip98_expectation =
  ne_url :: string
  ne_method :: string
  ne_payload :: string

definition verify_nip98_at ::
  "js_lib \<Rightarrow> event \<Rightarrow> nip98_expectation \<Rightarrow> nat \<Rightarrow> identity_denial_code + (pubkey \<times> event_id)" where
  "verify_nip98_at J e expected now =
     (if ev_kind e \<noteq> KIND_HTTP_AUTH \<or> \<not> j_verify_event J e then Inl InvalidEvidence
      else if \<not> (case tag_value e ''u'' of None \<Rightarrow> False | Some url \<Rightarrow> urls_equal J url (ne_url expected))
      then Inl AudienceMismatch
      else if tag_value e ''method'' \<noteq> Some (ne_method expected) then Inl AudienceMismatch
      else if tag_value e ''payload'' \<noteq> Some (ne_payload expected) then Inl InvalidEvidence
      else if \<not> within_tolerance (ev_created_at e) now then Inl EvidenceExpired
      else Inr (ev_pubkey e, ev_id e))"

section \<open>Disclosure\<close>

definition NODE_AUTHOR_ONLY_KINDS :: "nat list" where
  "NODE_AUTHOR_ONLY_KINDS = [30300, 30350]"

definition NODE_P_GATED_KINDS :: "nat list" where
  "NODE_P_GATED_KINDS = [24200, 44100, 44101, 1059, 30622, 44200]"

definition node_authorize_direct :: "pubkey \<Rightarrow> event \<Rightarrow> identity_denial_code option" where
  "node_authorize_direct caller e =
     (if ev_kind e = KIND_AUTH \<or> ev_kind e = KIND_HTTP_AUTH then Some ScopeDenied
      else if ev_pubkey e = caller then None
      else if ev_kind e = KIND_GIFT_WRAP \<and>
        list_ex (\<lambda>t. tag_name t = ''p'' \<and> is_hex 64 (case tag_content t of None \<Rightarrow> [] | Some v \<Rightarrow> v)) (ev_tags e)
      then None
      else Some AuthorMismatch)"

definition event_visible_to_reader :: "pubkey \<Rightarrow> event \<Rightarrow> bool" where
  "event_visible_to_reader reader e =
     (if ev_kind e \<in> set NODE_AUTHOR_ONLY_KINDS \<and> ev_pubkey e \<noteq> reader then False
      else if ev_kind e \<in> set NODE_P_GATED_KINDS \<and>
        \<not> list_ex (\<lambda>t. tag_name t = ''p'' \<and> tag_content t = Some reader) (ev_tags e) then False
      else True)"

section \<open>Trust and exports\<close>

record node_trust =
  nt_principal :: string
  nt_keys :: "string list"

datatype stream_export = Mirror | ByFilter "json list" | FromSource string

definition trust_of_json :: "json \<Rightarrow> node_trust option" where
  "trust_of_json v =
     Option.bind (Option.bind (json_get v ''principal'') json_as_str) (\<lambda>p.
     Option.bind (Option.bind (json_get v ''verification_keys'') json_as_array) (\<lambda>keys.
     Some \<lparr>nt_principal = p, nt_keys = List.map_filter json_as_str keys\<rparr>))"

text \<open>The entries of a configuration variable: none when it is absent, blank or no JSON object.\<close>

definition config_entries :: "js_lib \<Rightarrow> string option \<Rightarrow> (string \<times> json) list" where
  "config_entries J raw =
     (case raw of
        None \<Rightarrow> []
      | Some raw \<Rightarrow>
          if trim raw = [] then []
          else (case Option.bind (j_json_parse J raw) json_as_object of None \<Rightarrow> [] | Some entries \<Rightarrow> entries))"

definition parse_peer_trust :: "js_lib \<Rightarrow> string option \<Rightarrow> (source_id \<times> node_trust) list" where
  "parse_peer_trust J raw =
     List.map_filter (\<lambda>(source, v). map_option (Pair source) (trust_of_json v)) (config_entries J raw)"

definition stream_of_json :: "json \<Rightarrow> stream_export option" where
  "stream_of_json v =
     (if json_get v ''mirror'' = Some (JBool True) then Some Mirror
      else (case Option.bind (json_get v ''filter'') json_as_array of
        Some filters \<Rightarrow> Some (ByFilter filters)
      | None \<Rightarrow> map_option FromSource (nonempty_string (json_get v ''from_source''))))"

definition parse_stream_exports :: "js_lib \<Rightarrow> string option \<Rightarrow> (source_id \<times> stream_export) list" where
  "parse_stream_exports J raw =
     List.map_filter (\<lambda>(name, v). map_option (Pair name) (stream_of_json v)) (config_entries J raw)"

text \<open>Whether a stream selects an event that came from a source, as each reader of exports tests it.\<close>

definition stream_selects :: "js_lib \<Rightarrow> stream_export \<Rightarrow> event \<Rightarrow> string option \<Rightarrow> bool" where
  "stream_selects J export e ingest_source =
     (case export of
        Mirror \<Rightarrow> True
      | ByFilter filters \<Rightarrow> j_match_filters J filters e
      | FromSource source \<Rightarrow> ingest_source = Some source)"

section \<open>Declarations\<close>

record declaration_config =
  dc_peers :: "(source_id \<times> node_trust) list option"
  dc_readers :: "(source_id \<times> node_trust) list option"
  dc_streams :: "(source_id \<times> stream_export) list option"

definition unclaimed :: declaration_config where
  "unclaimed = \<lparr>dc_peers = None, dc_readers = None, dc_streams = None\<rparr>"

definition malformed_declaration :: "string \<Rightarrow> event \<Rightarrow> string \<Rightarrow> string" where
  "malformed_declaration d e reason =
     ''malformed declaration '' @ d @ '' (event '' @ ev_id e @ ''): '' @ reason"

definition declaration_content :: "js_lib \<Rightarrow> event \<Rightarrow> string \<Rightarrow> string + json" where
  "declaration_content J e d =
     and_then (ok_or (malformed_declaration d e ''content is not JSON'') (j_json_parse J (ev_content e))) (\<lambda>v.
     and_then (require (is_record v) (malformed_declaration d e ''content must be a JSON object'')) (\<lambda>_.
     Inr v))"

definition is_active_content :: "json \<Rightarrow> bool" where
  "is_active_content content =
     (case json_get content ''status'' of
        None \<Rightarrow> True
      | Some JNull \<Rightarrow> True
      | Some v \<Rightarrow> v = JString ''active'')"

definition peer_entry :: "js_lib \<Rightarrow> event \<Rightarrow> string \<Rightarrow> string + node_trust option" where
  "peer_entry J e d =
     and_then (declaration_content J e d) (\<lambda>content.
     if \<not> is_active_content content then Inr None
     else and_then (ok_or (malformed_declaration d e ''active head requires a string principal'')
         (nonempty_string (json_get content ''principal''))) (\<lambda>p.
       let keys = List.map_filter (\<lambda>t. if tag_name t = ''p'' then tag_content t else None) (ev_tags e) in
       and_then (require (keys \<noteq> [])
         (malformed_declaration d e ''active head requires at least one p-tag verification key'')) (\<lambda>_.
       Inr (Some \<lparr>nt_principal = p, nt_keys = keys\<rparr>))))"

definition export_entry :: "js_lib \<Rightarrow> event \<Rightarrow> string \<Rightarrow> string + stream_export option" where
  "export_entry J e d =
     and_then (declaration_content J e d) (\<lambda>content.
     if \<not> is_active_content content then Inr None
     else and_then (ok_or (malformed_declaration d e ''active export head requires a selection object'')
         (case json_get content ''selection'' of
            Some (JObject o') \<Rightarrow> Some (JObject o')
          | Some (JArray vs) \<Rightarrow> Some (JArray vs)
          | _ \<Rightarrow> None)) (\<lambda>selection.
       and_then (ok_or (malformed_declaration d e
           ''selection must be {mirror:true}, {filter:[...]}, or {from_source:\"...\"}'')
         (stream_of_json selection)) (\<lambda>export. Inr (Some export))))"

text \<open>A head claims its domain; an active one also sets its entry.\<close>

definition claim_entry :: "(string \<times> 'v) list option \<Rightarrow> string \<Rightarrow> 'v option \<Rightarrow> (string \<times> 'v) list option" where
  "claim_entry domain k entry =
     (let entries = (case domain of None \<Rightarrow> [] | Some es \<Rightarrow> es)
      in Some (case entry of None \<Rightarrow> entries | Some v \<Rightarrow> AList.update k v entries))"

definition evaluate_head ::
  "js_lib \<Rightarrow> pubkey \<Rightarrow> string \<Rightarrow> declaration_config \<Rightarrow> event \<Rightarrow> string + declaration_config" where
  "evaluate_head J owner label cfg e =
     (if ev_kind e \<noteq> KIND_SYNC_DECLARATION \<or> ev_pubkey e \<noteq> owner then Inr cfg
      else (case tag_value e ''d'' of
        None \<Rightarrow> Inr cfg
      | Some d \<Rightarrow>
          if tag_value e ''n'' \<noteq> Some label then Inr cfg
          else (case (strip_prefix d ''admit/'', strip_prefix d ''read/'', strip_prefix d ''export/'') of
            (Some source, _, _) \<Rightarrow> and_then (peer_entry J e d) (\<lambda>entry.
              Inr (cfg\<lparr>dc_peers := claim_entry (dc_peers cfg) source entry\<rparr>))
          | (None, Some source, _) \<Rightarrow> and_then (peer_entry J e d) (\<lambda>entry.
              Inr (cfg\<lparr>dc_readers := claim_entry (dc_readers cfg) source entry\<rparr>))
          | (None, None, Some source) \<Rightarrow> and_then (export_entry J e d) (\<lambda>entry.
              Inr (cfg\<lparr>dc_streams := claim_entry (dc_streams cfg) source entry\<rparr>))
          | _ \<Rightarrow> Inr cfg)))"

fun evaluate_heads ::
  "js_lib \<Rightarrow> pubkey \<Rightarrow> string \<Rightarrow> declaration_config \<Rightarrow> event list \<Rightarrow> string + declaration_config" where
  "evaluate_heads J owner label cfg [] = Inr cfg"
| "evaluate_heads J owner label cfg (e # es) =
     and_then (evaluate_head J owner label cfg e) (\<lambda>cfg. evaluate_heads J owner label cfg es)"

definition evaluate_declarations ::
  "js_lib \<Rightarrow> event list \<Rightarrow> pubkey \<Rightarrow> string \<Rightarrow> string + declaration_config" where
  "evaluate_declarations J events owner label = evaluate_heads J owner label unclaimed events"

section \<open>Pulses and responses\<close>

definition PULSE_ROLE_RENDEZVOUS :: string where
  "PULSE_ROLE_RENDEZVOUS = ''rendezvous''"

definition ADAPTER_ID :: string where
  "ADAPTER_ID = ''portable-relay-cloudflare-v0.1''"

text \<open>The witness secret as the lowercase hex text of its bytes.\<close>

definition witness_secret_from_env :: "string option \<Rightarrow> string option" where
  "witness_secret_from_env raw =
     Option.bind raw (\<lambda>s. if is_hex 64 (to_ascii_lowercase s) then Some (to_ascii_lowercase s) else None)"

definition witness_pubkey_from_env :: "js_lib \<Rightarrow> string option \<Rightarrow> pubkey option" where
  "witness_pubkey_from_env J raw = Option.bind (witness_secret_from_env raw) (j_public_key J)"

record pulse_state =
  ps_node :: string
  ps_label :: string
  ps_sequence :: nat
  ps_head :: "event_id option"
  ps_previous :: "event_id option"
  ps_checkpoints :: "(source_id \<times> string) list"
  ps_agreements :: "(string \<times> event_id) list"
  ps_governance :: "(string \<times> string) list"
  ps_sessions :: "(nat \<times> pubkey list) option"
  ps_recognition :: "(event_id \<times> event_id \<times> (pubkey \<times> string) list) option"

definition json_or_null :: "string option \<Rightarrow> json" where
  "json_or_null v = (case v of None \<Rightarrow> JNull | Some s \<Rightarrow> JString s)"

definition json_strings :: "(string \<times> string) list \<Rightarrow> json" where
  "json_strings entries = JObject (map (\<lambda>(k, v). (k, JString v)) entries)"

definition pulse_content :: "pulse_state \<Rightarrow> json" where
  "pulse_content p = JObject
     [(''node'', JString (ps_node p)), (''label'', JString (ps_label p)), (''adapter'', JString ADAPTER_ID),
      (''journal'', JObject [(''sequence'', JNumber (PosInt (ps_sequence p))), (''head'', json_or_null (ps_head p))]),
      (''previous'', json_or_null (ps_previous p)),
      (''checkpoints'', json_strings (ps_checkpoints p)),
      (''agreements'', json_strings (ps_agreements p)),
      (''coherence'', JObject ((''governance'', json_strings (ps_governance p))
        # (case ps_sessions p of
             None \<Rightarrow> []
           | Some (n, principals) \<Rightarrow>
               [(''sessions'', JObject [(''count'', JNumber (PosInt n)), (''principals'', JArray (map JString principals))])])
        @ (case ps_recognition p of
             None \<Rightarrow> []
           | Some (head, pulse, responses) \<Rightarrow>
               [(''recognition'', JObject [(''head'', JString head), (''pulse'', JString pulse),
                  (''responses'', json_strings responses),
                  (''window_secs'', JNumber (PosInt DEFAULT_RECOGNITION_WINDOW_SECS))])])))]"

definition build_pulse_event :: "js_lib \<Rightarrow> pulse_state \<Rightarrow> string \<Rightarrow> nat \<Rightarrow> event option" where
  "build_pulse_event J p secret now =
     j_finalize_event J
       \<lparr>eb_kind = KIND_BEACON_PULSE, eb_content = j_json_stringify J (pulse_content p),
        eb_tags = (if ps_label p \<noteq> [] then [Tag ''n'' [ps_label p]] else []) @ [Tag ''role'' [PULSE_ROLE_RENDEZVOUS]],
        eb_created_at = now\<rparr> secret"

record expected_response =
  er_pulse_id :: event_id
  er_head :: event_id
  er_created_at :: nat
  er_witness :: pubkey

definition safe_natural :: "js_lib \<Rightarrow> json option \<Rightarrow> bool" where
  "safe_natural J v = (case Option.bind v (safe_integer J) of None \<Rightarrow> False | Some i \<Rightarrow> 0 \<le> i)"

definition valid_observed :: "js_lib \<Rightarrow> string \<Rightarrow> json \<Rightarrow> bool" where
  "valid_observed J stance observed =
     (if stance = ''recognize'' then True
      else if stance = ''advanced'' then safe_natural J (json_get observed ''since'')
      else if stance = ''conflict''
      then nonempty_string (json_get observed ''claim'') \<noteq> None \<and> nonempty_string (json_get observed ''mine'') \<noteq> None
      else if stance = ''diverged''
      then (json_get observed ''measure'' = Some (JString ''head-unknown'')
          \<or> json_get observed ''measure'' = Some (JString ''agreements''))
        \<and> nonempty_string (json_get observed ''detail'') \<noteq> None
      else nonempty_string (json_get observed ''agreement'') \<noteq> None
        \<and> nonempty_string (json_get observed ''reason'') \<noteq> None)"

definition valid_mine :: "js_lib \<Rightarrow> json \<Rightarrow> bool" where
  "valid_mine J mine =
     (is_record mine \<and> safe_natural J (json_get mine ''sequence'')
      \<and> (case json_get mine ''head'' of Some JNull \<Rightarrow> True | Some (JString s) \<Rightarrow> is_hex 64 s | _ \<Rightarrow> False))"

text \<open>The stance of a valid answer to the expected pulse; its other fields are only validated.\<close>

definition parse_beacon_response :: "js_lib \<Rightarrow> event \<Rightarrow> expected_response \<Rightarrow> nat \<Rightarrow> string option" where
  "parse_beacon_response J e expected now =
     (if ev_kind e \<noteq> KIND_BEACON_RESPONSE then None
      else if \<not> list_ex (\<lambda>t. tag_name t = ''e'' \<and> tag_content t = Some (er_pulse_id expected)) (ev_tags e)
        \<or> \<not> list_ex (\<lambda>t. tag_name t = ''p'' \<and> tag_content t = Some (er_witness expected)) (ev_tags e) then None
      else if ev_created_at e < er_created_at expected
        \<or> er_created_at expected + DEFAULT_RECOGNITION_WINDOW_SECS < ev_created_at e
        \<or> er_created_at expected + DEFAULT_RECOGNITION_WINDOW_SECS < now then None
      else Option.bind (j_json_parse J (ev_content e)) (\<lambda>content.
        if \<not> is_record content \<or> json_get content ''head'' \<noteq> Some (JString (er_head expected)) then None
        else Option.bind (Option.bind (json_get content ''stance'') json_as_str) (\<lambda>stance.
          if stance \<notin> set BEACON_STANCES then None
          else if \<not> valid_mine J (json_index content ''mine'') then None
          else if \<not> is_record (json_index content ''observed'')
            \<or> \<not> valid_observed J stance (json_index content ''observed'') then None
          else Some stance)))"

end
