(* ===== verification/Relay_Sync.thy ===== *)
theory Relay_Sync
  imports Relay_Http
begin

text \<open>
  The one-shot pusher \<open>buzz-local-relay/src/bin/buzz-relay-push.rs\<close>: its arguments, the
  split of a page into requests of bounded size, and the loop that drains a local journal to a
  destination and advances a cursor file. The destination is an argument, a function from its
  state and a request to its new state and the response; the locale
  \<open>replication_destination\<close> states what the loop relies on, and the relay of
  \<open>Relay_Http\<close> is shown to provide it. What the network, the signing of a proof and the
  writes of the cursor file do is given per call.
\<close>

section \<open>Arguments\<close>

datatype args_stop = ShowHelp | ArgsError string

record push_args =
  pa_data :: "string option"
  pa_destination :: "string option"
  pa_source :: "string option"
  pa_key_file :: "string option"
  pa_cursor_file :: "string option"
  pa_batch_size :: nat
  pa_batch_bytes :: nat
  pa_filter_json :: "string option"
  pa_streams_file :: "string option"

definition DEFAULT_BATCH_SIZE :: nat where
  "DEFAULT_BATCH_SIZE = 100"

definition DEFAULT_BATCH_BYTES :: nat where
  "DEFAULT_BATCH_BYTES = 192 * 1024"

definition push_args_default :: push_args where
  "push_args_default = \<lparr>pa_data = None, pa_destination = None, pa_source = None, pa_key_file = None,
     pa_cursor_file = None, pa_batch_size = DEFAULT_BATCH_SIZE, pa_batch_bytes = DEFAULT_BATCH_BYTES,
     pa_filter_json = None, pa_streams_file = None\<rparr>"

definition push_flags :: "string list" where
  "push_flags = [''--data'', ''--to'', ''--source'', ''--key'', ''--cursor-file'', ''--batch'',
     ''--batch-bytes'', ''--filter'', ''--streams'']"

definition parse_positive :: "string \<Rightarrow> string \<Rightarrow> args_stop + nat" where
  "parse_positive flag v = ok_or (ArgsError (flag @ '' requires a positive integer'')) (parse_uint u64_max v)"

definition set_push_flag :: "push_args \<Rightarrow> string \<Rightarrow> string \<Rightarrow> args_stop + push_args" where
  "set_push_flag a flag v =
     (if flag = ''--data'' then Inr (a\<lparr>pa_data := Some v\<rparr>)
      else if flag = ''--to'' then Inr (a\<lparr>pa_destination := Some v\<rparr>)
      else if flag = ''--source'' then Inr (a\<lparr>pa_source := Some v\<rparr>)
      else if flag = ''--key'' then Inr (a\<lparr>pa_key_file := Some v\<rparr>)
      else if flag = ''--cursor-file'' then Inr (a\<lparr>pa_cursor_file := Some v\<rparr>)
      else if flag = ''--batch'' then and_then (parse_positive flag v) (\<lambda>n. Inr (a\<lparr>pa_batch_size := n\<rparr>))
      else if flag = ''--batch-bytes'' then and_then (parse_positive flag v) (\<lambda>n. Inr (a\<lparr>pa_batch_bytes := n\<rparr>))
      else if flag = ''--filter'' then Inr (a\<lparr>pa_filter_json := Some v\<rparr>)
      else Inr (a\<lparr>pa_streams_file := Some v\<rparr>))"

definition flag_stop :: "string list \<Rightarrow> string \<Rightarrow> args_stop" where
  "flag_stop flags flag =
     (if flag = ''-h'' \<or> flag = ''--help'' then ShowHelp
      else if flag \<in> set flags then ArgsError (flag @ '' requires a value'')
      else ArgsError (''unknown argument: '' @ flag))"

fun push_args_loop :: "push_args \<Rightarrow> string list \<Rightarrow> args_stop + push_args" where
  "push_args_loop a [] = Inr a"
| "push_args_loop a [flag] = Inl (flag_stop push_flags flag)"
| "push_args_loop a (flag # v # rest) =
     (if flag \<in> set push_flags then and_then (set_push_flag a flag v) (\<lambda>a. push_args_loop a rest)
      else Inl (flag_stop push_flags flag))"

record push_config =
  pc_data :: string
  pc_destination :: string
  pc_source :: source_id
  pc_key_file :: string
  pc_cursor_file :: string
  pc_batch_size :: nat
  pc_batch_bytes :: nat
  pc_filter :: "nostr_filter list option"

text \<open>The selection a streams file declares for a source.\<close>

definition stream_filter ::
  "nostr_lib \<Rightarrow> string \<Rightarrow> source_id \<Rightarrow> json \<Rightarrow> args_stop + nostr_filter list option" where
  "stream_filter L path source streams =
     and_then (ok_or (ArgsError (''stream '' @ l_debug_str L source @ '' not declared in '' @ path @ '' (declared: ''
         @ (case json_as_object streams of None \<Rightarrow> '''' | Some o' \<Rightarrow> join '', '' (map fst o')) @ '')''))
       (json_get streams source)) (\<lambda>entry.
     if json_index entry ''mirror'' = JBool True then Inr None
     else (case json_as_array (json_index entry ''filter'') of
        Some values \<Rightarrow>
          map_err (\<lambda>_. ArgsError ''stream filter must be a JSON array of NIP-01 filters'')
            (and_then (collect_results (map (l_filter_from_value L) values)) (\<lambda>fs. Inr (Some fs)))
      | None \<Rightarrow> Inl (ArgsError (''stream '' @ l_debug_str L source
          @ '' must declare {\"filter\": [...]} or {\"mirror\": true}''))))"

definition push_filter ::
  "nostr_lib \<Rightarrow> wire_lib \<Rightarrow> (string \<Rightarrow> string option) \<Rightarrow> push_args \<Rightarrow> source_id \<Rightarrow> args_stop + nostr_filter list option" where
  "push_filter L W read_file a source =
     (case (pa_filter_json a, pa_streams_file a) of
        (Some _, Some _) \<Rightarrow> Inl (ArgsError ''--filter and --streams are mutually exclusive'')
      | (Some json, None) \<Rightarrow>
          map_err (\<lambda>_. ArgsError ''--filter must be a JSON array of NIP-01 filters'')
            (and_then (w_values W json) (\<lambda>values.
             and_then (collect_results (map (l_filter_from_value L) values)) (\<lambda>fs. Inr (Some fs))))
      | (None, Some path) \<Rightarrow>
          and_then (ok_or (ArgsError (''failed to read streams file '' @ path)) (read_file path)) (\<lambda>raw.
          and_then (map_err (\<lambda>_. ArgsError ''streams file is not valid JSON'') (l_json_from_str L raw)) (\<lambda>streams.
          stream_filter L path source streams))
      | (None, None) \<Rightarrow> Inr None)"

definition push_from_args ::
  "nostr_lib \<Rightarrow> wire_lib \<Rightarrow> (string \<Rightarrow> string option) \<Rightarrow> string list \<Rightarrow> args_stop + push_config" where
  "push_from_args L W read_file args =
     and_then (push_args_loop push_args_default args) (\<lambda>a.
     and_then (require (pa_batch_size a \<noteq> 0) (ArgsError ''--batch requires a positive integer'')) (\<lambda>_.
     and_then (require (pa_batch_bytes a \<noteq> 0) (ArgsError ''--batch-bytes requires a positive integer'')) (\<lambda>_.
     and_then (ok_or (ArgsError ''--data <journal path> is required'') (pa_data a)) (\<lambda>data.
     and_then (ok_or (ArgsError ''--source <stream id> is required'') (pa_source a)) (\<lambda>source.
     and_then (push_filter L W read_file a source) (\<lambda>selection.
     and_then (ok_or (ArgsError ''--to <destination base URL> is required'') (pa_destination a)) (\<lambda>destination.
     and_then (ok_or (ArgsError ''--key <nsec hex file> is required'') (pa_key_file a)) (\<lambda>key_file.
     Inr \<lparr>pc_data = data, pc_destination = trim_end_slashes destination, pc_source = source,
       pc_key_file = key_file,
       pc_cursor_file = (case pa_cursor_file a of Some path \<Rightarrow> path | None \<Rightarrow> data @ ''.push-cursor''),
       pc_batch_size = pa_batch_size a, pc_batch_bytes = pa_batch_bytes a, pc_filter = selection\<rparr>))))))))"

section \<open>Requests of bounded size\<close>

definition json_array :: "string list \<Rightarrow> string" where
  "json_array ss = ''['' @ join '','' ss @ '']''"

text \<open>
  The inner loop of \<open>split_serialized_batches\<close>: how many of the serialised records the request
  that holds \<open>n\<close> of them, with a body of \<open>bytes\<close> bytes, ends with.
\<close>

fun batch_end :: "nat \<Rightarrow> nat \<Rightarrow> nat \<Rightarrow> nat \<Rightarrow> string list \<Rightarrow> nat" where
  "batch_end record_limit byte_limit n bytes [] = n"
| "batch_end record_limit byte_limit n bytes (s # ss) =
     (if n < record_limit
      then (let candidate = saturating_add (saturating_add bytes (if 0 < n then 1 else 0)) (length s)
            in if 0 < n \<and> byte_limit < candidate then n
               else batch_end record_limit byte_limit (Suc n) candidate ss)
      else n)"

lemma batch_end_ge: "n \<le> batch_end rl bl n bytes ss"
proof (induction ss arbitrary: n bytes)
  case (Cons s ss)
  show ?case using Cons.IH [of "Suc n"] by (auto simp: Let_def intro: Suc_leD)
qed simp

lemma batch_end_pos: "ss \<noteq> [] \<Longrightarrow> 0 < rl \<Longrightarrow> 0 < batch_end rl bl 0 bytes ss"
  using batch_end_ge [of 1 rl bl] by (cases ss) (auto simp: Let_def Suc_le_eq)

function split_from :: "nat \<Rightarrow> nat \<Rightarrow> ('a \<times> string) list \<Rightarrow> ('a list \<times> string) list" where
  "split_from record_limit byte_limit rs =
     (if rs = [] then []
      else (let n = batch_end (max 1 record_limit) byte_limit 0 2 (map snd rs)
            in (map fst (take n rs), json_array (map snd (take n rs))) # split_from record_limit byte_limit (drop n rs)))"
  by pat_completeness auto

termination
proof (relation "measure (\<lambda>(_, _, rs). length rs)")
  fix rl bl :: nat and rs :: "('a \<times> string) list" and n
  assume "rs \<noteq> []" "n = batch_end (max 1 rl) bl 0 2 (map snd rs)"
  then have "0 < n" using batch_end_pos [of "map snd rs" "max 1 rl"] by simp
  with \<open>rs \<noteq> []\<close> show "((rl, bl, drop n rs), (rl, bl, rs)) \<in> measure (\<lambda>(_, _, rs). length rs)" by simp
qed simp

declare split_from.simps [simp del]

definition split_serialized_batches ::
  "('a \<Rightarrow> string + string) \<Rightarrow> 'a list \<Rightarrow> nat \<Rightarrow> nat \<Rightarrow> string + ('a list \<times> string) list" where
  "split_serialized_batches to_vec records record_limit byte_limit =
     and_then (collect_results (map to_vec records)) (\<lambda>serialized.
       Inr (split_from record_limit byte_limit (zip records serialized)))"

section \<open>The push loop\<close>

datatype http_reply =
    NoResponse string
  | Response nat "string + replication_receipt list" string

definition is_success :: "nat \<Rightarrow> bool" where
  "is_success status = (200 \<le> status \<and> status < 300)"

datatype persist_fault =
    Persisted
  | PersistCreate string
  | PersistWrite nat string
  | PersistSync string

text \<open>\<open>File::create\<close> truncates, so a write that stops after \<open>n\<close> bytes leaves these alone.\<close>

definition persist_cursor ::
  "persist_fault \<Rightarrow> repl_cursor \<Rightarrow> string option \<Rightarrow> string option \<times> (string + unit)" where
  "persist_cursor fault cursor file' =
     (case fault of
        Persisted \<Rightarrow> (Some cursor, Inr ())
      | PersistCreate e \<Rightarrow> (file', Inl e)
      | PersistWrite n e \<Rightarrow> (Some (take n cursor), Inl e)
      | PersistSync e \<Rightarrow> (Some cursor, Inl e))"

definition resume_cursor :: "string option \<Rightarrow> repl_cursor option" where
  "resume_cursor file' =
     (case file' of
        None \<Rightarrow> None
      | Some saved \<Rightarrow> if is_utf8 saved \<and> trim saved \<noteq> [] then Some (trim saved) else None)"

datatype sync_error =
    SyncKey string
  | SyncStore store_error
  | SyncSource replication_source_error
  | SyncSerialize string
  | SyncProof string
  | SyncRequest string
  | SyncDenied nat string
  | SyncReceipts string
  | SyncHalted event_id ingest_outcome "repl_cursor option"
  | SyncNoCursor
  | SyncFile string

text \<open>
  What a run is given: the key, the proof made for a request, the destination and the outcome of
  each write of the cursor file; requests and writes are counted.
\<close>

record 'd sync_env =
  se_key :: "string + unit"
  se_header :: "nat \<Rightarrow> string \<Rightarrow> string \<Rightarrow> string + string"
  se_post :: "nat \<Rightarrow> string \<Rightarrow> string \<Rightarrow> string \<Rightarrow> 'd \<Rightarrow> 'd \<times> http_reply"
  se_persist :: "nat \<Rightarrow> persist_fault"
  se_to_vec :: "replication_record \<Rightarrow> string + string"

record 'd sync_state =
  ss_dest :: 'd
  ss_file :: "string option"
  ss_cursor :: "repl_cursor option"
  ss_pushed :: nat
  ss_requests :: nat
  ss_writes :: nat

definition save_cursor ::
  "'d sync_env \<Rightarrow> repl_cursor \<Rightarrow> 'd sync_state \<Rightarrow> 'd sync_state \<times> (sync_error + unit)" where
  "save_cursor env cursor s =
     (case persist_cursor (se_persist env (ss_writes s)) cursor (ss_file s) of
        (file', r) \<Rightarrow> (s\<lparr>ss_file := file', ss_writes := Suc (ss_writes s)\<rparr>, map_err SyncFile r))"

text \<open>The receipts of one response: how far the cursor advances, and the receipt that halts it.\<close>

fun take_receipts ::
  "repl_cursor option \<Rightarrow> nat \<Rightarrow> replication_receipt list \<Rightarrow> repl_cursor option \<times> nat \<times> replication_receipt option" where
  "take_receipts advanced pushed [] = (advanced, pushed, None)"
| "take_receipts advanced pushed (r # rs) =
     (if \<not> checkpoint_safe r then (advanced, pushed, Some r)
      else take_receipts (Some (rc_cursor r)) (Suc pushed) rs)"

definition settle_receipts ::
  "'d sync_env \<Rightarrow> bool \<Rightarrow> replication_receipt list \<Rightarrow> 'd sync_state \<Rightarrow> 'd sync_state \<times> (sync_error + unit)" where
  "settle_receipts env final receipts s =
     (case take_receipts (ss_cursor s) (ss_pushed s) receipts of
        (advanced, pushed, Some bad) \<Rightarrow>
          try_step (case advanced of
              Some safe \<Rightarrow> save_cursor env safe (s\<lparr>ss_pushed := pushed\<rparr>)
            | None \<Rightarrow> (s\<lparr>ss_pushed := pushed\<rparr>, Inr ()))
            (\<lambda>s _. (s, Inl (SyncHalted (rc_event_id bad) (rc_outcome bad) advanced)))
      | (None, pushed, None) \<Rightarrow> (s\<lparr>ss_pushed := pushed\<rparr>, Inl SyncNoCursor)
      | (Some advanced, pushed, None) \<Rightarrow>
          if final then (s\<lparr>ss_pushed := pushed\<rparr>, Inr ())
          else try_step (save_cursor env advanced (s\<lparr>ss_pushed := pushed\<rparr>))
            (\<lambda>s _. (s\<lparr>ss_cursor := Some advanced\<rparr>, Inr ())))"

definition push_request ::
  "'d sync_env \<Rightarrow> string \<Rightarrow> bool \<Rightarrow> string \<Rightarrow> 'd sync_state \<Rightarrow> 'd sync_state \<times> (sync_error + unit)" where
  "push_request env endpoint final payload s =
     (case se_header env (ss_requests s) endpoint payload of
        Inl e \<Rightarrow> (s, Inl (SyncProof e))
      | Inr authorization \<Rightarrow>
          (case se_post env (ss_requests s) endpoint authorization payload (ss_dest s) of
             (d, reply) \<Rightarrow>
               let s = s\<lparr>ss_dest := d, ss_requests := Suc (ss_requests s)\<rparr> in
               (case reply of
                  NoResponse e \<Rightarrow> (s, Inl (SyncRequest e))
                | Response status decoded detail \<Rightarrow>
                    if \<not> is_success status then (s, Inl (SyncDenied status detail))
                    else (case decoded of
                            Inl e \<Rightarrow> (s, Inl (SyncReceipts e))
                          | Inr receipts \<Rightarrow> settle_receipts env final receipts s))))"

fun push_requests ::
  "'d sync_env \<Rightarrow> string \<Rightarrow> (replication_record list \<times> string) list \<Rightarrow> 'd sync_state
     \<Rightarrow> 'd sync_state \<times> (sync_error + unit)" where
  "push_requests env endpoint [] s = (s, Inr ())"
| "push_requests env endpoint ((records, payload) # batches) s =
     try_step (push_request env endpoint (batches = []) payload s) (\<lambda>s _. push_requests env endpoint batches s)"

definition endpoint :: "push_config \<Rightarrow> string" where
  "endpoint cfg = pc_destination cfg @ ''/replication''"

definition push_source :: "push_config \<Rightarrow> local_source" where
  "push_source cfg =
     (case pc_filter cfg of
        Some filters \<Rightarrow> source_with_filter (pc_source cfg) filters
      | None \<Rightarrow> source_new (pc_source cfg))"

text \<open>One round of the loop: whether the source is caught up.\<close>

definition finish_page ::
  "'d sync_env \<Rightarrow> replication_batch \<Rightarrow> 'd sync_state \<Rightarrow> 'd sync_state \<times> (sync_error + bool)" where
  "finish_page env b s =
     try_step (save_cursor env (rb_next_cursor b) s) (\<lambda>s _.
       (s\<lparr>ss_cursor := Some (rb_next_cursor b)\<rparr>, Inr (rb_caught_up b)))"

definition push_page ::
  "nostr_lib \<Rightarrow> nat \<Rightarrow> push_config \<Rightarrow> 'd sync_env \<Rightarrow> store_inner \<Rightarrow> 'd sync_state
     \<Rightarrow> 'd sync_state \<times> (sync_error + bool)" where
  "push_page L now cfg env st s =
     try_step (s, map_err SyncSource (read_batch L now (push_source cfg) st (ss_cursor s) (pc_batch_size cfg))) (\<lambda>s b.
       if rb_records b = [] then finish_page env b s
       else try_step (s, map_err SyncSerialize
           (split_serialized_batches (se_to_vec env) (rb_records b) (pc_batch_size cfg) (pc_batch_bytes cfg))) (\<lambda>s batches.
         try_step (push_requests env (endpoint cfg) batches s) (\<lambda>s _. finish_page env b s)))"

fun push_loop ::
  "nat \<Rightarrow> nostr_lib \<Rightarrow> nat \<Rightarrow> push_config \<Rightarrow> 'd sync_env \<Rightarrow> store_inner \<Rightarrow> 'd sync_state
     \<Rightarrow> ('d sync_state \<times> (sync_error + unit)) option" where
  "push_loop 0 L now cfg env st s = None"
| "push_loop (Suc fuel) L now cfg env st s =
     (case push_page L now cfg env st s of
        (s, Inl e) \<Rightarrow> Some (s, Inl e)
      | (s, Inr caught_up) \<Rightarrow> if caught_up then Some (s, Inr ()) else push_loop fuel L now cfg env st s)"

definition push_main ::
  "nat \<Rightarrow> nostr_lib \<Rightarrow> (nat \<Rightarrow> nat) \<Rightarrow> open_outcome \<Rightarrow> storage_mode \<Rightarrow> nat \<Rightarrow> push_config \<Rightarrow> 'd sync_env
     \<Rightarrow> string option \<Rightarrow> 'd \<Rightarrow> ('d sync_state \<times> (sync_error + unit)) option" where
  "push_main fuel L clock open_io mode now cfg env file' d =
     (let s = \<lparr>ss_dest = d, ss_file = file', ss_cursor = resume_cursor file', ss_pushed = 0,
               ss_requests = 0, ss_writes = 0\<rparr>
      in case se_key env of
           Inl e \<Rightarrow> Some (s, Inl (SyncKey e))
         | Inr _ \<Rightarrow>
             (case open_store L clock open_io mode of
                Inl e \<Rightarrow> Some (s, Inl (SyncStore e))
              | Inr st \<Rightarrow> push_loop fuel L now cfg env st s))"

section \<open>The split\<close>

lemma length_join: "ss \<noteq> [] \<Longrightarrow> length (join '','' ss) + 1 = sum_list (map (\<lambda>s. length s + 1) ss)"
  by (induction "'',''" ss rule: join.induct) auto

lemma length_json_array:
  "length (json_array ss) = (if ss = [] then 2 else 1 + sum_list (map (\<lambda>s. length s + 1) ss))"
  using length_join [of ss] by (auto simp: json_array_def)

lemma saturating_exact: "saturating_add a b \<le> bl \<Longrightarrow> bl < u64_max \<Longrightarrow> saturating_add a b = a + b"
  by (auto simp: saturating_add_def)

lemma batch_end_le: "batch_end rl bl n bytes ss \<le> n + length ss"
proof (induction ss arbitrary: n bytes)
  case (Cons s ss)
  show ?case using Cons.IH [of "Suc n"] by (auto simp: Let_def intro: order_trans)
qed simp

lemma batch_end_limit: "n \<le> rl \<Longrightarrow> batch_end rl bl n bytes ss \<le> rl"
  by (induction ss arbitrary: n bytes) (auto simp: Let_def)

text \<open>A request that holds more than one record keeps within the byte limit.\<close>

lemma batch_end_bytes:
  assumes "bl < u64_max" "0 < n" "bytes \<le> bl"
  shows "bytes + sum_list (map (\<lambda>s. length s + 1) (take (batch_end rl bl n bytes ss - n) ss)) \<le> bl"
  using assms(2,3)
proof (induction ss arbitrary: n bytes)
  case (Cons s ss)
  let ?c = "saturating_add (saturating_add bytes 1) (length s)"
  show ?case
  proof (cases "n < rl \<and> ?c \<le> bl")
    case True
    have c: "?c = bytes + 1 + length s"
    proof -
      have "saturating_add bytes 1 \<le> bl" using True by (auto simp: saturating_add_def)
      then show ?thesis using True assms(1) saturating_exact by metis
    qed
    let ?m = "batch_end rl bl (Suc n) ?c ss"
    have "Suc n \<le> ?m" by (rule batch_end_ge)
    then have "take (?m - n) (s # ss) = s # take (?m - Suc n) ss" by (simp add: take_Cons')
    moreover have "?c + sum_list (map (\<lambda>s. length s + 1) (take (?m - Suc n) ss)) \<le> bl"
      by (rule Cons.IH) (use True in auto)
    ultimately show ?thesis using True Cons.prems c by (simp add: Let_def)
  qed (use Cons.prems in \<open>auto simp: Let_def\<close>)
qed simp

text \<open>A batch of the split: some consecutive records with the body that lists them.\<close>

definition batch_ok :: "nat \<Rightarrow> nat \<Rightarrow> ('a \<Rightarrow> string + string) \<Rightarrow> 'a list \<times> string \<Rightarrow> bool" where
  "batch_ok rl bl to_vec b \<longleftrightarrow> (case b of (xs, payload) \<Rightarrow>
     xs \<noteq> [] \<and> length xs \<le> max 1 rl \<and> (length payload \<le> bl \<or> length xs = 1) \<and>
     (\<exists>ss. collect_results (map to_vec xs) = Inr ss \<and> payload = json_array ss))"

lemma first_batch_bytes:
  assumes "bl < u64_max" "n = batch_end rl bl 0 2 ss" "0 < rl" "ss \<noteq> []"
  shows "length (json_array (take n ss)) \<le> bl \<or> n = 1"
proof -
  obtain s ts where ss: "ss = s # ts" using assms(4) by (cases ss) auto
  let ?c = "saturating_add (saturating_add 2 0) (length s)"
  have n: "n = batch_end rl bl 1 ?c ts" using assms(2,3) ss by (simp add: Let_def)
  show ?thesis
  proof (cases "?c \<le> bl")
    case True
    have "saturating_add 2 0 \<le> bl" using True by (auto simp: saturating_add_def)
    then have c: "?c = 2 + length s" using True assms(1) saturating_exact by (metis add_0_right)
    have "?c + sum_list (map (\<lambda>s. length s + 1) (take (n - 1) ts)) \<le> bl"
      unfolding n by (rule batch_end_bytes [OF assms(1) _ True]) simp
    moreover have "take n ss = s # take (n - 1) ts"
      using n ss batch_end_ge [of 1 rl bl ?c ts] by (simp add: take_Cons')
    ultimately show ?thesis using c by (simp add: length_json_array)
  next
    case False
    have "n = 1"
    proof (cases ts)
      case Nil
      then show ?thesis using n by simp
    next
      case (Cons t us)
      have "bl < saturating_add (saturating_add ?c 1) (length t)"
        using False assms(1) by (auto simp: saturating_add_def)
      then show ?thesis using n Cons by (simp add: Let_def)
    qed
    then show ?thesis by simp
  qed
qed

lemma split_from_ok:
  assumes "bl < u64_max" "\<forall>(x, s) \<in> set rs. to_vec x = Inr s" "b \<in> set (split_from rl bl rs)"
  shows "batch_ok rl bl to_vec b"
  using assms
proof (induction rl bl rs rule: split_from.induct)
  case (1 rl bl rs)
  let ?n = "batch_end (max 1 rl) bl 0 2 (map snd rs)"
  have ne: "rs \<noteq> []" using "1.prems"(3) by (auto simp: split_from.simps)
  have pos: "0 < ?n" using ne by (intro batch_end_pos) auto
  have le: "?n \<le> length rs" using batch_end_le [of "max 1 rl" bl 0 2 "map snd rs"] by simp
  consider "b = (map fst (take ?n rs), json_array (map snd (take ?n rs)))" | "b \<in> set (split_from rl bl (drop ?n rs))"
    using "1.prems"(3) ne by (auto simp: split_from.simps [of rl bl rs] Let_def)
  then show ?case
  proof cases
    case 1
    have "map to_vec (map fst (take ?n rs)) = map Inr (map snd (take ?n rs))"
      using "1.prems"(2) by (auto dest!: in_set_takeD)
    then have s: "collect_results (map to_vec (map fst (take ?n rs))) = Inr (map snd (take ?n rs))"
      unfolding collect_results_eq_Inr .
    have "length (json_array (take ?n (map snd rs))) \<le> bl \<or> ?n = 1"
      by (rule first_batch_bytes [OF "1.prems"(1) refl]) (use ne in auto)
    moreover have "?n \<le> max 1 rl" by (rule batch_end_limit) simp
    ultimately show ?thesis using s 1 pos le ne by (auto simp: batch_ok_def take_map)
  next
    case 2
    then show ?thesis by (intro "1.IH") (use ne "1.prems"(1,2) in \<open>auto dest: in_set_dropD\<close>)
  qed
qed

lemma split_from_concat: "concat (map fst (split_from rl bl rs)) = map fst rs"
proof (induction rl bl rs rule: split_from.induct)
  case (1 rl bl rs)
  let ?n = "batch_end (max 1 rl) bl 0 2 (map snd rs)"
  show ?case
  proof (cases "rs = []")
    case False
    then have "concat (map fst (split_from rl bl rs)) = map fst (take ?n rs) @ map fst (drop ?n rs)"
      using "1.IH" [OF False refl] by (simp add: split_from.simps [of rl bl rs] Let_def)
    then show ?thesis by (simp flip: map_append)
  qed (simp add: split_from.simps)
qed

lemma split_batches_ok:
  assumes "split_serialized_batches to_vec records rl bl = Inr batches" "bl < u64_max"
  shows "concat (map fst batches) = records" "\<forall>b \<in> set batches. batch_ok rl bl to_vec b"
proof -
  obtain ss where ss: "collect_results (map to_vec records) = Inr ss"
    and b: "batches = split_from rl bl (zip records ss)"
    using assms(1) by (auto simp: split_serialized_batches_def and_then_eq_Inr)
  have m: "map to_vec records = map Inr ss" using ss unfolding collect_results_eq_Inr .
  then have l: "length records = length ss" by (rule map_eq_imp_length_eq)
  show "concat (map fst batches) = records" using b l by (simp add: split_from_concat)
  have "\<forall>(x, s) \<in> set (zip records ss). to_vec x = Inr s"
    using m l by (auto simp: in_set_zip list_eq_iff_nth_eq)
  then show "\<forall>b \<in> set batches. batch_ok rl bl to_vec b"
    unfolding b using split_from_ok [OF assms(2)] by blast
qed

section \<open>Cursor files\<close>

lemma parse_digits_ge: "parse_digits acc s = Some n \<Longrightarrow> acc \<le> n"
  by (induction s arbitrary: acc) (force split: if_splits)+

lemma parse_digits_take:
  assumes "parse_digits 0 s = Some p" "parse_digits 0 (take k s) = Some q"
  shows "q \<le> p"
  using assms parse_digits_append [of 0 "take k s" "drop k s"] parse_digits_ge [of q "drop k s" p] by simp

lemma parse_uint_take:
  assumes "parse_uint m s = Some p" "parse_uint m (take k s) = Some q"
  shows "q \<le> p"
proof -
  obtain c cs where s: "s = c # cs" using assms(1) by (cases s) (auto simp: parse_uint_def)
  obtain l where k: "k = Suc l" using assms(2) by (cases k) (auto simp: parse_uint_def)
  have "parse_digits 0 (if byte c = 43 then cs else s) = Some p"
    using assms(1) s by (auto simp: parse_uint_def Let_def split: if_splits option.splits)
  moreover have "parse_digits 0 (if byte c = 43 then take l cs else take k s) = Some q"
    using assms(2) s k by (auto simp: parse_uint_def Let_def split: if_splits option.splits)
  ultimately show ?thesis
    using parse_digits_take [of cs p l q] parse_digits_take [of s p k q] by (simp split: if_splits)
qed

definition plain :: "char \<Rightarrow> bool" where
  "plain c \<longleftrightarrow> 32 < byte c \<and> byte c < 128"

lemma chars_plain: "\<forall>c \<in> set s. plain c \<Longrightarrow> chars s = map (\<lambda>c. [c]) s"
  by (induction s) (auto simp: plain_def utf8_width_def)

lemma dropWhile_plain: "\<forall>c \<in> set s. plain c \<Longrightarrow> dropWhile is_whitespace (map (\<lambda>c. [c]) s) = map (\<lambda>c. [c]) s"
  by (cases s) (auto simp: plain_def is_whitespace_def)

lemma trim_plain: "\<forall>c \<in> set s. plain c \<Longrightarrow> trim s = s"
  using dropWhile_plain [of s] dropWhile_plain [of "rev s"]
  by (simp add: trim_def trim_start_def trim_end_def chars_plain rev_map)

lemma plain_prefix: "\<forall>c \<in> set LOCAL_REPLICATION_CURSOR_PREFIX. plain c"
  by code_simp

lemma parsed_cursor:
  assumes "parse_local_replication_cursor c = Inr p"
  shows "\<exists>t. c = LOCAL_REPLICATION_CURSOR_PREFIX @ t \<and> parse_uint u64_max t = Some p"
  using assms by (auto simp: parse_local_replication_cursor_def ok_or_eq_Inr bind_eq_Some_conv strip_prefix_eq_Some)

lemma parsed_cursor_plain:
  assumes "parse_local_replication_cursor c = Inr p"
  shows "\<forall>x \<in> set c. plain x"
proof -
  obtain t where c: "c = LOCAL_REPLICATION_CURSOR_PREFIX @ t" "parse_uint u64_max t = Some p"
    using parsed_cursor [OF assms] by blast
  have "\<forall>x \<in> set t. is_ascii_digit x \<or> byte x = 43"
    using c(2) parse_digits_digits
    by (auto simp: parse_uint_def Let_def split: list.splits if_splits option.splits)
  then have "\<forall>x \<in> set t. plain x" by (auto simp: plain_def is_ascii_digit_def)
  then show ?thesis using c(1) plain_prefix by auto
qed

text \<open>A file that holds a prefix of a cursor resumes nowhere behind it.\<close>

lemma torn_cursor:
  assumes "parse_local_replication_cursor c = Inr p" "resume_cursor (Some (take n c)) = Some d"
    "parse_local_replication_cursor d = Inr q"
  shows "q \<le> p"
proof -
  let ?P = LOCAL_REPLICATION_CURSOR_PREFIX
  have "trim (take n c) = take n c"
    by (rule trim_plain) (use parsed_cursor_plain [OF assms(1)] in \<open>auto dest: in_set_takeD\<close>)
  then have d: "d = take n c" using assms(2) by (auto simp: resume_cursor_def split: if_splits)
  obtain t where c: "c = ?P @ t" "parse_uint u64_max t = Some p" using parsed_cursor [OF assms(1)] by blast
  obtain t' where d': "d = ?P @ t'" "parse_uint u64_max t' = Some q" using parsed_cursor [OF assms(3)] by blast
  have "length ?P \<le> length d" using d'(1) by simp
  then have "length ?P \<le> n" using d by simp
  then have "d = ?P @ take (n - length ?P) t" using d c(1) by simp
  then have "t' = take (n - length ?P) t" using d'(1) by simp
  then show ?thesis using parse_uint_take [OF c(2)] d'(2) by blast
qed

definition cursor_position :: "repl_cursor option \<Rightarrow> replication_source_error + nat" where
  "cursor_position cursor = (case cursor of None \<Rightarrow> Inr 0 | Some c \<Rightarrow> parse_local_replication_cursor c)"

text \<open>
  What the destination must hold for a cursor to be right: every exported event of the journal
  before its position.
\<close>

definition covered :: "(event \<Rightarrow> bool) \<Rightarrow> nostr_lib \<Rightarrow> local_source \<Rightarrow> event list \<Rightarrow> nat \<Rightarrow> bool" where
  "covered holds L src journal p \<longleftrightarrow> (\<forall>e \<in> set (take p journal). exports L 0 src e \<longrightarrow> holds e)"

definition cursor_safe :: "(event \<Rightarrow> bool) \<Rightarrow> nostr_lib \<Rightarrow> local_source \<Rightarrow> event list \<Rightarrow> repl_cursor option \<Rightarrow> bool" where
  "cursor_safe holds L src journal cursor \<longleftrightarrow>
     (\<forall>p. cursor_position cursor = Inr p \<longrightarrow> covered holds L src journal p)"

lemma covered_le: "covered holds L src journal p \<Longrightarrow> q \<le> p \<Longrightarrow> covered holds L src journal q"
  using set_take_subset_set_take [of q p journal] unfolding covered_def by blast

lemma covered_weaken:
  "covered h L src journal p \<Longrightarrow> (\<And>e. h e \<Longrightarrow> h' e) \<Longrightarrow> covered h' L src journal p"
  unfolding covered_def by blast

lemma cursor_safe_weaken:
  "cursor_safe h L src journal c \<Longrightarrow> (\<And>e. h e \<Longrightarrow> h' e) \<Longrightarrow> cursor_safe h' L src journal c"
  unfolding cursor_safe_def using covered_weaken by blast

lemma cursor_safe_None [simp]: "cursor_safe h L src journal None"
  by (simp add: cursor_safe_def cursor_position_def covered_def)

lemma save_cursor_frame:
  "save_cursor env c s = (s', r) \<Longrightarrow> ss_dest s' = ss_dest s \<and> ss_cursor s' = ss_cursor s"
  by (auto simp: save_cursor_def split: prod.splits)

lemma save_cursor_safe:
  assumes "cursor_safe h L src journal (resume_cursor (ss_file s))"
    and "parse_local_replication_cursor c = Inr p" "covered h L src journal p"
    and "save_cursor env c s = (s', r)"
  shows "cursor_safe h L src journal (resume_cursor (ss_file s'))"
proof -
  have torn: "cursor_safe h L src journal (resume_cursor (Some (take n c)))" for n
  proof (cases "resume_cursor (Some (take n c))")
    case (Some d)
    then show ?thesis
      using torn_cursor [OF assms(2) Some] covered_le [OF assms(3)]
      by (simp add: cursor_safe_def cursor_position_def)
  qed simp
  show ?thesis
    using assms(1,4) torn torn [of "length c"]
    by (auto simp: save_cursor_def persist_cursor_def split: prod.splits persist_fault.splits)
qed

section \<open>Prefixes of a page\<close>

lemma page_records_prefix:
  assumes "page_records L now src p es = us @ r # vs"
  shows "\<exists>i < length es. rr_cursor r = local_replication_cursor (p + i + 1) \<and>
    filter (exports L now src) (take (Suc i) es) = map rr_event (us @ [r])"
  using assms
proof (induction es arbitrary: p us)
  case (Cons e es)
  show ?case
  proof (cases "exports L now src e \<and> us = []")
    case True
    then have "r = \<lparr>rr_source = ls_source src, rr_cursor = local_replication_cursor (p + 1), rr_event = e\<rparr>"
      using Cons.prems by simp
    then show ?thesis using True by (intro exI [of _ 0]) simp
  next
    case False
    obtain us' where us': "page_records L now src (p + 1) es = us' @ r # vs"
      "map rr_event us = (if exports L now src e then [e] else []) @ map rr_event us'"
      using Cons.prems False by (cases us) (auto split: if_splits)
    from Cons.IH [OF us'(1)] obtain i where "i < length es"
      "rr_cursor r = local_replication_cursor (p + 1 + i + 1)"
      "filter (exports L now src) (take (Suc i) es) = map rr_event (us' @ [r])" by blast
    then show ?thesis using us'(2) by (intro exI [of _ "Suc i"]) auto
  qed
qed simp

text \<open>When a prefix of the records of a page is held, the cursor of the last of them is right.\<close>

lemma prefix_cursor:
  assumes "covered h L src journal p" "length journal \<le> u64_max" "p \<le> length journal"
    and "page_records L now src p (take m (drop p journal)) = us @ r # vs"
    and "\<forall>x \<in> set (us @ [r]). h (rr_event x)"
  shows "\<exists>q. parse_local_replication_cursor (rr_cursor r) = Inr q \<and> covered h L src journal q"
proof -
  let ?es = "take m (drop p journal)"
  obtain i where i: "i < length ?es" "rr_cursor r = local_replication_cursor (p + i + 1)"
    "filter (exports L now src) (take (Suc i) ?es) = map rr_event (us @ [r])"
    using page_records_prefix [OF assms(4)] by blast
  have le: "p + i + 1 \<le> length journal" using i(1) assms(3) by auto
  have t: "take (p + i + 1) journal = take p journal @ take (Suc i) ?es"
    using i(1) take_add [of p "Suc i" journal] by (simp add: min_absorb1)
  have "\<forall>e \<in> set (filter (exports L now src) (take (Suc i) ?es)). h e"
    unfolding i(3) using assms(5) by auto
  then have "\<forall>e \<in> set (take (Suc i) ?es). exports L 0 src e \<longrightarrow> h e"
    using exports_clock [of L 0 src _ now] by simp
  then have "covered h L src journal (p + i + 1)" using assms(1) unfolding covered_def t by auto
  moreover have "parse_local_replication_cursor (rr_cursor r) = Inr (p + i + 1)"
    using i(2) le assms(2) by simp
  ultimately show ?thesis by blast
qed

lemma page_covered:
  assumes "covered h L src journal p" "p \<le> q"
    and "\<forall>r \<in> set (page_records L now src p (take (q - p) (drop p journal))). h (rr_event r)"
  shows "covered h L src journal q"
proof -
  have "take q journal = take p journal @ take (q - p) (drop p journal)"
    using assms(2) take_add [of p "q - p" journal] by simp
  moreover have "\<forall>e \<in> set (filter (exports L now src) (take (q - p) (drop p journal))). h e"
    using assms(3) page_records_events [of L now src p "take (q - p) (drop p journal)"]
    by (metis (no_types, lifting) imageE set_map)
  ultimately show ?thesis
    using assms(1) exports_clock [of L 0 src _ now] unfolding covered_def by auto
qed

section \<open>What a destination promises\<close>

text \<open>
  The receipts of a request, up to the first that is not checkpoint-safe, answer its records in
  order; when all are safe, every record is answered.
\<close>

definition receipts_sound :: "(event \<Rightarrow> bool) \<Rightarrow> replication_record list \<Rightarrow> replication_receipt list \<Rightarrow> bool" where
  "receipts_sound holds rs receipts \<longleftrightarrow>
     list_all2 (\<lambda>r receipt. rc_cursor receipt = rr_cursor r \<and> holds (rr_event r))
       (take (length (takeWhile checkpoint_safe receipts)) rs) (takeWhile checkpoint_safe receipts) \<and>
     ((\<forall>receipt \<in> set receipts. checkpoint_safe receipt) \<longrightarrow> length receipts = length rs)"

lemma take_receipts_takeWhile:
  assumes "take_receipts adv n receipts = (adv', n', bad)"
  shows "adv' = (case rev (takeWhile checkpoint_safe receipts) of [] \<Rightarrow> adv | r # _ \<Rightarrow> Some (rc_cursor r))"
    "bad = None \<Longrightarrow> \<forall>r \<in> set receipts. checkpoint_safe r"
    "bad \<noteq> None \<Longrightarrow> \<exists>r \<in> set receipts. \<not> checkpoint_safe r"
  using assms
proof (induction receipts arbitrary: adv n)
  case (Cons r rs)
  { case 1
    show ?case using Cons.IH(1) [of "Some (rc_cursor r)" "Suc n"] 1
      by (auto split: if_splits list.splits simp: append_eq_Cons_conv)
  next
    case 2
    show ?case using Cons.IH(2) [of "Some (rc_cursor r)" "Suc n"] 2 by (auto split: if_splits)
  next
    case 3
    show ?case using Cons.IH(3) [of "Some (rc_cursor r)" "Suc n"] 3 by (auto split: if_splits)
  }
qed auto

definition sync_ok ::
  "('d \<Rightarrow> event \<Rightarrow> bool) \<Rightarrow> nostr_lib \<Rightarrow> local_source \<Rightarrow> event list \<Rightarrow> 'd sync_state \<Rightarrow> bool" where
  "sync_ok holds L src journal s \<longleftrightarrow>
     (\<exists>p. cursor_position (ss_cursor s) = Inr p \<and> covered (holds (ss_dest s)) L src journal p) \<and>
     cursor_safe (holds (ss_dest s)) L src journal (resume_cursor (ss_file s))"

lemma sync_ok_pushed [simp]: "sync_ok holds L src journal (s\<lparr>ss_pushed := n\<rparr>) = sync_ok holds L src journal s"
  by (simp add: sync_ok_def)

lemma save_cursor_ok:
  assumes "sync_ok holds L src journal s" "save_cursor env c s = (s', r)"
    and "parse_local_replication_cursor c = Inr p" "covered (holds (ss_dest s)) L src journal p"
  shows "sync_ok holds L src journal s' \<and> ss_dest s' = ss_dest s \<and> ss_cursor s' = ss_cursor s \<and>
    sync_ok holds L src journal (s'\<lparr>ss_cursor := Some c\<rparr>)"
  using assms save_cursor_frame [OF assms(2)] save_cursor_safe [OF _ assms(3,4,2)]
  by (auto simp: sync_ok_def cursor_position_def)

lemma list_all2_left: "list_all2 (\<lambda>x y. P x y \<and> Q x) xs ys \<Longrightarrow> \<forall>x \<in> set xs. Q x"
  by (induction rule: list_all2_induct) auto

text \<open>
  After a response whose receipts are sound, the state is right again, whatever the response
  and the cursor file did; and when the round goes on, every record of the request is held.
\<close>

lemma settle_receipts_ok:
  assumes ok: "sync_ok holds L src journal s" and "length journal \<le> u64_max" "p \<le> length journal"
    and cov: "covered (holds (ss_dest s)) L src journal p"
    and page: "page_records L now src p (take m (drop p journal)) = don @ xs @ rest"
    and don: "\<forall>x \<in> set don. holds (ss_dest s) (rr_event x)"
    and sound: "receipts_sound (holds (ss_dest s)) xs receipts"
    and run: "settle_receipts env final receipts s = (s', r)"
  shows "sync_ok holds L src journal s' \<and> ss_dest s' = ss_dest s \<and>
    (r = Inr () \<longrightarrow> (\<forall>x \<in> set xs. holds (ss_dest s) (rr_event x)))"
proof -
  let ?h = "holds (ss_dest s)" and ?safe = "takeWhile checkpoint_safe receipts"
  obtain adv n bad where t: "take_receipts (ss_cursor s) (ss_pushed s) receipts = (adv, n, bad)"
    by (cases "take_receipts (ss_cursor s) (ss_pushed s) receipts") auto
  note tw = take_receipts_takeWhile [OF t]
  have all2: "list_all2 (\<lambda>r receipt. rc_cursor receipt = rr_cursor r \<and> ?h (rr_event r)) (take (length ?safe) xs) ?safe"
    using sound by (simp add: receipts_sound_def)
  have good: "\<exists>q. parse_local_replication_cursor c = Inr q \<and> covered ?h L src journal q" if "adv = Some c" for c
  proof (cases ?safe rule: rev_cases)
    case Nil
    then have "ss_cursor s = Some c" using tw(1) that by simp
    then show ?thesis using ok by (simp add: sync_ok_def cursor_position_def)
  next
    case (snoc ss r)
    then obtain us x where us: "take (length ?safe) xs = us @ [x]" "rc_cursor r = rr_cursor x"
      "\<forall>y \<in> set (us @ [x]). ?h (rr_event y)"
      using all2 list_all2_left [OF all2] by (auto simp: list_all2_append2 list_all2_Cons2)
    have "xs = us @ x # drop (length ?safe) xs" using us(1) append_take_drop_id [of "length ?safe" xs] by simp
    then have "page_records L now src p (take m (drop p journal)) = (don @ us) @ x # drop (length ?safe) xs @ rest"
      using page by (metis append.assoc append_Cons)
    from prefix_cursor [OF cov assms(2,3) this] don us(3)
    have "\<exists>q. parse_local_replication_cursor (rr_cursor x) = Inr q \<and> covered ?h L src journal q" by auto
    then show ?thesis using tw(1) that snoc us(2) by simp
  qed
  have save_ok: "sync_ok holds L src journal s1 \<and> ss_dest s1 = ss_dest s \<and>
      sync_ok holds L src journal (s1\<lparr>ss_cursor := Some c\<rparr>)"
    if "save_cursor env c (s\<lparr>ss_pushed := n\<rparr>) = (s1, r1)" "parse_local_replication_cursor c = Inr q"
      "covered ?h L src journal q" for s1 r1 c q
    using save_cursor_ok [OF _ that(1,2)] that(3) ok by simp
  show ?thesis
  proof (cases bad)
    case (Some b)
    show ?thesis
    proof (cases adv)
      case None
      then show ?thesis using run t Some ok by (auto simp: settle_receipts_def)
    next
      case (Some c)
      obtain q where q: "parse_local_replication_cursor c = Inr q" "covered ?h L src journal q"
        using good [OF Some] by blast
      obtain s1 r1 where save: "save_cursor env c (s\<lparr>ss_pushed := n\<rparr>) = (s1, r1)" by fastforce
      have "try_step (s1, r1) (\<lambda>s _. (s, Inl (SyncHalted (rc_event_id b) (rc_outcome b) adv))) = (s', r)"
        using run t \<open>bad = Some b\<close> Some save by (simp add: settle_receipts_def)
      then have "s' = s1 \<and> r \<noteq> Inr ()" by (cases r1) auto
      then show ?thesis using save_ok [OF save q] by auto
    qed
  next
    case None
    have len: "length receipts = length xs" using tw(2) [OF None] sound by (simp add: receipts_sound_def)
    have safe: "?safe = receipts" using tw(2) [OF None] by (simp add: takeWhile_eq_all_conv)
    have held: "\<forall>x \<in> set xs. ?h (rr_event x)"
      using list_all2_left [OF all2] len unfolding safe by simp
    show ?thesis
    proof (cases adv)
      case None
      then show ?thesis using run t \<open>bad = None\<close> ok by (auto simp: settle_receipts_def)
    next
      case (Some c)
      obtain q where q: "parse_local_replication_cursor c = Inr q" "covered ?h L src journal q"
        using good [OF Some] by blast
      show ?thesis
      proof (cases final)
        case True
        then show ?thesis using run t \<open>bad = None\<close> Some ok held by (auto simp: settle_receipts_def)
      next
        case False
        obtain s1 r1 where save: "save_cursor env c (s\<lparr>ss_pushed := n\<rparr>) = (s1, r1)" by fastforce
        have "try_step (s1, r1) (\<lambda>s _. (s\<lparr>ss_cursor := Some c\<rparr>, Inr ())) = (s', r)"
          using run t \<open>bad = None\<close> Some False save by (simp add: settle_receipts_def)
        then have "s' = s1 \<or> s' = s1\<lparr>ss_cursor := Some c\<rparr>" by (cases r1) auto
        then show ?thesis using save_ok [OF save q] held by auto
      qed
    qed
  qed
qed

lemma push_loop_bad_cursor:
  assumes "cursor_position (ss_cursor s) = Inl e" "0 < pc_batch_size cfg"
  shows "push_loop (Suc fuel) L now cfg env st s = Some (s, Inl (SyncSource e))"
  using assms by (simp add: push_page_def read_batch_def cursor_position_def and_then_def)

locale replication_destination =
  fixes post :: "nat \<Rightarrow> string \<Rightarrow> string \<Rightarrow> string \<Rightarrow> 'd \<Rightarrow> 'd \<times> http_reply"
    and decode :: "string \<Rightarrow> replication_record list option"
    and valid :: "'d \<Rightarrow> bool"
    and holds :: "'d \<Rightarrow> event \<Rightarrow> bool"
  assumes post_valid: "valid d \<Longrightarrow> valid (fst (post k url authorization payload d))"
    and post_keeps: "valid d \<Longrightarrow> holds d e \<Longrightarrow> holds (fst (post k url authorization payload d)) e"
    and post_receipts: "valid d \<Longrightarrow> post k url authorization payload d = (d', Response status (Inr receipts) detail)
      \<Longrightarrow> is_success status \<Longrightarrow> \<exists>rs. decode payload = Some rs \<and> receipts_sound (holds d') rs receipts"
begin

lemma push_request_ok:
  assumes "sync_ok holds L src journal s" "valid (ss_dest s)" "length journal \<le> u64_max" "p \<le> length journal"
    and "covered (holds (ss_dest s)) L src journal p"
    and "page_records L now src p (take m (drop p journal)) = don @ xs @ rest"
    and "\<forall>x \<in> set don. holds (ss_dest s) (rr_event x)"
    and "decode payload \<in> {None, Some xs}" "se_post env = post"
    and run: "push_request env url final payload s = (s', r)"
  shows "sync_ok holds L src journal s' \<and> valid (ss_dest s') \<and> (\<forall>e. holds (ss_dest s) e \<longrightarrow> holds (ss_dest s') e) \<and>
    (r = Inr () \<longrightarrow> (\<forall>x \<in> set xs. holds (ss_dest s') (rr_event x)))"
proof (cases "se_header env (ss_requests s) url payload")
  case (Inl e)
  then show ?thesis using run assms(1,2) by (auto simp: push_request_def)
next
  case (Inr authorization)
  obtain d reply where d: "post (ss_requests s) url authorization payload (ss_dest s) = (d, reply)" by fastforce
  define t where "t = s\<lparr>ss_dest := d, ss_requests := Suc (ss_requests s)\<rparr>"
  have keep: "holds d e" if "holds (ss_dest s) e" for e
    using post_keeps [OF assms(2) that, of "ss_requests s" url authorization payload] d by simp
  have v: "valid d" using post_valid [OF assms(2), of "ss_requests s" url authorization payload] d by simp
  have ok: "sync_ok holds L src journal t"
    using assms(1) covered_weaken [of "holds (ss_dest s)" L src journal _ "holds d"]
      cursor_safe_weaken [of "holds (ss_dest s)" L src journal _ "holds d"] keep
    by (auto simp: sync_ok_def t_def)
  have step: "(case reply of
      NoResponse e \<Rightarrow> (t, Inl (SyncRequest e))
    | Response status decoded detail \<Rightarrow>
        if \<not> is_success status then (t, Inl (SyncDenied status detail))
        else (case decoded of
                Inl e \<Rightarrow> (t, Inl (SyncReceipts e))
              | Inr receipts \<Rightarrow> settle_receipts env final receipts t)) = (s', r)"
    using run Inr d assms(9) unfolding t_def by (simp add: push_request_def Let_def)
  show ?thesis
  proof (cases "\<exists>status receipts detail. reply = Response status (Inr receipts) detail \<and> is_success status")
    case False
    then have "s' = t \<and> r \<noteq> Inr ()" using step by (auto split: http_reply.splits sum.splits if_splits)
    then show ?thesis using ok v keep by (auto simp: t_def)
  next
    case True
    then obtain status receipts detail where reply: "reply = Response status (Inr receipts) detail" "is_success status"
      by blast
    have sound: "receipts_sound (holds (ss_dest t)) xs receipts"
      using post_receipts [OF assms(2) d [unfolded reply(1)] reply(2)] assms(8) by (auto simp: t_def)
    have "settle_receipts env final receipts t = (s', r)" using step reply by simp
    from settle_receipts_ok [OF ok assms(3,4) _ assms(6) _ sound this]
    show ?thesis using covered_weaken [OF assms(5) keep] assms(7) keep v by (auto simp: t_def)
  qed
qed

lemma push_requests_ok:
  assumes "length journal \<le> u64_max" "p \<le> length journal" "se_post env = post"
    and "\<forall>b \<in> set batches. decode (snd b) \<in> {None, Some (fst b)}"
    and "sync_ok holds L src journal s" "valid (ss_dest s)"
    and "covered (holds (ss_dest s)) L src journal p"
    and "page_records L now src p (take m (drop p journal)) = don @ concat (map fst batches)"
    and "\<forall>x \<in> set don. holds (ss_dest s) (rr_event x)"
    and "push_requests env url batches s = (s', r)"
  shows "sync_ok holds L src journal s' \<and> valid (ss_dest s') \<and> (\<forall>e. holds (ss_dest s) e \<longrightarrow> holds (ss_dest s') e) \<and>
    (r = Inr () \<longrightarrow> (\<forall>x \<in> set (don @ concat (map fst batches)). holds (ss_dest s') (rr_event x)))"
  using assms(4-)
proof (induction batches arbitrary: s don)
  case (Cons b batches)
  obtain xs payload where b: "b = (xs, payload)" by fastforce
  obtain s1 r1 where one: "push_request env url (batches = []) payload s = (s1, r1)" by fastforce
  have page: "page_records L now src p (take m (drop p journal)) = don @ xs @ concat (map fst batches)"
    using Cons.prems(5) b by simp
  have dec: "decode payload \<in> {None, Some xs}" using Cons.prems(1) b by simp
  note first = push_request_ok [OF Cons.prems(2,3) assms(1,2) Cons.prems(4) page Cons.prems(6) dec assms(3) one]
  show ?case
  proof (cases r1)
    case (Inl e)
    then show ?thesis using Cons.prems(7) b one first by auto
  next
    case (Inr u)
    then have rest: "push_requests env url batches s1 = (s', r)" using Cons.prems(7) b one by simp
    have "page_records L now src p (take m (drop p journal)) = (don @ xs) @ concat (map fst batches)"
      using page by simp
    moreover have "covered (holds (ss_dest s1)) L src journal p"
      using first covered_weaken [OF Cons.prems(4), of "holds (ss_dest s1)"] by blast
    moreover have "\<forall>x \<in> set (don @ xs). holds (ss_dest s1) (rr_event x)"
      using first Inr Cons.prems(6) by auto
    moreover have "\<forall>b \<in> set batches. decode (snd b) \<in> {None, Some (fst b)}" using Cons.prems(1) by simp
    ultimately have "sync_ok holds L src journal s' \<and> valid (ss_dest s') \<and>
      (\<forall>e. holds (ss_dest s1) e \<longrightarrow> holds (ss_dest s') e) \<and>
      (r = Inr () \<longrightarrow> (\<forall>x \<in> set ((don @ xs) @ concat (map fst batches)). holds (ss_dest s') (rr_event x)))"
      using Cons.IH [of s1 "don @ xs"] first rest by blast
    then show ?thesis using first b by simp
  qed
qed auto

text \<open>One round of the loop, from a position of the journal.\<close>

lemma push_page_ok:
  assumes faithful: "\<And>rs ss. collect_results (map (se_to_vec env) rs) = Inr ss \<Longrightarrow> decode (json_array ss) \<in> {None, Some rs}"
    and "length (st_journal st) \<le> u64_max" "se_post env = post" "0 < pc_batch_size cfg" "pc_batch_bytes cfg < u64_max"
    and ok: "sync_ok holds L (push_source cfg) (st_journal st) s" and "valid (ss_dest s)"
    and pos: "cursor_position (ss_cursor s) = Inr p"
    and run: "push_page L now cfg env st s = (s', r)"
  shows "sync_ok holds L (push_source cfg) (st_journal st) s' \<and> valid (ss_dest s') \<and>
    (\<forall>e. holds (ss_dest s) e \<longrightarrow> holds (ss_dest s') e) \<and>
    (r = Inr True \<longrightarrow> covered (holds (ss_dest s')) L (push_source cfg) (st_journal st) (length (st_journal st))) \<and>
    (r = Inr False \<longrightarrow> (\<exists>q. p < q \<and> q < length (st_journal st) \<and> cursor_position (ss_cursor s') = Inr q))"
proof (cases "p \<le> length (st_journal st)")
  case False
  then have "read_batch L now (push_source cfg) st (ss_cursor s) (pc_batch_size cfg)
      = Inl (CursorOutOfRange p (length (st_journal st)))"
    using assms(4) pos by (simp add: read_batch_def cursor_position_def)
  then show ?thesis using run ok assms(7) by (auto simp: push_page_def)
next
  case le: True
  let ?j = "st_journal st" and ?src = "push_source cfg" and ?q = "page_end st p (pc_batch_size cfg)"
  let ?rs = "page_records L now ?src p (take (?q - p) (drop p ?j))"
  let ?b = "\<lparr>rb_records = ?rs, rb_next_cursor = local_replication_cursor ?q, rb_caught_up = (?q = length ?j)\<rparr>"
  have q: "p \<le> ?q" "?q \<le> length ?j" using page_end_bounds [OF le] by blast+
  have progress: "p < ?q" if "?q \<noteq> length ?j"
    using page_end_progress [OF assms(4), of p st] q that by simp
  have "min (saturating_add p (min (pc_batch_size cfg) MAX_REPLICATION_BATCH_SIZE)) (length ?j) = ?q"
    using assms(2) by (auto simp: saturating_add_def page_end_def)
  then have read: "read_batch L now ?src st (ss_cursor s) (pc_batch_size cfg) = Inr ?b"
    using assms(4) pos le by (simp add: read_batch_def cursor_position_def Let_def)
  have parse: "parse_local_replication_cursor (local_replication_cursor ?q) = Inr ?q" using q(2) assms(2) by simp
  have cov: "covered (holds (ss_dest s)) L ?src ?j p" using ok pos by (auto simp: sync_ok_def)
  have finish: "sync_ok holds L ?src ?j s' \<and> ss_dest s' = ss_dest t \<and>
      (r = Inr True \<longrightarrow> covered (holds (ss_dest s')) L ?src ?j (length ?j)) \<and>
      (r = Inr False \<longrightarrow> (\<exists>q. p < q \<and> q < length ?j \<and> cursor_position (ss_cursor s') = Inr q))"
    if t: "sync_ok holds L ?src ?j t" "covered (holds (ss_dest t)) L ?src ?j ?q" "finish_page env ?b t = (s', r)" for t
  proof -
    obtain s1 r1 where save: "save_cursor env (local_replication_cursor ?q) t = (s1, r1)" by fastforce
    have step: "try_step (s1, r1) (\<lambda>s _. (s\<lparr>ss_cursor := Some (local_replication_cursor ?q)\<rparr>, Inr (?q = length ?j))) = (s', r)"
      using t(3) save by (simp add: finish_page_def)
    note s1 = save_cursor_ok [OF t(1) save parse t(2)]
    show ?thesis
    proof (cases r1)
      case (Inl e)
      then show ?thesis using step s1 by auto
    next
      case (Inr u)
      then have "s' = s1\<lparr>ss_cursor := Some (local_replication_cursor ?q)\<rparr>" "r = Inr (?q = length ?j)"
        using step by auto
      then show ?thesis using s1 t(2) progress q(2) parse by (auto simp: cursor_position_def)
    qed
  qed
  show ?thesis
  proof (cases "?rs = []")
    case True
    then have "covered (holds (ss_dest s)) L ?src ?j ?q" using page_covered [OF cov q(1), of now] by simp
    moreover have "finish_page env ?b s = (s', r)" using run read True by (simp add: push_page_def)
    ultimately show ?thesis using finish [OF ok] assms(7) by auto
  next
    case False
    show ?thesis
    proof (cases "split_serialized_batches (se_to_vec env) ?rs (pc_batch_size cfg) (pc_batch_bytes cfg)")
      case (Inl e)
      then have "s' = s \<and> r = Inl (SyncSerialize e)" using run read False by (simp add: push_page_def)
      then show ?thesis using ok assms(7) by auto
    next
      case (Inr batches)
      note batched = split_batches_ok [OF Inr assms(5)]
      have "decode payload \<in> {None, Some xs}" if b: "(xs, payload) \<in> set batches" for xs payload
      proof -
        obtain ss where "collect_results (map (se_to_vec env) xs) = Inr ss" "payload = json_array ss"
          using bspec [OF batched(2) b] by (auto simp: batch_ok_def)
        then show ?thesis using faithful [of xs ss] by simp
      qed
      then have split: "concat (map fst batches) = ?rs" "\<forall>b \<in> set batches. decode (snd b) \<in> {None, Some (fst b)}"
        using batched by (blast, metis prod.collapse)
      obtain t r1 where req: "push_requests env (endpoint cfg) batches s = (t, r1)" by fastforce
      have page: "page_records L now ?src p (take (?q - p) (drop p ?j)) = [] @ concat (map fst batches)"
        using split(1) by simp
      from push_requests_ok [OF assms(2) le assms(3) split(2) ok assms(7) cov page _ req]
      have t: "sync_ok holds L ?src ?j t" "valid (ss_dest t)" "\<forall>e. holds (ss_dest s) e \<longrightarrow> holds (ss_dest t) e"
        "r1 = Inr () \<longrightarrow> (\<forall>x \<in> set ?rs. holds (ss_dest t) (rr_event x))"
        using split(1) by auto
      have step: "try_step (t, r1) (\<lambda>s _. finish_page env ?b s) = (s', r)"
        using run read False Inr req by (simp add: push_page_def)
      show ?thesis
      proof (cases r1)
        case (Inl e)
        then show ?thesis using step t by auto
      next
        case (Inr u)
        have "covered (holds (ss_dest t)) L ?src ?j p" using covered_weaken [OF cov] t(3) by blast
        then have "covered (holds (ss_dest t)) L ?src ?j ?q" using page_covered [OF _ q(1), of _ L ?src ?j now] t(4) Inr by auto
        moreover have "finish_page env ?b t = (s', r)" using step Inr by simp
        ultimately show ?thesis using finish [OF t(1)] t by auto
      qed
    qed
  qed
qed

text \<open>
  A run from a cursor file that is right: it returns, the file is right again, and when it
  reports success the destination holds every exported event.
\<close>

lemma push_loop_ok:
  assumes "\<And>rs ss. collect_results (map (se_to_vec env) rs) = Inr ss \<Longrightarrow> decode (json_array ss) \<in> {None, Some rs}"
    and "length (st_journal st) \<le> u64_max" "se_post env = post" "0 < pc_batch_size cfg" "pc_batch_bytes cfg < u64_max"
    and "sync_ok holds L (push_source cfg) (st_journal st) s" "valid (ss_dest s)"
    and "cursor_position (ss_cursor s) = Inr p" "length (st_journal st) - p < fuel"
  shows "\<exists>s' r. push_loop fuel L now cfg env st s = Some (s', r) \<and>
    sync_ok holds L (push_source cfg) (st_journal st) s' \<and> valid (ss_dest s') \<and>
    (\<forall>e. holds (ss_dest s) e \<longrightarrow> holds (ss_dest s') e) \<and>
    (r = Inr () \<longrightarrow> covered (holds (ss_dest s')) L (push_source cfg) (st_journal st) (length (st_journal st)))"
  using assms(6-)
proof (induction fuel arbitrary: s p)
  case (Suc fuel)
  obtain t r where page: "push_page L now cfg env st s = (t, r)" by fastforce
  note ok = push_page_ok [OF assms(1-5) Suc.prems(1-3) page]
  consider e where "r = Inl e" | "r = Inr True" | "r = Inr False" by (cases r) auto
  then show ?case
  proof cases
    case 3
    then obtain q where q: "p < q" "q < length (st_journal st)" "cursor_position (ss_cursor t) = Inr q"
      using ok by blast
    then have "length (st_journal st) - q < fuel" using Suc.prems(4) by simp
    with ok q(3) obtain s' r' where "push_loop fuel L now cfg env st t = Some (s', r')"
      "sync_ok holds L (push_source cfg) (st_journal st) s'" "valid (ss_dest s')"
      "\<forall>e. holds (ss_dest t) e \<longrightarrow> holds (ss_dest s') e"
      "r' = Inr () \<longrightarrow> covered (holds (ss_dest s')) L (push_source cfg) (st_journal st) (length (st_journal st))"
      using Suc.IH [of t q] by blast
    then show ?thesis using page 3 ok by auto
  qed (use page ok in auto)
qed simp

text \<open>The whole program, from its cursor file.\<close>

lemma push_main_ok:
  assumes faithful: "\<And>rs ss. collect_results (map (se_to_vec env) rs) = Inr ss \<Longrightarrow> decode (json_array ss) \<in> {None, Some rs}"
    and "valid d" "se_post env = post" "0 < pc_batch_size cfg" "pc_batch_bytes cfg < u64_max"
    and "open_store L clock open_io mode = Inr st" "length (st_journal st) \<le> u64_max" "length (st_journal st) < fuel"
    and "cursor_safe (holds d) L (push_source cfg) (st_journal st) (resume_cursor file')"
  shows "\<exists>s r. push_main fuel L clock open_io mode now cfg env file' d = Some (s, r) \<and>
    cursor_safe (holds (ss_dest s)) L (push_source cfg) (st_journal st) (resume_cursor (ss_file s)) \<and>
    (\<forall>e. holds d e \<longrightarrow> holds (ss_dest s) e) \<and>
    (r = Inr () \<longrightarrow> (\<forall>e \<in> set (st_journal st). exports L now (push_source cfg) e \<longrightarrow> holds (ss_dest s) e))"
proof -
  let ?s = "\<lparr>ss_dest = d, ss_file = file', ss_cursor = resume_cursor file', ss_pushed = 0,
    ss_requests = 0, ss_writes = 0\<rparr>"
  show ?thesis
  proof (cases "se_key env")
    case (Inl e)
    then show ?thesis using assms(9) by (simp add: push_main_def)
  next
    case key: (Inr u)
    have main: "push_main fuel L clock open_io mode now cfg env file' d = push_loop fuel L now cfg env st ?s"
      using key assms(6) by (simp add: push_main_def)
    show ?thesis
    proof (cases "cursor_position (resume_cursor file')")
      case (Inl e)
      obtain n where "fuel = Suc n" using assms(8) by (cases fuel) auto
      then show ?thesis using main push_loop_bad_cursor [of ?s e cfg n L now env st] Inl assms(4,9) by simp
    next
      case (Inr p)
      have ok: "sync_ok holds L (push_source cfg) (st_journal st) ?s"
        using assms(9) Inr by (simp add: sync_ok_def cursor_safe_def)
      have "length (st_journal st) - p < fuel" using assms(8) by simp
      with push_loop_ok [OF faithful assms(7,3-5) ok, of p fuel now] Inr assms(2)
      obtain s r where run: "push_loop fuel L now cfg env st ?s = Some (s, r)"
        "sync_ok holds L (push_source cfg) (st_journal st) s"
        "\<forall>e. holds d e \<longrightarrow> holds (ss_dest s) e"
        "r = Inr () \<longrightarrow> covered (holds (ss_dest s)) L (push_source cfg) (st_journal st) (length (st_journal st))"
        by auto
      then show ?thesis
        using main exports_clock [of L now "push_source cfg" _ 0] by (auto simp: sync_ok_def covered_def)
    qed
  qed
qed

end

section \<open>The relay as a destination\<close>

text \<open>
  A request to a relay: it may be lost on the way there or the response on the way back.
\<close>

datatype link = Delivered | RequestLost string | ResponseLost string

definition push_headers :: "string \<Rightarrow> string \<Rightarrow> headers" where
  "push_headers host authorization name =
     (if name = ''host'' then Some host else if name = ''authorization'' then Some authorization else None)"

definition receipts_response :: "api_error + replication_receipt list \<Rightarrow> http_reply" where
  "receipts_response r =
     (case r of
        Inl err \<Rightarrow> Response (error_status err) (Inl ''invalid receipts'') (api_error_text err)
      | Inr receipts \<Rightarrow> Response 200 (Inr receipts) '''')"

definition relay_post ::
  "nostr_lib \<Rightarrow> wire_lib \<Rightarrow> string \<Rightarrow> (nat \<Rightarrow> http_env) \<Rightarrow> (nat \<Rightarrow> link) \<Rightarrow> nat \<Rightarrow> string \<Rightarrow> string \<Rightarrow> string
     \<Rightarrow> local_relay \<Rightarrow> local_relay \<times> http_reply" where
  "relay_post L W host envs links k url authorization payload relay =
     (case links k of
        RequestLost e \<Rightarrow> (relay, NoResponse e)
      | ResponseLost e \<Rightarrow>
          (fst (replication_ingest L W (envs k) relay (push_headers host authorization) payload), NoResponse e)
      | Delivered \<Rightarrow>
          map_prod id receipts_response (replication_ingest L W (envs k) relay (push_headers host authorization) payload))"

definition relay_decode :: "wire_lib \<Rightarrow> string \<Rightarrow> replication_record list option" where
  "relay_decode W payload = ok (w_records W payload)"

definition relay_holds :: "nostr_lib \<Rightarrow> local_relay \<Rightarrow> event \<Rightarrow> bool" where
  "relay_holds L relay e \<longleftrightarrow> verify_event L e = Inr () \<and> ev_id e \<in> st_seen_ids (lr_store relay)"

lemma grows_try_step:
  assumes "store_grows st (lr_store (fst m))"
    "\<And>relay a. m = (relay, Inr a) \<Longrightarrow> store_grows st (lr_store relay) \<Longrightarrow> store_grows st (lr_store (fst (f relay a)))"
  shows "store_grows st (lr_store (fst (try_step m f)))"
  using assms by (cases m; cases "snd m") auto

lemma authenticate_http_store: "lr_store (fst (authenticate_http L env relay headers path payload)) = lr_store relay"
  unfolding authenticate_http_def by (subst authenticate_http_relay) simp

lemma replication_ingest_grows:
  "store_grows (lr_store relay) (lr_store (fst (replication_ingest L W env relay headers payload)))"
  unfolding replication_ingest_def
  by (auto intro!: grows_try_step simp: authenticate_http_store simp del: replicate_records.simps
      split: list.split intro: store_grows_trans [OF _ replicate_records_grows])

lemma replication_ingest_run:
  assumes "relay_reachable L relay" "replication_ingest L W env relay headers payload = (relay', Inr receipts)"
  shows "\<exists>rs. w_records W payload = Inr rs \<and> (rs = [] \<and> receipts = [] \<or>
    (\<exists>relay1 source. relay_reachable L relay1 \<and>
       replicate_records L (he_call env) source 0 relay1 [] rs = (relay', Inr receipts)))"
proof -
  obtain relay1 auth where a: "authenticate_http L env relay headers ''/replication'' payload = (relay1, auth)" by fastforce
  have "relay_reachable L relay1"
    using authenticate_http_reachable [OF assms(1), of L env headers "''POST''" "''/replication''" payload] a
    by (simp add: authenticate_http_def)
  then show ?thesis
    using assms(2) a unfolding replication_ingest_def
    by (auto simp del: replicate_records.simps simp: result_simps elim!: try_step_cases
        split: if_splits list.splits option.splits) blast
qed

lemma taken_receipts_sound:
  assumes "replicate_records L call source 0 relay [] rs = (relay', Inr receipts)" "relay_reachable L relay"
  shows "receipts_sound (relay_holds L relay') rs receipts"
proof -
  obtain "did" rest where d: "rs = did @ rest"
    "rest = [] \<and> list_all2 (taken L source relay') did receipts
     \<or> (\<exists>r rs' receipt init. rest = r # rs' \<and> receipts = init @ [receipt] \<and> answers receipt r
          \<and> \<not> checkpoint_safe receipt \<and> list_all2 (taken L source relay') did init)"
    using replicate_records_receipts [OF assms(2,1)] by auto
  have safe: "takeWhile checkpoint_safe xs = xs \<and>
      list_all2 (\<lambda>r receipt. rc_cursor receipt = rr_cursor r \<and> relay_holds L relay' (rr_event r)) did xs"
    if "list_all2 (taken L source relay') did xs" for xs
    using that by (induction rule: list_all2_induct) (auto simp: taken_def answers_def relay_holds_def)
  from d(2) show ?thesis
  proof
    assume "rest = [] \<and> list_all2 (taken L source relay') did receipts"
    then have a: "rs = did" "list_all2 (taken L source relay') did receipts" using d(1) by auto
    have tw: "takeWhile checkpoint_safe receipts = receipts" using safe [OF a(2)] by blast
    show ?thesis
      unfolding receipts_sound_def tw using safe [OF a(2)] a(1) list_all2_lengthD [OF a(2)] by simp
  next
    assume "\<exists>r rs' receipt init. rest = r # rs' \<and> receipts = init @ [receipt] \<and> answers receipt r
          \<and> \<not> checkpoint_safe receipt \<and> list_all2 (taken L source relay') did init"
    then obtain receipt init where i: "receipts = init @ [receipt]" "\<not> checkpoint_safe receipt"
      "list_all2 (taken L source relay') did init" by blast
    have "takeWhile checkpoint_safe receipts = init"
      using safe [OF i(3)] i(1,2) by (simp add: takeWhile_append)
    then show ?thesis using safe [OF i(3)] i d(1) list_all2_lengthD [OF i(3)] by (auto simp: receipts_sound_def)
  qed
qed

interpretation relay_sink: replication_destination "relay_post L W host envs links" "relay_decode W"
  "relay_reachable L" "relay_holds L" for L W host envs links
proof unfold_locales
  fix relay k url authorization payload
  assume r: "relay_reachable L relay"
  show "relay_reachable L (fst (relay_post L W host envs links k url authorization payload relay))"
    using r replication_ingest_reachable [OF r] by (simp add: relay_post_def split: link.split)
next
  fix relay k url authorization payload e
  assume "relay_holds L relay e"
  then show "relay_holds L (fst (relay_post L W host envs links k url authorization payload relay)) e"
    using replication_ingest_grows [of relay L W "envs k" "push_headers host authorization" payload]
    by (auto simp: relay_post_def relay_holds_def store_grows_def split: link.split)
next
  fix relay relay' k url authorization payload status receipts detail
  assume r: "relay_reachable L relay"
    and p: "relay_post L W host envs links k url authorization payload relay = (relay', Response status (Inr receipts) detail)"
  have run: "replication_ingest L W (envs k) relay (push_headers host authorization) payload = (relay', Inr receipts)"
    using p by (auto simp: relay_post_def receipts_response_def map_prod_def split: link.splits sum.splits prod.splits)
  show "\<exists>rs. relay_decode W payload = Some rs \<and> receipts_sound (relay_holds L relay') rs receipts"
    using replication_ingest_run [OF r run] taken_receipts_sound
    by (auto simp: relay_decode_def result_simps receipts_sound_def)
qed

section \<open>Properties\<close>

text \<open>What the destination reads from a body, if it reads it, is what was serialised.\<close>

definition wire_faithful :: "(replication_record \<Rightarrow> string + string) \<Rightarrow> wire_lib \<Rightarrow> bool" where
  "wire_faithful to_vec W \<longleftrightarrow>
     (\<forall>rs ss rs'. collect_results (map to_vec rs) = Inr ss \<longrightarrow> w_records W (json_array ss) = Inr rs' \<longrightarrow> rs' = rs)"

text \<open>
  C11: Pushing a journal to a relay. From a cursor file that is right, in the sense that the
  destination holds every exported event before its position, the run returns, whatever requests
  or responses are lost and whichever writes of the cursor file fail or are torn; the cursor file
  it leaves is right, so that a later run resumes without loss; nothing the destination held is
  forgotten; and when the run reports success the destination holds every event of the journal
  that the stream selects.
\<close>

theorem push_delivers_journal:
  assumes "relay_reachable L relay" "wire_faithful (se_to_vec env) W"
    and "se_post env = relay_post L W host envs links"
    and "0 < pc_batch_size cfg" "pc_batch_bytes cfg < u64_max"
    and "open_store L clock open_io mode = Inr st" "length (st_journal st) \<le> u64_max" "length (st_journal st) < fuel"
    and "cursor_safe (relay_holds L relay) L (push_source cfg) (st_journal st) (resume_cursor file')"
  shows "\<exists>s r. push_main fuel L clock open_io mode now cfg env file' relay = Some (s, r) \<and>
    cursor_safe (relay_holds L (ss_dest s)) L (push_source cfg) (st_journal st) (resume_cursor (ss_file s)) \<and>
    (\<forall>e. relay_holds L relay e \<longrightarrow> relay_holds L (ss_dest s) e) \<and>
    (r = Inr () \<longrightarrow> (\<forall>e \<in> set (st_journal st). exports L now (push_source cfg) e \<longrightarrow> relay_holds L (ss_dest s) e))"
proof (rule relay_sink.push_main_ok [OF _ assms(1,3-9)])
  show "relay_decode W (json_array ss) \<in> {None, Some rs}" if "collect_results (map (se_to_vec env) rs) = Inr ss" for rs ss
    using assms(2) that by (cases "w_records W (json_array ss)") (auto simp: wire_faithful_def relay_decode_def)
qed

definition sync_record :: replication_record where
  "sync_record = \<lparr>rr_source = ''node-a'', rr_cursor = ''local-ndjson-v1:1'', rr_event = note_a\<rparr>"

definition sync_wire :: wire_lib where
  "sync_wire = \<lparr>w_values = (\<lambda>_. Inr []), w_records = (\<lambda>s. Inr (replicate ((length s - 1) div 2) sync_record))\<rparr>"

definition sync_to_vec :: "replication_record \<Rightarrow> string + string" where
  "sync_to_vec r = (if r = sync_record then Inr ''r'' else Inl ''unknown record'')"

definition sync_proof :: event where
  "sync_proof = sample_event ''e5'' ''peer'' 100 27235
     [Tag ''u'' [''http://relay/replication''], Tag ''method'' [''POST''], Tag ''payload'' [''[r]'']] ''''"

definition sync_lib :: nostr_lib where
  "sync_lib = sample_lib\<lparr>l_event_from_str := (\<lambda>s. if s = ''{e5}'' then Inr sync_proof
     else if s = ''{a1}'' then Inr note_a else Inl ''syntax'')\<rparr>"

definition direct_env :: "local_relay sync_env" where
  "direct_env = \<lparr>se_key = Inr (), se_header = (\<lambda>_ _ _. Inr ''Nostr {e5}''),
     se_post = relay_post sync_lib sync_wire ''relay'' (\<lambda>_. quiet_env) (\<lambda>_. Delivered),
     se_persist = (\<lambda>_. Persisted), se_to_vec = sync_to_vec\<rparr>"

definition sync_config :: push_config where
  "sync_config = \<lparr>pc_data = ''/journal'', pc_destination = ''http://relay'', pc_source = ''node-a'',
     pc_key_file = ''/key'', pc_cursor_file = ''/journal.push-cursor'', pc_batch_size = 100,
     pc_batch_bytes = 196608, pc_filter = None\<rparr>"

lemma sync_wire_faithful: "wire_faithful sync_to_vec sync_wire"
proof -
  have v: "map sync_to_vec rs = map Inr ss \<Longrightarrow> rs = replicate (length ss) sync_record \<and> ss = replicate (length ss) ''r''"
    for rs ss
    by (induction rs arbitrary: ss) (auto simp: sync_to_vec_def Cons_eq_map_conv split: if_splits)
  have n: "(length (json_array (replicate n ''r'')) - 1) div 2 = n" for n
    by (cases n) (simp_all add: length_json_array sum_list_replicate)
  have "w_records sync_wire (json_array ss) = Inr rs" if "collect_results (map sync_to_vec rs) = Inr ss" for rs ss
    using v [of rs ss] n [of "length ss"] that by (simp add: collect_results_eq_Inr sync_wire_def)
  then show ?thesis by (simp add: wire_faithful_def)
qed

definition sync_store :: store_inner where
  "sync_store = \<lparr>st_events = [stored_event_of sync_lib 0 note_a], st_journal = [note_a], st_seen_ids = {ev_id note_a},
     st_writer = Some (''{a1}'' @ [CHR 10])\<rparr>"

theorem push_delivers_journal_witness:
  "\<exists>s. push_main 2 sync_lib (\<lambda>_. 0) OpenOk (Durable (Contents (''{a1}'' @ [CHR 10]))) 0 sync_config direct_env None peered_relay
     = Some (s, Inr ()) \<and> relay_holds sync_lib (ss_dest s) note_a"
proof -
  let ?run = "push_main 2 sync_lib (\<lambda>_. 0) OpenOk (Durable (Contents (''{a1}'' @ [CHR 10]))) 0 sync_config direct_env None peered_relay"
  have reach: "relay_reachable sync_lib peered_relay"
    unfolding peered_relay_def by (rule relay_reachable.opened [OF empty_store_reachable])
  have faithful: "wire_faithful (se_to_vec direct_env) sync_wire" using sync_wire_faithful by (simp add: direct_env_def)
  have p: "se_post direct_env = relay_post sync_lib sync_wire ''relay'' (\<lambda>_. quiet_env) (\<lambda>_. Delivered)"
    by (simp add: direct_env_def)
  have n: "0 < pc_batch_size sync_config" "pc_batch_bytes sync_config < u64_max" by code_simp+
  have o: "open_store sync_lib (\<lambda>_. 0) OpenOk (Durable (Contents (''{a1}'' @ [CHR 10]))) = Inr sync_store" by code_simp
  have j: "st_journal sync_store = [note_a]" by (simp add: sync_store_def)
  have c: "cursor_safe (relay_holds sync_lib peered_relay) sync_lib (push_source sync_config) (st_journal sync_store)
    (resume_cursor None)" by (simp add: resume_cursor_def)
  have r: "map_option snd ?run = Some (Inr ())" by code_simp
  have "length (st_journal sync_store) \<le> u64_max" "length (st_journal sync_store) < 2" by (simp_all add: j u64_max_def)
  from push_delivers_journal [OF reach faithful p n o this c, of 0] obtain s res where
    s: "?run = Some (s, res)" "res = Inr () \<longrightarrow> (\<forall>e \<in> set (st_journal sync_store).
      exports sync_lib 0 (push_source sync_config) e \<longrightarrow> relay_holds sync_lib (ss_dest s) e)" by blast
  have "exports sync_lib 0 (push_source sync_config) note_a" by code_simp
  with s r j show ?thesis by auto
qed

text \<open>
  C39: Requests of bounded size. \<open>split_serialized_batches\<close> cuts the records of a page into
  consecutive requests: no record is lost, repeated or moved, every request holds at least one
  record and at most the record limit, its body is the JSON array of its records, and it exceeds
  the byte limit only when a single record does.
\<close>

theorem split_batches_bounded:
  assumes "split_serialized_batches to_vec records record_limit byte_limit = Inr batches" "byte_limit < u64_max"
  shows "concat (map fst batches) = records \<and>
    (\<forall>(xs, payload) \<in> set batches. xs \<noteq> [] \<and> length xs \<le> max 1 record_limit \<and>
       (length payload \<le> byte_limit \<or> length xs = 1) \<and>
       (\<exists>ss. map to_vec xs = map Inr ss \<and> payload = json_array ss))"
  using split_batches_ok [OF assms] by (auto simp: batch_ok_def collect_results_eq_Inr)

theorem split_batches_bounded_witness:
  "\<exists>batches. split_serialized_batches Inr [''aa'', ''bb'', ''oversized''] 10 7 = Inr batches \<and>
     concat (map fst batches) = [''aa'', ''bb'', ''oversized''] \<and> length batches = 2"
proof -
  have s: "split_serialized_batches Inr [''aa'', ''bb'', ''oversized''] 10 7
    = Inr [([''aa'', ''bb''], ''[aa,bb]''), ([''oversized''], ''[oversized]'')]" by code_simp
  have "(7 :: nat) < u64_max" by (simp add: u64_max_def)
  from split_batches_bounded [OF s this] s show ?thesis by auto
qed

lemma push_requests_unanswered:
  assumes "\<forall>k url payload. \<exists>a. se_header env k url payload = Inr a" "\<forall>n. se_persist env n = Persisted"
    and "\<forall>k url a payload d. se_post env k url a payload d = (d, Response 200 (Inr []) '''')"
    and "ss_cursor s = Some c"
  shows "\<exists>s'. push_requests env url batches s = (s', Inr ()) \<and> ss_dest s' = ss_dest s \<and> ss_cursor s' = Some c"
  using assms(4)
proof (induction batches arbitrary: s)
  case (Cons b batches)
  obtain a where a: "se_header env (ss_requests s) url (snd b) = Inr a" using assms(1) by blast
  have "\<exists>t. push_request env url (batches = []) (snd b) s = (t, Inr ()) \<and> ss_dest t = ss_dest s \<and> ss_cursor t = Some c"
    using a assms(2,3) Cons.prems
    by (auto simp: push_request_def settle_receipts_def is_success_def save_cursor_def persist_cursor_def Let_def)
  then obtain t where t: "push_request env url (batches = []) (snd b) s = (t, Inr ())" "ss_dest t = ss_dest s" "ss_cursor t = Some c"
    by blast
  from Cons.IH [OF t(3)] t show ?case by (cases b) auto
qed simp

text \<open>
  C40: The pusher does not count receipts. Once a cursor exists, a destination that acknowledges
  each request with an empty list of receipts, and takes nothing, lets a whole page of records
  pass as delivered: the round succeeds and the cursor file moves behind the page.
\<close>

theorem unanswered_page_is_skipped:
  assumes "\<forall>k url payload. \<exists>a. se_header env k url payload = Inr a" "\<forall>n. se_persist env n = Persisted"
    and "\<forall>k url a payload d. se_post env k url a payload d = (d, Response 200 (Inr []) '''')"
    and "ss_cursor s = Some c"
    and "read_batch L now (push_source cfg) st (Some c) (pc_batch_size cfg) = Inr b" "rb_records b \<noteq> []"
    and "split_serialized_batches (se_to_vec env) (rb_records b) (pc_batch_size cfg) (pc_batch_bytes cfg) = Inr batches"
  shows "\<exists>s'. push_page L now cfg env st s = (s', Inr (rb_caught_up b)) \<and> ss_dest s' = ss_dest s \<and>
    ss_file s' = Some (rb_next_cursor b)"
proof -
  obtain t where t: "push_requests env (endpoint cfg) batches s = (t, Inr ())" "ss_dest t = ss_dest s"
    using push_requests_unanswered [OF assms(1-4)] by blast
  have "push_page L now cfg env st s = finish_page env b t" using assms(4-7) t by (simp add: push_page_def)
  also have "\<exists>s'. \<dots> = (s', Inr (rb_caught_up b)) \<and> ss_dest s' = ss_dest t \<and> ss_file s' = Some (rb_next_cursor b)"
    using assms(2) by (auto simp: finish_page_def save_cursor_def persist_cursor_def)
  finally show ?thesis using t(2) by simp
qed

definition silent_env :: "unit sync_env" where
  "silent_env = \<lparr>se_key = Inr (), se_header = (\<lambda>_ _ _. Inr ''Nostr e5''),
     se_post = (\<lambda>_ _ _ _ d. (d, Response 200 (Inr []) '''')), se_persist = (\<lambda>_. Persisted), se_to_vec = sync_to_vec\<rparr>"

theorem unanswered_page_is_skipped_witness:
  "\<exists>s'. push_page sync_lib 0 sync_config silent_env sync_store
      \<lparr>ss_dest = (), ss_file = None, ss_cursor = Some ''local-ndjson-v1:0'', ss_pushed = 0, ss_requests = 0, ss_writes = 0\<rparr>
     = (s', Inr True) \<and> ss_file s' = Some ''local-ndjson-v1:1''"
proof -
  let ?b = "\<lparr>rb_records = [sync_record], rb_next_cursor = ''local-ndjson-v1:1'', rb_caught_up = True\<rparr>"
  let ?s = "\<lparr>ss_dest = (), ss_file = None, ss_cursor = Some ''local-ndjson-v1:0'', ss_pushed = 0, ss_requests = 0, ss_writes = 0\<rparr>"
  have r: "read_batch sync_lib 0 (push_source sync_config) sync_store (Some ''local-ndjson-v1:0'') (pc_batch_size sync_config) = Inr ?b"
    by code_simp
  have b: "split_serialized_batches (se_to_vec silent_env) (rb_records ?b) (pc_batch_size sync_config) (pc_batch_bytes sync_config)
    = Inr [([sync_record], ''[r]'')]" by code_simp
  show ?thesis
    using unanswered_page_is_skipped [OF _ _ _ _ r _ b, of ?s] by (simp add: silent_env_def)
qed

end
