(* ===== verification/Portable_Node.thy ===== *)
theory Portable_Node
  imports Portable_Policy Relay_Sync
begin

text \<open>
  The durable object of the portable relay, \<open>cloudflare/portable-relay/src/relay-node.ts\<close>. The record
  \<open>relay_node\<close> holds its SQL tables, each as the list of its rows, the accepted sockets with their
  attachments, and the frames sent. Each operation is a function of the node that returns the
  node and a result: a thrown exception, an identity denial, or the value. A transaction whose
  statement violates a constraint of the schema throws and leaves the node as it was; every
  other write stays, also when the operation throws later. The clock does not advance within
  an operation. Event texts are kept as the events they parse to, and a replacement key as the
  JSON array whose text the source stores.
\<close>

section \<open>State\<close>

record node_env =
  nv_require_auth :: "string option"
  nv_owner :: "string option"
  nv_label :: "string option"
  nv_secret :: "string option"
  nv_peers :: "string option"
  nv_readers :: "string option"
  nv_streams :: "string option"

record journal_row =
  jr_sequence :: nat
  jr_event :: event
  jr_key :: "json option"
  jr_effective :: bool
  jr_source :: "source_id option"

record connection_row =
  cn_id :: string
  cn_challenge :: string
  cn_audience :: string
  cn_principal :: "pubkey option"

record subscription_row =
  sb_connection :: string
  sb_id :: string
  sb_filters :: "json list"

record round_row =
  rd_pulse_id :: event_id
  rd_head :: event_id
  rd_created_at :: nat

record response_row =
  rs_pulse_id :: event_id
  rs_responder :: pubkey
  rs_stance :: string
  rs_created_at :: nat

datatype ws_frame =
    WsEvent string event
  | WsOk string bool string
  | WsEose string
  | WsClosed string string
  | WsNotice string
  | WsAuth string

text \<open>
  The journal is in the order of its sequence numbers; \<open>rn_sequence\<close> is the last number the
  autoincrement gave out. Rounds are in the order of their insertion.
\<close>

record relay_node =
  rn_key :: "string option"
  rn_accepted :: "(event_id \<times> string) list"
  rn_journal :: "journal_row list"
  rn_sequence :: nat
  rn_refs :: "(string \<times> event_id) list"
  rn_maintenance :: "(string \<times> string) list"
  rn_subscriptions :: "subscription_row list"
  rn_proofs :: "(event_id \<times> nat) list"
  rn_connections :: "connection_row list"
  rn_rounds :: "round_row list"
  rn_responses :: "response_row list"
  rn_checkpoints :: "(source_id \<times> string) list"
  rn_sockets :: "(nat \<times> string option) list"
  rn_sent :: "(nat \<times> ws_frame) list"

definition node_empty :: relay_node where
  "node_empty = \<lparr>rn_key = None, rn_accepted = [], rn_journal = [], rn_sequence = 0, rn_refs = [],
     rn_maintenance = [], rn_subscriptions = [], rn_proofs = [], rn_connections = [], rn_rounds = [],
     rn_responses = [], rn_checkpoints = [], rn_sockets = [], rn_sent = []\<rparr>"

text \<open>What an operation reads from its surroundings; a send to a closed socket throws.\<close>

record node_io =
  io_now :: nat
  io_open :: "(nat \<times> ws_frame) list \<Rightarrow> nat \<Rightarrow> bool"

datatype node_exception =
    KeyMismatch
  | SqlConstraint string
  | MalformedHead string
  | TypeFault
  | SigningFault

datatype node_fault = Thrown node_exception | Refused identity_denial_code

definition env_text :: "string option \<Rightarrow> string" where
  "env_text v = (case v of None \<Rightarrow> [] | Some s \<Rightarrow> s)"

definition auth_required :: "node_env \<Rightarrow> bool" where
  "auth_required env = (env_text (nv_require_auth env) \<in> {''1'', ''true'', ''yes''})"

section \<open>Binding to a key\<close>

definition initialize_node :: "string \<Rightarrow> relay_node \<Rightarrow> relay_node \<times> (node_fault + string)" where
  "initialize_node key st =
     (case rn_key st of
        None \<Rightarrow> (st\<lparr>rn_key := Some key\<rparr>, Inr key)
      | Some bound \<Rightarrow> if bound \<noteq> key then (st, Inl (Thrown KeyMismatch)) else (st, Inr bound))"

definition describe_node :: "relay_node \<Rightarrow> string option" where
  "describe_node st = rn_key st"

section \<open>Configuration\<close>

definition declaration_head_events :: "js_lib \<Rightarrow> relay_node \<Rightarrow> event list" where
  "declaration_head_events J st =
     map jr_event (filter (\<lambda>r. jr_effective r
       \<and> contains (j_event_json J (jr_event r)) (show_nat KIND_SYNC_DECLARATION)) (rn_journal st))"

definition owner_declarations :: "js_lib \<Rightarrow> node_env \<Rightarrow> relay_node \<Rightarrow> node_fault + declaration_config" where
  "owner_declarations J env st =
     (let owner = env_text (nv_owner env); label = env_text (nv_label env) in
      if owner = [] \<or> label = [] then Inr unclaimed
      else map_err (\<lambda>e. Thrown (MalformedHead e))
        (evaluate_declarations J (declaration_head_events J st) owner label))"

definition resolved_peers :: "js_lib \<Rightarrow> node_env \<Rightarrow> relay_node \<Rightarrow> node_fault + (source_id \<times> node_trust) list" where
  "resolved_peers J env st =
     and_then (owner_declarations J env st) (\<lambda>d.
     Inr (case dc_peers d of Some peers \<Rightarrow> peers | None \<Rightarrow> parse_peer_trust J (nv_peers env)))"

definition resolved_readers :: "js_lib \<Rightarrow> node_env \<Rightarrow> relay_node \<Rightarrow> node_fault + (source_id \<times> node_trust) list" where
  "resolved_readers J env st =
     and_then (owner_declarations J env st) (\<lambda>d.
     Inr (case dc_readers d of Some readers \<Rightarrow> readers | None \<Rightarrow> parse_peer_trust J (nv_readers env)))"

definition resolved_streams :: "js_lib \<Rightarrow> node_env \<Rightarrow> relay_node \<Rightarrow> node_fault + (source_id \<times> stream_export) list" where
  "resolved_streams J env st =
     and_then (owner_declarations J env st) (\<lambda>d.
     Inr (case dc_streams d of Some streams \<Rightarrow> streams | None \<Rightarrow> parse_stream_exports J (nv_streams env)))"

text \<open>\<open>trust.verification_keys.includes(key)\<close> for the trust found under a source, if any.\<close>

definition trusts_key :: "(source_id \<times> node_trust) list \<Rightarrow> source_id \<Rightarrow> pubkey \<Rightarrow> node_fault + unit" where
  "trusts_key trust source key =
     (case get_property trust source of
        Undefined \<Rightarrow> Inl (Refused PeerUnbound)
      | Inherited \<Rightarrow> Inl (Thrown TypeFault)
      | Own t \<Rightarrow> require (key \<in> set (nt_keys t)) (Refused SourceMismatch))"

definition some_trusts :: "(source_id \<times> node_trust) list \<Rightarrow> pubkey \<Rightarrow> bool" where
  "some_trusts trust key = list_ex (\<lambda>(_, t). key \<in> set (nt_keys t)) trust"

section \<open>Proofs of requests\<close>

record http_auth =
  ha_authorization :: "string option"
  ha_url :: string
  ha_method :: string
  ha_payload :: string

definition node_consume_proof :: "node_io \<Rightarrow> event_id \<Rightarrow> relay_node \<Rightarrow> relay_node \<times> (node_fault + unit)" where
  "node_consume_proof io proof_id st =
     (if map_of (rn_proofs st) proof_id \<noteq> None then (st, Inl (Refused ReplayDetected))
      else (st\<lparr>rn_proofs := filter (\<lambda>(_, consumed_at). io_now io \<le> consumed_at + NODE_PROOF_RETENTION_SECS)
                 (AList.update proof_id (io_now io) (rn_proofs st))\<rparr>, Inr ()))"

definition verify_http_evidence ::
  "js_lib \<Rightarrow> node_io \<Rightarrow> http_auth \<Rightarrow> relay_node \<Rightarrow> relay_node \<times> (node_fault + pubkey)" where
  "verify_http_evidence J io auth st =
     (case Option.bind (ha_authorization auth) (\<lambda>h. strip_prefix h ''Nostr '') of
        None \<Rightarrow> (st, Inl (Refused AuthenticationRequired))
      | Some encoded \<Rightarrow>
          (case Option.bind (Option.bind (j_atob J encoded) (j_json_parse J)) (\<lambda>v. ok (event_from_unknown J v)) of
             None \<Rightarrow> (st, Inl (Refused InvalidEvidence))
           | Some proof' \<Rightarrow>
               (case verify_nip98_at J proof'
                    \<lparr>ne_url = ha_url auth, ne_method = ha_method auth, ne_payload = ha_payload auth\<rparr> (io_now io) of
                  Inl code \<Rightarrow> (st, Inl (Refused code))
                | Inr (key, proof_id) \<Rightarrow>
                    try_step (node_consume_proof io proof_id st) (\<lambda>st _. (st, Inr key)))))"

definition node_authenticate_http ::
  "js_lib \<Rightarrow> node_env \<Rightarrow> node_io \<Rightarrow> http_auth \<Rightarrow> relay_node \<Rightarrow> relay_node \<times> (node_fault + pubkey option)" where
  "node_authenticate_http J env io auth st =
     (if \<not> auth_required env then (st, Inr None)
      else try_step (verify_http_evidence J io auth st) (\<lambda>st key. (st, Inr (Some key))))"

section \<open>Sockets and live delivery\<close>

definition ws_send :: "node_io \<Rightarrow> nat \<Rightarrow> ws_frame \<Rightarrow> relay_node \<Rightarrow> relay_node \<times> bool" where
  "ws_send io ws frame st =
     (if io_open io (rn_sent st) ws then (st\<lparr>rn_sent := rn_sent st @ [(ws, frame)]\<rparr>, True) else (st, False))"

definition attachment_or_null :: "relay_node \<Rightarrow> nat \<Rightarrow> string option" where
  "attachment_or_null st ws = Option.bind (map_of (rn_sockets st) ws) id"

definition find_connection :: "relay_node \<Rightarrow> string \<Rightarrow> connection_row option" where
  "find_connection st connection = find (\<lambda>c. cn_id c = connection) (rn_connections st)"

definition connection_of :: "relay_node \<Rightarrow> nat \<Rightarrow> connection_row option" where
  "connection_of st ws = Option.bind (attachment_or_null st ws) (find_connection st)"

definition ws_principal :: "relay_node \<Rightarrow> nat \<Rightarrow> pubkey option" where
  "ws_principal st ws = Option.bind (connection_of st ws) cn_principal"

definition delete_subscriptions :: "string \<Rightarrow> relay_node \<Rightarrow> relay_node" where
  "delete_subscriptions connection st =
     st\<lparr>rn_subscriptions := filter (\<lambda>s. sb_connection s \<noteq> connection) (rn_subscriptions st)\<rparr>"

definition subscriptions_of :: "relay_node \<Rightarrow> string \<Rightarrow> subscription_row list" where
  "subscriptions_of st connection =
     sort_key sb_id (filter (\<lambda>s. sb_connection s = connection) (rn_subscriptions st))"

definition node_pulse_visible_to ::
  "js_lib \<Rightarrow> node_env \<Rightarrow> relay_node \<Rightarrow> pubkey option \<Rightarrow> node_fault + bool" where
  "node_pulse_visible_to J env st reader =
     (if \<not> auth_required env then Inr True
      else (case reader of
        None \<Rightarrow> Inr False
      | Some reader \<Rightarrow>
          if env_text (nv_owner env) \<noteq> [] \<and> reader = env_text (nv_owner env) then Inr True
          else and_then (resolved_peers J env st) (\<lambda>peers.
            if some_trusts peers reader then Inr True
            else and_then (resolved_readers J env st) (\<lambda>readers. Inr (some_trusts readers reader)))))"

definition visible_to_socket :: "js_lib \<Rightarrow> node_env \<Rightarrow> relay_node \<Rightarrow> nat \<Rightarrow> event \<Rightarrow> node_fault + bool" where
  "visible_to_socket J env st ws e =
     (if \<not> auth_required env then Inr True
      else if ev_kind e = KIND_BEACON_PULSE \<or> ev_kind e = KIND_BEACON_RESPONSE
      then node_pulse_visible_to J env st (ws_principal st ws)
      else Inr (case ws_principal st ws of None \<Rightarrow> False | Some reader \<Rightarrow> event_visible_to_reader reader e))"

fun send_matching ::
  "js_lib \<Rightarrow> node_io \<Rightarrow> nat \<Rightarrow> event \<Rightarrow> subscription_row list \<Rightarrow> relay_node \<Rightarrow> relay_node" where
  "send_matching J io ws e [] st = st"
| "send_matching J io ws e (row # rows) st =
     (if j_match_filters J (sb_filters row) e
      then (case ws_send io ws (WsEvent (sb_id row) e) st of
          (st, True) \<Rightarrow> send_matching J io ws e rows st
        | (st, False) \<Rightarrow> delete_subscriptions (sb_connection row) st)
      else send_matching J io ws e rows st)"

fun publish_to ::
  "js_lib \<Rightarrow> node_env \<Rightarrow> node_io \<Rightarrow> event \<Rightarrow> (nat \<times> string option) list \<Rightarrow> relay_node \<Rightarrow> relay_node \<times> (node_fault + unit)" where
  "publish_to J env io e [] st = (st, Inr ())"
| "publish_to J env io e ((ws, None) # sockets) st = publish_to J env io e sockets st"
| "publish_to J env io e ((ws, Some connection) # sockets) st =
     try_step (st, visible_to_socket J env st ws e) (\<lambda>st visible.
       publish_to J env io e sockets
         (if visible then send_matching J io ws e (subscriptions_of st connection) st else st))"

definition publish_live :: "js_lib \<Rightarrow> node_env \<Rightarrow> node_io \<Rightarrow> event \<Rightarrow> relay_node \<Rightarrow> relay_node \<times> (node_fault + unit)" where
  "publish_live J env io e st = publish_to J env io e (rn_sockets st) st"

section \<open>Pulses\<close>

definition pulse_sessions :: "node_env \<Rightarrow> relay_node \<Rightarrow> (nat \<times> pubkey list) option" where
  "pulse_sessions env st =
     (if \<not> auth_required env then None
      else (let principals = List.map_filter (\<lambda>(ws, _). ws_principal st ws) (rn_sockets st)
            in Some (length principals, sort (remdups principals))))"

definition node_pulse_recognition ::
  "node_io \<Rightarrow> relay_node \<Rightarrow> event_id option \<Rightarrow> (event_id \<times> event_id \<times> (pubkey \<times> string) list) option" where
  "node_pulse_recognition io st head =
     Option.bind head (\<lambda>head.
     Option.bind (find (\<lambda>r. rd_head r = head \<and> io_now io \<le> rd_created_at r + DEFAULT_RECOGNITION_WINDOW_SECS
         \<and> list_ex (\<lambda>a. rs_pulse_id a = rd_pulse_id r) (rn_responses st)) (rev (rn_rounds st))) (\<lambda>r.
     Some (head, rd_pulse_id r, map (\<lambda>a. (rs_responder a, rs_stance a))
       (sort_key rs_responder (filter (\<lambda>a. rs_pulse_id a = rd_pulse_id r) (rn_responses st))))))"

definition node_register_pulse :: "node_io \<Rightarrow> event \<Rightarrow> event_id option \<Rightarrow> relay_node \<Rightarrow> relay_node" where
  "node_register_pulse io pulse head st =
     (let expired = (\<lambda>r. rd_created_at r + DEFAULT_RECOGNITION_WINDOW_SECS < io_now io);
          gone = map rd_pulse_id (filter expired (rn_rounds st));
          rounds = filter (\<lambda>r. \<not> expired r) (rn_rounds st)
      in st\<lparr>rn_responses := filter (\<lambda>a. rs_pulse_id a \<notin> set gone) (rn_responses st),
            rn_rounds := (case head of
                None \<Rightarrow> rounds
              | Some head \<Rightarrow>
                  if list_ex (\<lambda>r. rd_pulse_id r = ev_id pulse) rounds then rounds
                  else rounds @ [\<lparr>rd_pulse_id = ev_id pulse, rd_head = head, rd_created_at = ev_created_at pulse\<rparr>])\<rparr>)"

definition node_pulse_agreements :: "js_lib \<Rightarrow> node_env \<Rightarrow> relay_node \<Rightarrow> (string \<times> event_id) list" where
  "node_pulse_agreements J env st =
     (let owner = env_text (nv_owner env); label = env_text (nv_label env) in
      if owner = [] \<or> label = [] then []
      else foldl (\<lambda>agreements e.
          if ev_kind e \<noteq> KIND_SYNC_DECLARATION \<or> ev_pubkey e \<noteq> owner then agreements
          else (case tag_value e ''d'' of
              None \<Rightarrow> agreements
            | Some d \<Rightarrow> if tag_value e ''n'' \<noteq> Some label then agreements else AList.update d (ev_id e) agreements))
        [] (declaration_head_events J st))"

definition governance :: "'a option \<Rightarrow> string" where
  "governance domain = (case domain of None \<Rightarrow> ''bootstrap'' | Some _ \<Rightarrow> ''journal'')"

definition journal_head :: "relay_node \<Rightarrow> journal_row option" where
  "journal_head st = last_of (rn_journal st)"

definition node_current_pulse ::
  "js_lib \<Rightarrow> node_env \<Rightarrow> node_io \<Rightarrow> relay_node \<Rightarrow> node_fault + (event \<times> event_id option) option" where
  "node_current_pulse J env io st =
     (case witness_secret_from_env (nv_secret env) of
        None \<Rightarrow> Inr None
      | Some secret \<Rightarrow>
          let head = map_option (\<lambda>r. ev_id (jr_event r)) (journal_head st);
              witnessed_head = map_of (rn_maintenance st) ''witnessed_head'';
              witnessed_prev = map_of (rn_maintenance st) ''witnessed_prev'' in
          and_then (owner_declarations J env st) (\<lambda>declarations.
          and_then (ok_or (Thrown SigningFault) (build_pulse_event J
            \<lparr>ps_node = env_text (describe_node st), ps_label = env_text (nv_label env),
             ps_sequence = (case journal_head st of None \<Rightarrow> 0 | Some r \<Rightarrow> jr_sequence r), ps_head = head,
             ps_previous = (if head = witnessed_head then witnessed_prev else witnessed_head),
             ps_checkpoints = sort_key fst (rn_checkpoints st), ps_agreements = node_pulse_agreements J env st,
             ps_governance = [(''peers'', governance (dc_peers declarations)),
               (''readers'', governance (dc_readers declarations)), (''streams'', governance (dc_streams declarations))],
             ps_sessions = pulse_sessions env st, ps_recognition = node_pulse_recognition io st head\<rparr>
            secret (io_now io))) (\<lambda>e.
          Inr (Some (e, head)))))"

definition set_maintenance_value :: "string \<Rightarrow> string \<Rightarrow> relay_node \<Rightarrow> relay_node" where
  "set_maintenance_value k v st = st\<lparr>rn_maintenance := AList.update k v (rn_maintenance st)\<rparr>"

definition advance_witnessed :: "event_id option \<Rightarrow> relay_node \<Rightarrow> relay_node" where
  "advance_witnessed head st =
     (let witnessed = map_of (rn_maintenance st) ''witnessed_head'' in
      case head of
        None \<Rightarrow> st
      | Some h \<Rightarrow>
          if witnessed = Some h then st
          else set_maintenance_value ''witnessed_head'' h
            (case witnessed of None \<Rightarrow> st | Some w \<Rightarrow> set_maintenance_value ''witnessed_prev'' w st))"

definition emit_pulse :: "js_lib \<Rightarrow> node_env \<Rightarrow> node_io \<Rightarrow> relay_node \<Rightarrow> relay_node \<times> (node_fault + unit)" where
  "emit_pulse J env io st =
     try_step (st, node_current_pulse J env io st) (\<lambda>st pulse.
       case pulse of
         None \<Rightarrow> (st, Inr ())
       | Some (e, head) \<Rightarrow>
           try_step (publish_live J env io e (node_register_pulse io e head st)) (\<lambda>st _.
             (advance_witnessed head st, Inr ())))"

definition node_record_beacon_response ::
  "js_lib \<Rightarrow> node_env \<Rightarrow> node_io \<Rightarrow> event \<Rightarrow> relay_node \<Rightarrow> relay_node \<times> bool" where
  "node_record_beacon_response J env io e st =
     (case (tag_value e ''e'', witness_pubkey_from_env J (nv_secret env)) of
        (Some pulse_id, Some witness) \<Rightarrow>
          (case Option.bind (find (\<lambda>r. rd_pulse_id r = pulse_id) (rn_rounds st)) (\<lambda>r.
              parse_beacon_response J e \<lparr>er_pulse_id = rd_pulse_id r, er_head = rd_head r,
                er_created_at = rd_created_at r, er_witness = witness\<rparr> (io_now io)) of
             None \<Rightarrow> (st, False)
           | Some stance \<Rightarrow>
               (st\<lparr>rn_responses := filter (\<lambda>a. \<not> (rs_pulse_id a = pulse_id \<and> rs_responder a = ev_pubkey e)) (rn_responses st)
                   @ [\<lparr>rs_pulse_id = pulse_id, rs_responder = ev_pubkey e, rs_stance = stance,
                       rs_created_at = ev_created_at e\<rparr>]\<rparr>, True))
      | _ \<Rightarrow> (st, False))"

section \<open>Ingestion\<close>

definition node_replacement_key :: "event \<Rightarrow> json option" where
  "node_replacement_key e =
     (if ev_kind e = 0 \<or> ev_kind e = 3 \<or> (10000 \<le> ev_kind e \<and> ev_kind e < 20000)
      then Some (JArray [JString ''replaceable'', JString (ev_pubkey e), JNumber (PosInt (ev_kind e))])
      else if 30000 \<le> ev_kind e \<and> ev_kind e < 40000
      then Some (JArray [JString ''parameterized'', JString (ev_pubkey e), JNumber (PosInt (ev_kind e)),
        JString (case tag_value e ''d'' of None \<Rightarrow> [] | Some d \<Rightarrow> d)])
      else None)"

definition node_candidate_wins :: "event \<Rightarrow> event \<Rightarrow> bool" where
  "node_candidate_wins candidate current =
     (ev_created_at current < ev_created_at candidate
      \<or> (ev_created_at candidate = ev_created_at current \<and> ev_id candidate < ev_id current))"

definition is_ephemeral_node_kind :: "nat \<Rightarrow> bool" where
  "is_ephemeral_node_kind kind = (20000 \<le> kind \<and> kind < 30000)"

definition effective_replacement :: "relay_node \<Rightarrow> json \<Rightarrow> event option" where
  "effective_replacement st key =
     map_option jr_event (find (\<lambda>r. jr_key r = Some key \<and> jr_effective r) (rn_journal st))"

definition artifact_shas :: "event \<Rightarrow> string list" where
  "artifact_shas e =
     List.map_filter (\<lambda>t. if tag_name t = ''x''
       then Option.bind (tag_content t) (\<lambda>v. if is_hex 64 (to_ascii_lowercase v) then Some (to_ascii_lowercase v) else None)
       else None) (ev_tags e)"

definition index_artifact_refs :: "event \<Rightarrow> relay_node \<Rightarrow> relay_node" where
  "index_artifact_refs e st =
     st\<lparr>rn_refs := foldl (\<lambda>refs sha. if (sha, ev_id e) \<in> set refs then refs else refs @ [(sha, ev_id e)])
       (rn_refs st) (artifact_shas e)\<rparr>"

definition insert_accepted :: "event_id \<Rightarrow> string \<Rightarrow> relay_node \<Rightarrow> node_fault + relay_node" where
  "insert_accepted i decision st =
     and_then (require (map_of (rn_accepted st) i = None) (Thrown (SqlConstraint ''accepted_event_ids.event_id''))) (\<lambda>_.
     Inr (st\<lparr>rn_accepted := (i, decision) # rn_accepted st\<rparr>))"

definition clear_effective :: "json option \<Rightarrow> relay_node \<Rightarrow> relay_node" where
  "clear_effective key st =
     (case key of
        None \<Rightarrow> st
      | Some k \<Rightarrow> st\<lparr>rn_journal := map (\<lambda>r. if jr_key r = Some k \<and> jr_effective r then r\<lparr>jr_effective := False\<rparr> else r)
          (rn_journal st)\<rparr>)"

definition insert_journal :: "event \<Rightarrow> json option \<Rightarrow> source_id option \<Rightarrow> relay_node \<Rightarrow> node_fault + relay_node" where
  "insert_journal e key source st =
     and_then (require (\<not> list_ex (\<lambda>r. ev_id (jr_event r) = ev_id e) (rn_journal st))
       (Thrown (SqlConstraint ''event_journal.event_id''))) (\<lambda>_.
     and_then (require (key = None \<or> \<not> list_ex (\<lambda>r. jr_key r = key \<and> jr_effective r) (rn_journal st))
       (Thrown (SqlConstraint ''one_effective_replacement''))) (\<lambda>_.
     Inr (st\<lparr>rn_journal := rn_journal st @ [\<lparr>jr_sequence = Suc (rn_sequence st), jr_event = e, jr_key = key,
              jr_effective = True, jr_source = source\<rparr>], rn_sequence := Suc (rn_sequence st)\<rparr>)))"

definition store_transaction :: "event \<Rightarrow> source_id option \<Rightarrow> relay_node \<Rightarrow> node_fault + relay_node" where
  "store_transaction e source st =
     and_then (insert_accepted (ev_id e) ''stored'' st) (\<lambda>st.
     and_then (insert_journal e (node_replacement_key e) source (clear_effective (node_replacement_key e) st)) (\<lambda>st.
     Inr (index_artifact_refs e st)))"

text \<open>A transaction commits or, when it throws, leaves the node unchanged.\<close>

definition transaction :: "(relay_node \<Rightarrow> node_fault + relay_node) \<Rightarrow> relay_node \<Rightarrow> relay_node \<times> (node_fault + unit)" where
  "transaction f st = (case f st of Inl e \<Rightarrow> (st, Inl e) | Inr st' \<Rightarrow> (st', Inr ()))"

record node_write =
  nw_event_id :: event_id
  nw_accepted :: bool
  nw_message :: string

definition wrote :: "event \<Rightarrow> bool \<Rightarrow> string \<Rightarrow> node_write" where
  "wrote e accepted message = \<lparr>nw_event_id = ev_id e, nw_accepted = accepted, nw_message = message\<rparr>"

definition apply_beacon_response ::
  "js_lib \<Rightarrow> node_env \<Rightarrow> node_io \<Rightarrow> event \<Rightarrow> pubkey option \<Rightarrow> relay_node \<Rightarrow> relay_node \<times> (node_fault + node_write)" where
  "apply_beacon_response J env io e caller st =
     try_step (st, if auth_required env \<and> caller \<noteq> None then node_pulse_visible_to J env st caller
         else Inr (\<not> auth_required env)) (\<lambda>st permitted.
       if \<not> permitted then (st, Inr (wrote e False ''invalid''))
       else (case node_record_beacon_response J env io e st of
           (st, False) \<Rightarrow> (st, Inr (wrote e False ''invalid''))
         | (st, True) \<Rightarrow> try_step (publish_live J env io e st) (\<lambda>st _. (st, Inr (wrote e True ''ephemeral'')))))"

definition supersedes :: "relay_node \<Rightarrow> event \<Rightarrow> bool" where
  "supersedes st e =
     (case Option.bind (node_replacement_key e) (effective_replacement st) of
        None \<Rightarrow> True
      | Some current \<Rightarrow> node_candidate_wins e current)"

definition apply_event ::
  "js_lib \<Rightarrow> node_env \<Rightarrow> node_io \<Rightarrow> event \<Rightarrow> source_id option \<Rightarrow> pubkey option \<Rightarrow> relay_node
     \<Rightarrow> relay_node \<times> (node_fault + node_write)" where
  "apply_event J env io e source caller st =
     (if \<not> j_verify_event J e then (st, Inr (wrote e False ''invalid''))
      else if map_of (rn_accepted st) (ev_id e) \<noteq> None then (st, Inr (wrote e True ''duplicate''))
      else if ev_kind e = KIND_BEACON_RESPONSE then apply_beacon_response J env io e caller st
      else if is_ephemeral_node_kind (ev_kind e)
      then try_step (publish_live J env io e st) (\<lambda>st _. (st, Inr (wrote e True ''ephemeral'')))
      else if \<not> supersedes st e
      then try_step (transaction (insert_accepted (ev_id e) ''superseded'') st) (\<lambda>st _.
        (st, Inr (wrote e True ''superseded'')))
      else try_step (transaction (store_transaction e source) st) (\<lambda>st _.
        try_step (publish_live J env io e st) (\<lambda>st _.
        try_step (emit_pulse J env io st) (\<lambda>st _.
        (st, Inr (wrote e True ''stored''))))))"

definition node_submit_event ::
  "js_lib \<Rightarrow> node_env \<Rightarrow> node_io \<Rightarrow> string \<Rightarrow> event \<Rightarrow> http_auth \<Rightarrow> relay_node \<Rightarrow> relay_node \<times> (node_fault + node_write)" where
  "node_submit_event J env io key e auth st =
     try_step (initialize_node key st) (\<lambda>st _.
     try_step (node_authenticate_http J env io auth st) (\<lambda>st caller.
     case Option.bind caller (\<lambda>c. node_authorize_direct c e) of
       Some code \<Rightarrow> (st, Inl (Refused code))
     | None \<Rightarrow> apply_event J env io e None caller st))"

section \<open>Queries\<close>

definition effective_events :: "relay_node \<Rightarrow> event list" where
  "effective_events st = map jr_event (filter jr_effective (rn_journal st))"

definition readable_events :: "relay_node \<Rightarrow> pubkey option \<Rightarrow> event list" where
  "readable_events st reader =
     (case reader of
        None \<Rightarrow> effective_events st
      | Some r \<Rightarrow> filter (event_visible_to_reader r) (effective_events st))"

definition NODE_DEFAULT_QUERY_LIMIT :: nat where
  "NODE_DEFAULT_QUERY_LIMIT = 500"

definition NODE_MAX_QUERY_LIMIT :: nat where
  "NODE_MAX_QUERY_LIMIT = 5000"

definition node_filter_limit :: "js_lib \<Rightarrow> json \<Rightarrow> nat" where
  "node_filter_limit J f =
     min (case Option.bind (json_get f ''limit'') (safe_integer J) of
            None \<Rightarrow> NODE_DEFAULT_QUERY_LIMIT | Some i \<Rightarrow> nat i) NODE_MAX_QUERY_LIMIT"

definition node_filter_accepts :: "js_lib \<Rightarrow> json \<Rightarrow> event \<Rightarrow> bool" where
  "node_filter_accepts J f e =
     (j_match_filter J f e
      \<and> \<not> (case Option.bind (json_get f ''before_id'') json_as_str of
             None \<Rightarrow> False
           | Some before \<Rightarrow> Option.bind (json_get f ''until'') (safe_integer J) = Some (int (ev_created_at e))
               \<and> ev_id e \<le> before))"

definition select_event :: "(event_id \<times> event) list \<Rightarrow> event \<Rightarrow> (event_id \<times> event) list" where
  "select_event selected e = AList.update (ev_id e) e selected"

definition select_events :: "js_lib \<Rightarrow> event list \<Rightarrow> json list \<Rightarrow> (event_id \<times> event) list" where
  "select_events J ordered filters =
     foldl (\<lambda>selected f. foldl select_event selected
       (take (node_filter_limit J f) (filter (node_filter_accepts J f) ordered))) [] filters"

definition asks_for_pulse :: "js_lib \<Rightarrow> json \<Rightarrow> bool" where
  "asks_for_pulse J f =
     (case Option.bind (json_get f ''kinds'') json_as_array of
        None \<Rightarrow> False
      | Some ks \<Rightarrow> list_ex (\<lambda>k. safe_integer J k = Some (int KIND_BEACON_PULSE)) ks)"

definition query_effective ::
  "js_lib \<Rightarrow> node_env \<Rightarrow> node_io \<Rightarrow> json list \<Rightarrow> pubkey option \<Rightarrow> relay_node \<Rightarrow> relay_node \<times> (node_fault + event list)" where
  "query_effective J env io filters reader st =
     (if filters = [] then (st, Inr [])
      else (let selected = select_events J (j_sort_events J (readable_events st reader)) filters;
                pulse_filters = filter (asks_for_pulse J) filters;
                sorted = (\<lambda>selected. j_sort_events J (map snd selected))
            in if pulse_filters = [] then (st, Inr (sorted selected))
               else try_step (st, node_pulse_visible_to J env st reader) (\<lambda>st visible.
                 if \<not> visible then (st, Inr (sorted selected))
                 else try_step (st, node_current_pulse J env io st) (\<lambda>st pulse.
                   case pulse of
                     Some (e, head) \<Rightarrow>
                       if list_ex (\<lambda>f. j_match_filter J f e) pulse_filters
                       then (node_register_pulse io e head st, Inr (sorted (select_event selected e)))
                       else (st, Inr (sorted selected))
                   | None \<Rightarrow> (st, Inr (sorted selected))))))"

definition node_query_events ::
  "js_lib \<Rightarrow> node_env \<Rightarrow> node_io \<Rightarrow> string \<Rightarrow> json list \<Rightarrow> http_auth \<Rightarrow> relay_node \<Rightarrow> relay_node \<times> (node_fault + event list)" where
  "node_query_events J env io key filters auth st =
     try_step (initialize_node key st) (\<lambda>st _.
     try_step (node_authenticate_http J env io auth st) (\<lambda>st caller.
     query_effective J env io filters caller st))"

definition count_effective :: "js_lib \<Rightarrow> json list \<Rightarrow> pubkey option \<Rightarrow> relay_node \<Rightarrow> nat" where
  "count_effective J filters reader st =
     (if filters = [] then 0 else length (filter (j_match_filters J filters) (readable_events st reader)))"

definition node_count_events ::
  "js_lib \<Rightarrow> node_env \<Rightarrow> node_io \<Rightarrow> string \<Rightarrow> json list \<Rightarrow> http_auth \<Rightarrow> relay_node \<Rightarrow> relay_node \<times> (node_fault + nat)" where
  "node_count_events J env io key filters auth st =
     try_step (initialize_node key st) (\<lambda>st _.
     try_step (node_authenticate_http J env io auth st) (\<lambda>st caller.
     (st, Inr (count_effective J filters caller st))))"

section \<open>Replication\<close>

definition node_receipt :: "replication_record \<Rightarrow> ingest_outcome \<Rightarrow> replication_receipt" where
  "node_receipt r outcome =
     \<lparr>rc_source = rr_source r, rc_cursor = rr_cursor r, rc_event_id = ev_id (rr_event r), rc_outcome = outcome\<rparr>"

definition outcome_of_write :: "node_write \<Rightarrow> ingest_outcome" where
  "outcome_of_write w =
     (if \<not> nw_accepted w then OutcomeRejected (nw_message w)
      else if nw_message w = ''stored'' then OutcomeStored
      else if nw_message w = ''duplicate'' then OutcomeDuplicate
      else if nw_message w = ''superseded'' then OutcomeSuperseded
      else OutcomeRejected (''unexpected accepted outcome: '' @ nw_message w))"

definition apply_replication_record ::
  "js_lib \<Rightarrow> node_env \<Rightarrow> node_io \<Rightarrow> source_id \<Rightarrow> replication_record \<Rightarrow> relay_node
     \<Rightarrow> relay_node \<times> (node_fault + replication_receipt)" where
  "apply_replication_record J env io source r st =
     (if rr_source r \<noteq> source
      then (st, Inr (node_receipt r (OutcomeRejected ''record source does not match the authenticated batch'')))
      else if is_ephemeral_node_kind (ev_kind (rr_event r))
      then (st, Inr (node_receipt r (OutcomeRejected ''ephemeral events are not part of durable replication'')))
      else if ev_kind (rr_event r) = KIND_AUTH \<or> ev_kind (rr_event r) = KIND_HTTP_AUTH
      then (st, Inr (node_receipt r (OutcomeRejected ''authentication events are never journaled'')))
      else try_step (apply_event J env io (rr_event r) (Some source) None st) (\<lambda>st w.
        (st, Inr (node_receipt r (outcome_of_write w)))))"

fun apply_records ::
  "js_lib \<Rightarrow> node_env \<Rightarrow> node_io \<Rightarrow> source_id \<Rightarrow> replication_record list \<Rightarrow> string option \<Rightarrow> relay_node
     \<Rightarrow> relay_node \<times> (node_fault + replication_receipt list \<times> string option)" where
  "apply_records J env io source [] checkpoint st = (st, Inr ([], checkpoint))"
| "apply_records J env io source (r # rs) checkpoint st =
     try_step (apply_replication_record J env io source r st) (\<lambda>st receipt.
       case rc_outcome receipt of
         OutcomeRejected _ \<Rightarrow> (st, Inr ([receipt], checkpoint))
       | _ \<Rightarrow> try_step (apply_records J env io source rs (Some (rr_cursor r)) st) (\<lambda>st (receipts, checkpoint).
           (st, Inr (receipt # receipts, checkpoint))))"

definition node_ingest_replication ::
  "js_lib \<Rightarrow> node_env \<Rightarrow> node_io \<Rightarrow> string \<Rightarrow> replication_record list \<Rightarrow> http_auth \<Rightarrow> relay_node
     \<Rightarrow> relay_node \<times> (node_fault + replication_receipt list)" where
  "node_ingest_replication J env io key records auth st =
     try_step (initialize_node key st) (\<lambda>st _.
     try_step (verify_http_evidence J io auth st) (\<lambda>st caller.
     case records of
       [] \<Rightarrow> (st, Inr [])
     | first # _ \<Rightarrow>
         try_step (st, resolved_peers J env st) (\<lambda>st peers.
         try_step (st, trusts_key peers (rr_source first) caller) (\<lambda>st _.
         try_step (apply_records J env io (rr_source first) records None st) (\<lambda>st (receipts, checkpoint).
           (case checkpoint of
              None \<Rightarrow> st
            | Some cursor \<Rightarrow> st\<lparr>rn_checkpoints := AList.update (rr_source first) cursor (rn_checkpoints st)\<rparr>,
            Inr receipts))))))"

text \<open>\<open>Number.parseInt\<close> on the digits of a cursor; beyond the safe range it rounds, which is not represented.\<close>

definition read_after :: "string option \<Rightarrow> nat" where
  "read_after cursor =
     (case Option.bind cursor cursor_digits of
        None \<Rightarrow> 0
      | Some ds \<Rightarrow> (case parse_digits 0 ds of None \<Rightarrow> 0 | Some n \<Rightarrow> n))"

definition read_cursor :: "nat \<Rightarrow> string" where
  "read_cursor n = READ_CURSOR_PREFIX @ show_nat n"

definition row_selected :: "js_lib \<Rightarrow> stream_export property \<Rightarrow> journal_row \<Rightarrow> bool" where
  "row_selected J export r =
     (case export of Own x \<Rightarrow> stream_selects J x (jr_event r) (jr_source r) | _ \<Rightarrow> False)"

definition read_page :: "js_lib \<Rightarrow> stream_export property \<Rightarrow> read_request \<Rightarrow> relay_node \<Rightarrow> replication_batch" where
  "read_page J export rq st =
     (let scan_limit = min (rq_limit rq) MAX_READ_BATCH;
          after = read_after (rq_cursor rq);
          rows = take scan_limit (filter (\<lambda>r. after < jr_sequence r) (rn_journal st));
          last_scanned = (case last_of rows of None \<Rightarrow> after | Some r \<Rightarrow> jr_sequence r)
      in \<lparr>rb_records = map (\<lambda>r. \<lparr>rr_source = rq_source rq, rr_cursor = read_cursor (jr_sequence r), rr_event = jr_event r\<rparr>)
            (filter (row_selected J export) rows),
          rb_next_cursor = read_cursor last_scanned, rb_caught_up = (length rows < scan_limit)\<rparr>)"

definition node_read_replication ::
  "js_lib \<Rightarrow> node_env \<Rightarrow> node_io \<Rightarrow> string \<Rightarrow> read_request \<Rightarrow> http_auth \<Rightarrow> relay_node
     \<Rightarrow> relay_node \<times> (node_fault + replication_batch)" where
  "node_read_replication J env io key rq auth st =
     try_step (initialize_node key st) (\<lambda>st _.
     try_step (verify_http_evidence J io auth st) (\<lambda>st caller.
     try_step (st, resolved_streams J env st) (\<lambda>st streams.
     try_step (st, resolved_readers J env st) (\<lambda>st readers.
     let export = get_property streams (rq_source rq) in
     if export = Undefined then (st, Inl (Refused PeerUnbound))
     else try_step (st, trusts_key readers (rq_source rq) caller) (\<lambda>st _.
       (st, Inr (read_page J export rq st)))))))"

section \<open>Artifacts\<close>

definition node_authorize_artifact_upload ::
  "js_lib \<Rightarrow> node_env \<Rightarrow> node_io \<Rightarrow> string \<Rightarrow> http_auth \<Rightarrow> relay_node \<Rightarrow> relay_node \<times> (node_fault + pubkey)" where
  "node_authorize_artifact_upload J env io key auth st =
     try_step (initialize_node key st) (\<lambda>st _.
     try_step (verify_http_evidence J io auth st) (\<lambda>st caller.
     if env_text (nv_owner env) \<noteq> [] \<and> caller = env_text (nv_owner env) then (st, Inr caller)
     else try_step (st, resolved_peers J env st) (\<lambda>st peers.
       (st, if some_trusts peers caller then Inr caller else Inl (Refused ScopeDenied)))))"

definition referencing_rows :: "relay_node \<Rightarrow> string \<Rightarrow> journal_row list" where
  "referencing_rows st sha = filter (\<lambda>r. (sha, ev_id (jr_event r)) \<in> set (rn_refs st)) (rn_journal st)"

definition node_authorize_artifact_fetch ::
  "js_lib \<Rightarrow> node_env \<Rightarrow> node_io \<Rightarrow> string \<Rightarrow> string \<Rightarrow> http_auth \<Rightarrow> relay_node \<Rightarrow> relay_node \<times> (node_fault + pubkey)" where
  "node_authorize_artifact_fetch J env io key sha auth st =
     try_step (initialize_node key st) (\<lambda>st _.
     try_step (verify_http_evidence J io auth st) (\<lambda>st caller.
     if env_text (nv_owner env) \<noteq> [] \<and> caller = env_text (nv_owner env) then (st, Inr caller)
     else try_step (st, resolved_readers J env st) (\<lambda>st readers.
       try_step (st, resolved_streams J env st) (\<lambda>st streams.
       let readable = map fst (filter (\<lambda>(_, t). caller \<in> set (nt_keys t)) readers) in
       (st, if list_ex (\<lambda>stream. list_ex (row_selected J (get_property streams stream)) (referencing_rows st sha)) readable
            then Inr caller else Inl (Refused ScopeDenied))))))"

text \<open>The constructor: the schema is there already; references of an older journal are indexed once.\<close>

definition node_construct :: "js_lib \<Rightarrow> relay_node \<Rightarrow> relay_node" where
  "node_construct J st =
     (if map_of (rn_maintenance st) ''artifact_refs_backfilled'' \<noteq> None then st
      else (let rows = filter (\<lambda>r. contains (to_ascii_lowercase (j_event_json J (jr_event r))) ''\"x\"'') (rn_journal st);
                st = foldl (\<lambda>st r. index_artifact_refs (jr_event r) st) st rows
            in st\<lparr>rn_maintenance := (''artifact_refs_backfilled'', ''1'') # rn_maintenance st\<rparr>))"

section \<open>WebSocket handlers\<close>

definition NODE_MAX_SUBSCRIPTIONS_PER_CONNECTION :: nat where
  "NODE_MAX_SUBSCRIPTIONS_PER_CONNECTION = 128"

definition NODE_MAX_SUBSCRIPTION_ID_LENGTH :: nat where
  "NODE_MAX_SUBSCRIPTION_ID_LENGTH = 128"

definition ws_reply :: "node_io \<Rightarrow> nat \<Rightarrow> ws_frame \<Rightarrow> relay_node \<Rightarrow> relay_node" where
  "ws_reply io ws frame st = fst (ws_send io ws frame st)"

definition frame_at :: "json list \<Rightarrow> nat \<Rightarrow> json" where
  "frame_at frame i = (case get_at frame i of None \<Rightarrow> JNull | Some v \<Rightarrow> v)"

definition ws_accept ::
  "node_env \<Rightarrow> node_io \<Rightarrow> nat \<Rightarrow> string \<Rightarrow> string \<Rightarrow> string \<Rightarrow> relay_node \<Rightarrow> relay_node" where
  "ws_accept env io ws connection challenge audience st =
     (let st = st\<lparr>rn_sockets := rn_sockets st @ [(ws, Some connection)]\<rparr> in
      if auth_required env
      then ws_reply io ws (WsAuth challenge) (st\<lparr>rn_connections := rn_connections st
        @ [\<lparr>cn_id = connection, cn_challenge = challenge, cn_audience = audience, cn_principal = None\<rparr>]\<rparr>)
      else st)"

text \<open>The upgrade of a socket; the identifier and the challenge the runtime draws are given.\<close>

record ws_upgrade =
  wu_socket :: nat
  wu_connection :: string
  wu_challenge :: string

definition ws_audience :: "js_url \<Rightarrow> string" where
  "ws_audience url =
     (case strip_prefix (u_origin url) ''http'' of None \<Rightarrow> u_origin url | Some rest \<Rightarrow> ''ws'' @ rest) @ ''/''"

definition node_upgrade ::
  "node_env \<Rightarrow> node_io \<Rightarrow> ws_upgrade \<Rightarrow> string \<Rightarrow> js_url \<Rightarrow> relay_node \<Rightarrow> relay_node \<times> (node_fault + unit)" where
  "node_upgrade env io u key url st =
     try_step (initialize_node key st) (\<lambda>st _.
       (ws_accept env io (wu_socket u) (wu_connection u) (wu_challenge u) (ws_audience url) st, Inr ()))"

definition handle_web_socket_auth ::
  "js_lib \<Rightarrow> node_env \<Rightarrow> node_io \<Rightarrow> nat \<Rightarrow> json list \<Rightarrow> relay_node \<Rightarrow> relay_node" where
  "handle_web_socket_auth J env io ws frame st =
     (case event_from_unknown J (frame_at frame 1) of
        Inl _ \<Rightarrow> ws_reply io ws (WsOk [] False ''invalid_evidence'') st
      | Inr e \<Rightarrow>
          if \<not> auth_required env then ws_reply io ws (WsOk (ev_id e) False ''authentication_not_enabled'') st
          else (case connection_of st ws of
            None \<Rightarrow> ws_reply io ws (WsOk (ev_id e) False ''authentication_required'') st
          | Some c \<Rightarrow>
              if cn_principal c \<noteq> None then ws_reply io ws (WsOk (ev_id e) False ''replay_detected'') st
              else (case verify_nip42_at J e (cn_challenge c) (cn_audience c) (io_now io) of
                Inl code \<Rightarrow> ws_reply io ws (WsOk (ev_id e) False (denial_code_str code)) st
              | Inr (key, proof_id) \<Rightarrow>
                  (case node_consume_proof io proof_id st of
                     (st, Inl (Refused code)) \<Rightarrow> ws_reply io ws (WsOk (ev_id e) False (denial_code_str code)) st
                   | (st, _) \<Rightarrow>
                       ws_reply io ws (WsOk (ev_id e) True ''authenticated'')
                         (st\<lparr>rn_connections := map (\<lambda>d. if cn_id d = cn_id c then d\<lparr>cn_principal := Some key\<rparr> else d)
                           (rn_connections st)\<rparr>)))))"

definition event_id_from_frame :: "json list \<Rightarrow> string" where
  "event_id_from_frame frame =
     (case Option.bind (json_get (frame_at frame 1) ''id'') json_as_str of None \<Rightarrow> [] | Some i \<Rightarrow> i)"

definition handle_web_socket_event ::
  "js_lib \<Rightarrow> node_env \<Rightarrow> node_io \<Rightarrow> nat \<Rightarrow> json list \<Rightarrow> relay_node \<Rightarrow> relay_node" where
  "handle_web_socket_event J env io ws frame st =
     (case event_from_unknown J (frame_at frame 1) of
        Inl message \<Rightarrow> ws_reply io ws (WsOk (event_id_from_frame frame) False message) st
      | Inr e \<Rightarrow>
          if auth_required env \<and> ws_principal st ws = None
          then ws_reply io ws (WsOk (ev_id e) False ''authentication_required'') st
          else (let caller = (if auth_required env then ws_principal st ws else None) in
            case Option.bind caller (\<lambda>c. node_authorize_direct c e) of
              Some code \<Rightarrow> ws_reply io ws (WsOk (ev_id e) False (denial_code_str code)) st
            | None \<Rightarrow>
                (case apply_event J env io e None caller st of
                   (st, Inr w) \<Rightarrow> ws_reply io ws (WsOk (nw_event_id w) (nw_accepted w) (nw_message w)) st
                 | (st, Inl _) \<Rightarrow> ws_reply io ws (WsOk (event_id_from_frame frame) False ''invalid event'') st)))"

fun node_send_events :: "node_io \<Rightarrow> nat \<Rightarrow> string \<Rightarrow> event list \<Rightarrow> relay_node \<Rightarrow> relay_node" where
  "node_send_events io ws sub [] st = ws_reply io ws (WsEose sub) st"
| "node_send_events io ws sub (e # es) st =
     (case ws_send io ws (WsEvent sub e) st of
        (st, True) \<Rightarrow> node_send_events io ws sub es st
      | (st, False) \<Rightarrow> st)"

definition upsert_subscription :: "string \<Rightarrow> string \<Rightarrow> json list \<Rightarrow> relay_node \<Rightarrow> relay_node" where
  "upsert_subscription connection sub filters st =
     st\<lparr>rn_subscriptions := filter (\<lambda>s. \<not> (sb_connection s = connection \<and> sb_id s = sub)) (rn_subscriptions st)
       @ [\<lparr>sb_connection = connection, sb_id = sub, sb_filters = filters\<rparr>]\<rparr>"

definition node_req_filters :: "js_lib \<Rightarrow> json list \<Rightarrow> string + json list" where
  "node_req_filters J frame =
     and_then (filters_from_unknown J (JArray (drop 2 frame))) (\<lambda>filters.
     and_then (require (filters \<noteq> []) ''REQ requires at least one filter'') (\<lambda>_. Inr filters))"

definition handle_web_socket_req ::
  "js_lib \<Rightarrow> node_env \<Rightarrow> node_io \<Rightarrow> nat \<Rightarrow> json list \<Rightarrow> relay_node \<Rightarrow> relay_node \<times> (node_fault + unit)" where
  "handle_web_socket_req J env io ws frame st =
     (let sub = (case json_as_str (frame_at frame 1) of None \<Rightarrow> [] | Some s \<Rightarrow> s);
          closed = (\<lambda>reason. (ws_reply io ws (WsClosed sub reason) st, Inr ()))
      in if sub = [] \<or> NODE_MAX_SUBSCRIPTION_ID_LENGTH < js_length sub then closed ''invalid subscription ID''
         else (case node_req_filters J frame of
           Inl message \<Rightarrow> closed message
         | Inr filters \<Rightarrow>
             (case attachment_or_null st ws of
                None \<Rightarrow> closed ''connection state unavailable''
              | Some connection \<Rightarrow>
                  if auth_required env \<and> ws_principal st ws = None then closed ''authentication_required''
                  else if sub \<notin> set (map sb_id (subscriptions_of st connection))
                    \<and> NODE_MAX_SUBSCRIPTIONS_PER_CONNECTION \<le> length (subscriptions_of st connection)
                  then closed ''too many subscriptions''
                  else try_step (query_effective J env io filters (if auth_required env then ws_principal st ws else None)
                      (upsert_subscription connection sub filters st)) (\<lambda>st events.
                    (node_send_events io ws sub events st, Inr ())))))"

definition handle_web_socket_close :: "node_io \<Rightarrow> nat \<Rightarrow> json list \<Rightarrow> relay_node \<Rightarrow> relay_node" where
  "handle_web_socket_close io ws frame st =
     (case json_as_str (frame_at frame 1) of
        None \<Rightarrow> ws_reply io ws (WsNotice ''invalid CLOSE'') st
      | Some sub \<Rightarrow>
          (case attachment_or_null st ws of
             None \<Rightarrow> st
           | Some connection \<Rightarrow> st\<lparr>rn_subscriptions :=
               filter (\<lambda>s. \<not> (sb_connection s = connection \<and> sb_id s = sub)) (rn_subscriptions st)\<rparr>))"

datatype ws_message = WsText string | WsBinary

definition web_socket_message ::
  "js_lib \<Rightarrow> node_env \<Rightarrow> node_io \<Rightarrow> nat \<Rightarrow> ws_message \<Rightarrow> relay_node \<Rightarrow> relay_node \<times> (node_fault + unit)" where
  "web_socket_message J env io ws message st =
     (case message of
        WsBinary \<Rightarrow> (ws_reply io ws (WsNotice ''binary messages are unsupported'') st, Inr ())
      | WsText s \<Rightarrow>
          (case j_json_parse J s of
             None \<Rightarrow> (ws_reply io ws (WsNotice ''invalid JSON'') st, Inr ())
           | Some v \<Rightarrow>
               (case json_as_array v of
                  Some (JString verb # rest) \<Rightarrow>
                    let frame = JString verb # rest in
                    if verb = ''AUTH'' then (handle_web_socket_auth J env io ws frame st, Inr ())
                    else if verb = ''EVENT'' then (handle_web_socket_event J env io ws frame st, Inr ())
                    else if verb = ''REQ'' then handle_web_socket_req J env io ws frame st
                    else if verb = ''CLOSE'' then (handle_web_socket_close io ws frame st, Inr ())
                    else (ws_reply io ws (WsNotice ''unsupported relay frame'') st, Inr ())
                | _ \<Rightarrow> (ws_reply io ws (WsNotice ''invalid relay frame'') st, Inr ()))))"

text \<open>The runtime drops a closed socket from \<open>getWebSockets\<close>; the handler deletes its rows.\<close>

definition web_socket_close :: "nat \<Rightarrow> relay_node \<Rightarrow> relay_node" where
  "web_socket_close ws st =
     (let st' = (case attachment_or_null st ws of
          None \<Rightarrow> st
        | Some connection \<Rightarrow> (delete_subscriptions connection st)\<lparr>rn_connections :=
            filter (\<lambda>c. cn_id c \<noteq> connection) (rn_connections st)\<rparr>)
      in st'\<lparr>rn_sockets := filter (\<lambda>(w, _). w \<noteq> ws) (rn_sockets st)\<rparr>)"

end
