(* ===== verification/Portable_Store.thy ===== *)
theory Portable_Store
  imports Portable_Node
begin

text \<open>
  The durable tables of the portable node. What live delivery and pulses leave alone, the
  invariant of the tables (no statement ever violates a constraint of the schema), the reducer
  of the node as an instance of \<open>effective_reducer\<close>, and its agreement with the store of the local
  relay.
\<close>

section \<open>What delivery leaves alone\<close>

definition node_frame :: "relay_node \<Rightarrow> relay_node \<Rightarrow> bool" where
  "node_frame st st' \<longleftrightarrow>
     rn_key st' = rn_key st \<and> rn_accepted st' = rn_accepted st \<and> rn_journal st' = rn_journal st
     \<and> rn_sequence st' = rn_sequence st \<and> rn_refs st' = rn_refs st \<and> rn_proofs st' = rn_proofs st
     \<and> rn_connections st' = rn_connections st \<and> rn_checkpoints st' = rn_checkpoints st
     \<and> rn_sockets st' = rn_sockets st"

named_theorems frame_intros

lemma node_frame_refl [simp, intro]: "node_frame st st"
  by (simp add: node_frame_def)

lemma node_frame_trans: "node_frame a b \<Longrightarrow> node_frame b c \<Longrightarrow> node_frame a c"
  by (simp add: node_frame_def)

lemma ws_send_frame: "ws_send io ws frame st = (st', b) \<Longrightarrow> node_frame st st'"
  by (auto simp: ws_send_def node_frame_def split: if_splits)

lemma ws_reply_frame: "node_frame st (ws_reply io ws frame st)"
  using ws_send_frame [of io ws frame st] by (simp add: ws_reply_def prod_eq_iff)

lemma delete_subscriptions_frame: "node_frame st (delete_subscriptions c st)"
  by (simp add: delete_subscriptions_def node_frame_def)

lemma send_matching_frame: "node_frame st (send_matching J io ws e rows st)"
proof (induction rows arbitrary: st)
  case (Cons row rows)
  obtain st' b where s: "ws_send io ws (WsEvent (sb_id row) e) st = (st', b)" by fastforce
  show ?case
    using Cons.IH ws_send_frame [OF s] delete_subscriptions_frame s
    by (auto split: bool.splits intro: node_frame_trans)
qed simp

lemma publish_to_frame: "publish_to J env io e sockets st = (st', r) \<Longrightarrow> node_frame st st'"
proof (induction J env io e sockets st arbitrary: st' r rule: publish_to.induct)
  case (3 J env io e ws connection sockets st)
  show ?case
  proof (cases "visible_to_socket J env st ws e")
    case (Inl f)
    then show ?thesis using "3.prems" by simp
  next
    case (Inr visible)
    let ?st = "if visible then send_matching J io ws e (subscriptions_of st connection) st else st"
    have "node_frame st ?st" by (simp add: send_matching_frame)
    moreover have "publish_to J env io e sockets ?st = (st', r)" using "3.prems" Inr by simp
    then have "node_frame ?st st'" using "3.IH" Inr by blast
    ultimately show ?thesis by (rule node_frame_trans)
  qed
qed auto

lemma publish_live_frame: "publish_live J env io e st = (st', r) \<Longrightarrow> node_frame st st'"
  unfolding publish_live_def by (rule publish_to_frame)

lemma register_pulse_frame: "node_frame st (node_register_pulse io e head st)"
  by (simp add: node_register_pulse_def node_frame_def Let_def)

lemma advance_witnessed_frame: "node_frame st (advance_witnessed head st)"
  by (auto simp: advance_witnessed_def set_maintenance_value_def node_frame_def Let_def split: option.splits)

lemma emit_pulse_frame:
  assumes "emit_pulse J env io st = (st', r)"
  shows "node_frame st st'"
  using assms unfolding emit_pulse_def
proof (cases rule: try_step_cases)
  case (failed e)
  then show ?thesis by simp
next
  case (passed s pulse)
  then have s: "s = st" by simp
  show ?thesis
  proof (cases pulse)
    case None
    then show ?thesis using passed by simp
  next
    case (Some p)
    obtain e head where p: "p = (e, head)" by fastforce
    let ?r = "node_register_pulse io e head st"
    obtain s2 r2 where live: "publish_live J env io e ?r = (s2, r2)" by fastforce
    have "node_frame st s2"
      using register_pulse_frame publish_live_frame [OF live] by (rule node_frame_trans)
    moreover have "st' = s2 \<or> st' = advance_witnessed head s2"
      using passed(2) Some p live s by (cases r2) auto
    ultimately show ?thesis using advance_witnessed_frame node_frame_trans by blast
  qed
qed

lemma record_response_frame:
  "node_record_beacon_response J env io e st = (st', b) \<Longrightarrow> node_frame st st'"
  by (auto simp: node_record_beacon_response_def node_frame_def split: option.splits)

lemma apply_beacon_response_frame:
  assumes "apply_beacon_response J env io e caller st = (st', r)"
  shows "node_frame st st'"
  using assms unfolding apply_beacon_response_def
proof (cases rule: try_step_cases)
  case (failed e)
  then show ?thesis by simp
next
  case (passed s permitted)
  then have s: "s = st" by simp
  obtain s2 b where rec: "node_record_beacon_response J env io e st = (s2, b)" by fastforce
  obtain s3 r3 where live: "publish_live J env io e s2 = (s3, r3)" by fastforce
  have "st' = st \<or> st' = s2 \<or> st' = s3"
    using passed(2) rec live s by (cases permitted; cases b; cases r3) auto
  then show ?thesis
    using record_response_frame [OF rec] publish_live_frame [OF live] node_frame_trans by blast
qed

section \<open>The invariant of the tables\<close>

abbreviation row_id :: "journal_row \<Rightarrow> event_id" where
  "row_id r \<equiv> ev_id (jr_event r)"

definition node_ok :: "js_lib \<Rightarrow> relay_node \<Rightarrow> bool" where
  "node_ok J st \<longleftrightarrow>
     map jr_sequence (rn_journal st) = [1..<Suc (rn_sequence st)]
     \<and> distinct (map row_id (rn_journal st))
     \<and> row_id ` set (rn_journal st) \<subseteq> dom (map_of (rn_accepted st))
     \<and> (\<forall>r \<in> set (rn_journal st). jr_key r = node_replacement_key (jr_event r)
          \<and> j_verify_event J (jr_event r) \<and> \<not> is_ephemeral_node_kind (ev_kind (jr_event r)))
     \<and> (\<forall>r \<in> set (rn_journal st). \<forall>r' \<in> set (rn_journal st).
          jr_effective r \<longrightarrow> jr_effective r' \<longrightarrow> jr_key r \<noteq> None \<longrightarrow> jr_key r = jr_key r' \<longrightarrow> r = r')"

lemma node_ok_frame: "node_frame st st' \<Longrightarrow> node_ok J st \<Longrightarrow> node_ok J st'"
  unfolding node_frame_def node_ok_def by (elim conjE) (simp only: simp_thms)

lemma node_ok_empty: "node_ok J node_empty"
  by (simp add: node_ok_def node_empty_def)

text \<open>The node after the transaction that stores an event.\<close>

definition stored_node :: "event \<Rightarrow> source_id option \<Rightarrow> relay_node \<Rightarrow> relay_node" where
  "stored_node e source st =
     (let key = node_replacement_key e;
          cleared = map (\<lambda>r. if key \<noteq> None \<and> jr_key r = key \<and> jr_effective r then r\<lparr>jr_effective := False\<rparr> else r) (rn_journal st)
      in index_artifact_refs e (st\<lparr>rn_accepted := (ev_id e, ''stored'') # rn_accepted st,
           rn_journal := cleared @ [\<lparr>jr_sequence = Suc (rn_sequence st), jr_event = e, jr_key = key,
              jr_effective = True, jr_source = source\<rparr>],
           rn_sequence := Suc (rn_sequence st)\<rparr>))"

lemma stored_node_simps [simp]:
  "rn_accepted (stored_node e source st) = (ev_id e, ''stored'') # rn_accepted st"
  "rn_sequence (stored_node e source st) = Suc (rn_sequence st)"
  "rn_proofs (stored_node e source st) = rn_proofs st"
  "rn_key (stored_node e source st) = rn_key st"
  "rn_connections (stored_node e source st) = rn_connections st"
  "rn_sockets (stored_node e source st) = rn_sockets st"
  "rn_checkpoints (stored_node e source st) = rn_checkpoints st"
  by (simp_all add: stored_node_def index_artifact_refs_def Let_def)

lemma stored_node_journal:
  "rn_journal (stored_node e source st) =
     map (\<lambda>r. if node_replacement_key e \<noteq> None \<and> jr_key r = node_replacement_key e \<and> jr_effective r
        then r\<lparr>jr_effective := False\<rparr> else r) (rn_journal st)
     @ [\<lparr>jr_sequence = Suc (rn_sequence st), jr_event = e, jr_key = node_replacement_key e, jr_effective = True, jr_source = source\<rparr>]"
  by (simp add: stored_node_def index_artifact_refs_def Let_def)

text \<open>No statement of the transaction violates a constraint.\<close>

lemma store_transaction_ok:
  assumes ok: "node_ok J st" and new: "map_of (rn_accepted st) (ev_id e) = None"
  shows "transaction (store_transaction e source) st = (stored_node e source st, Inr ())"
proof -
  let ?key = "node_replacement_key e"
  let ?st1 = "st\<lparr>rn_accepted := (ev_id e, ''stored'') # rn_accepted st\<rparr>"
  let ?st2 = "clear_effective ?key ?st1"
  have "\<forall>r \<in> set (rn_journal st). row_id r \<noteq> ev_id e" using ok new by (force simp: node_ok_def)
  then have a: "\<not> list_ex (\<lambda>r. row_id r = ev_id e) (rn_journal ?st2)"
    by (cases ?key) (auto simp: clear_effective_def list_ex_iff split: if_splits)
  have b: "?key = None \<or> \<not> list_ex (\<lambda>r. jr_key r = ?key \<and> jr_effective r) (rn_journal ?st2)"
    by (cases ?key) (auto simp: clear_effective_def list_ex_iff)
  have c: "rn_sequence ?st2 = rn_sequence st" by (cases ?key) (simp_all add: clear_effective_def)
  have "store_transaction e source st = Inr (stored_node e source st)"
    using new a b c
    by (cases ?key) (simp_all add: store_transaction_def insert_accepted_def insert_journal_def stored_node_def
        clear_effective_def Let_def cong: if_cong)
  then show ?thesis by (simp add: transaction_def)
qed

lemma cleared_effective:
  assumes "r \<in> set (map (\<lambda>r. if key \<noteq> None \<and> jr_key r = key \<and> jr_effective r then r\<lparr>jr_effective := False\<rparr> else r) rows)"
    and "jr_effective r"
  shows "r \<in> set rows" "key \<noteq> None \<Longrightarrow> jr_key r \<noteq> key"
proof -
  from assms(1) obtain x where x: "x \<in> set rows"
    "r = (if key \<noteq> None \<and> jr_key x = key \<and> jr_effective x then x\<lparr>jr_effective := False\<rparr> else x)" by auto
  with assms(2) have "r = x \<and> \<not> (key \<noteq> None \<and> jr_key x = key \<and> jr_effective x)"
    by (cases "key \<noteq> None \<and> jr_key x = key \<and> jr_effective x") auto
  with x(1) assms(2) show "r \<in> set rows" "key \<noteq> None \<Longrightarrow> jr_key r \<noteq> key" by auto
qed

lemma cleared_same:
  assumes "r \<in> set (map (\<lambda>r. if P r then r\<lparr>jr_effective := False\<rparr> else r) rows)"
  obtains x where "x \<in> set rows" "jr_key r = jr_key x" "jr_event r = jr_event x" "jr_sequence r = jr_sequence x" "jr_source r = jr_source x"
  using assms by (auto split: if_splits)

lemma cleared_rows:
  "map jr_sequence (map (\<lambda>r. if P r then r\<lparr>jr_effective := False\<rparr> else r) rows) = map jr_sequence rows"
  "map jr_event (map (\<lambda>r. if P r then r\<lparr>jr_effective := False\<rparr> else r) rows) = map jr_event rows"
  "map row_id (map (\<lambda>r. if P r then r\<lparr>jr_effective := False\<rparr> else r) rows) = map row_id rows"
  by (simp_all add: comp_def if_distrib cong: if_cong)

lemma stored_node_ok:
  assumes ok: "node_ok J st" and new: "map_of (rn_accepted st) (ev_id e) = None"
    and "j_verify_event J e" "\<not> is_ephemeral_node_kind (ev_kind e)"
  shows "node_ok J (stored_node e source st)"
proof -
  let ?key = "node_replacement_key e"
  let ?g = "\<lambda>r. if ?key \<noteq> None \<and> jr_key r = ?key \<and> jr_effective r then r\<lparr>jr_effective := False\<rparr> else r"
  have id: "\<forall>r \<in> set (rn_journal st). row_id r \<noteq> ev_id e" using ok new by (force simp: node_ok_def)
  have uniq: "r = r'" if "r \<in> set (rn_journal st)" "r' \<in> set (rn_journal st)"
      "jr_effective r" "jr_effective r'" "jr_key r \<noteq> None" "jr_key r = jr_key r'" for r r'
    using that ok unfolding node_ok_def by blast
  note u = uniq [OF cleared_effective(1) cleared_effective(1)] and n = cleared_effective(2)
  have "map jr_sequence (rn_journal (stored_node e source st)) = [1..<Suc (Suc (rn_sequence st))]"
    unfolding stored_node_journal map_append cleared_rows using ok by (simp add: node_ok_def)
  moreover have "distinct (map row_id (rn_journal (stored_node e source st)))"
    unfolding stored_node_journal map_append cleared_rows using ok id by (auto simp: node_ok_def)
  moreover have "row_id ` set (rn_journal (stored_node e source st)) \<subseteq> dom (map_of (rn_accepted (stored_node e source st)))"
    unfolding stored_node_journal set_map [symmetric] map_append cleared_rows using ok by (auto simp: node_ok_def)
  moreover have "\<forall>r \<in> set (rn_journal (stored_node e source st)). jr_key r = node_replacement_key (jr_event r)
      \<and> j_verify_event J (jr_event r) \<and> \<not> is_ephemeral_node_kind (ev_kind (jr_event r))"
  proof
    fix r assume "r \<in> set (rn_journal (stored_node e source st))"
    then consider "r \<in> set (map ?g (rn_journal st))" | "jr_event r = e" "jr_key r = ?key"
      unfolding stored_node_journal set_append by auto
    then show "jr_key r = node_replacement_key (jr_event r)
      \<and> j_verify_event J (jr_event r) \<and> \<not> is_ephemeral_node_kind (ev_kind (jr_event r))"
    proof cases
      case 1
      then obtain x where "x \<in> set (rn_journal st)" "jr_key r = jr_key x" "jr_event r = jr_event x"
        by (rule cleared_same)
      with ok show ?thesis by (simp add: node_ok_def)
    qed (use assms(3,4) in simp)
  qed
  moreover have "\<forall>r \<in> set (rn_journal (stored_node e source st)). \<forall>r' \<in> set (rn_journal (stored_node e source st)).
      jr_effective r \<longrightarrow> jr_effective r' \<longrightarrow> jr_key r \<noteq> None \<longrightarrow> jr_key r = jr_key r' \<longrightarrow> r = r'"
  proof (intro ballI impI)
    fix r r'
    assume m: "r \<in> set (rn_journal (stored_node e source st))" "r' \<in> set (rn_journal (stored_node e source st))"
      and h: "jr_effective r" "jr_effective r'" "jr_key r \<noteq> None" "jr_key r = jr_key r'"
    let ?new = "\<lparr>jr_sequence = Suc (rn_sequence st), jr_event = e, jr_key = ?key, jr_effective = True, jr_source = source\<rparr>"
    have m': "r \<in> set (map ?g (rn_journal st)) \<or> r = ?new" "r' \<in> set (map ?g (rn_journal st)) \<or> r' = ?new"
      using m unfolding stored_node_journal set_append by auto
    consider "r = ?new" "r' = ?new" | "r = ?new" "r' \<in> set (map ?g (rn_journal st))"
      | "r \<in> set (map ?g (rn_journal st))" "r' = ?new"
      | "r \<in> set (map ?g (rn_journal st))" "r' \<in> set (map ?g (rn_journal st))" using m' by blast
    then show "r = r'"
    proof cases
      case 1
      then show ?thesis by simp
    next
      case 2
      then show ?thesis using n [OF 2(2) h(2)] h(3,4) by simp
    next
      case 3
      then show ?thesis using n [OF 3(1) h(1)] h(3,4) by simp
    next
      case 4
      then show ?thesis using u [OF 4(1) h(1) 4(2) h(2) h] by blast
    qed
  qed
  ultimately show ?thesis by (simp add: node_ok_def)
qed

section \<open>How an event is applied\<close>

text \<open>The exceptions of reading declarations and signing a pulse; none comes from the tables.\<close>

definition node_quiet :: "node_fault \<Rightarrow> bool" where
  "node_quiet f \<longleftrightarrow> f = Thrown SigningFault \<or> (\<exists>m. f = Thrown (MalformedHead m))"

lemma owner_declarations_fault: "owner_declarations J env st = Inl f \<Longrightarrow> node_quiet f"
  by (cases "evaluate_declarations J (declaration_head_events J st) (env_text (nv_owner env)) (env_text (nv_label env))")
    (auto simp: owner_declarations_def node_quiet_def Let_def split: if_splits)

lemma resolved_faults:
  "resolved_peers J env st = Inl f \<Longrightarrow> node_quiet f"
  "resolved_readers J env st = Inl f \<Longrightarrow> node_quiet f"
  "resolved_streams J env st = Inl f \<Longrightarrow> node_quiet f"
  by (cases "owner_declarations J env st"; simp add: resolved_peers_def resolved_readers_def resolved_streams_def
      owner_declarations_fault)+

lemma pulse_visible_fault: "node_pulse_visible_to J env st reader = Inl f \<Longrightarrow> node_quiet f"
  by (cases "resolved_peers J env st"; cases "resolved_readers J env st")
    (auto simp: node_pulse_visible_to_def resolved_faults split: if_splits option.splits)

lemma visible_to_socket_fault: "visible_to_socket J env st ws e = Inl f \<Longrightarrow> node_quiet f"
  by (auto simp: visible_to_socket_def dest: pulse_visible_fault split: if_splits option.splits)

lemma publish_live_fault: "publish_live J env io e st = (st', Inl f) \<Longrightarrow> node_quiet f"
proof -
  have "publish_to J env io e sockets st = (st', Inl f) \<Longrightarrow> node_quiet f" for sockets
  proof (induction J env io e sockets st rule: publish_to.induct)
    case (3 J env io e ws connection sockets st)
    then show ?case
      by (cases "visible_to_socket J env st ws e") (auto dest: visible_to_socket_fault)
  qed auto
  then show "publish_live J env io e st = (st', Inl f) \<Longrightarrow> node_quiet f" by (simp add: publish_live_def)
qed

lemma current_pulse_fault:
  assumes "node_current_pulse J env io st = Inl f"
  shows "node_quiet f"
proof -
  obtain secret where s: "witness_secret_from_env (nv_secret env) = Some secret"
    using assms by (cases "witness_secret_from_env (nv_secret env)") (auto simp: node_current_pulse_def)
  show ?thesis
  proof (cases "owner_declarations J env st")
    case (Inl e)
    then show ?thesis using assms s owner_declarations_fault [OF Inl] by (simp add: node_current_pulse_def Let_def)
  next
    case (Inr d)
    then have "f = Thrown SigningFault"
      using assms s by (auto simp: node_current_pulse_def Let_def ok_or_def split: option.splits)
    then show ?thesis by (simp add: node_quiet_def)
  qed
qed

lemma emit_pulse_fault: "emit_pulse J env io st = (st', Inl f) \<Longrightarrow> node_quiet f"
  unfolding emit_pulse_def
  by (erule try_step_cases)
    (auto dest: current_pulse_fault publish_live_fault split: option.splits elim!: try_step_cases)

lemma apply_beacon_response_fault:
  "apply_beacon_response J env io e caller st = (st', Inl f) \<Longrightarrow> node_quiet f"
  unfolding apply_beacon_response_def
  by (erule try_step_cases)
    (auto dest: pulse_visible_fault publish_live_fault split: if_splits prod.splits bool.splits elim!: try_step_cases)

lemma response_kind_ephemeral: "is_ephemeral_node_kind KIND_BEACON_RESPONSE"
  by (simp add: is_ephemeral_node_kind_def kind_defs)

text \<open>Every way an event can be applied to a node whose tables are right.\<close>

lemma apply_event_cases:
  assumes ok: "node_ok J st" and run: "apply_event J env io e source caller st = (st', r)"
  obtains (invalid) "\<not> j_verify_event J e" "st' = st" "r = Inr (wrote e False ''invalid'')"
  | (known) "j_verify_event J e" "map_of (rn_accepted st) (ev_id e) \<noteq> None" "st' = st" "r = Inr (wrote e True ''duplicate'')"
  | (passing) "j_verify_event J e" "map_of (rn_accepted st) (ev_id e) = None" "is_ephemeral_node_kind (ev_kind e)"
      "node_frame st st'" "\<forall>f. r = Inl f \<longrightarrow> node_quiet f"
  | (superseded) "j_verify_event J e" "map_of (rn_accepted st) (ev_id e) = None" "\<not> is_ephemeral_node_kind (ev_kind e)"
      "\<not> supersedes st e" "st' = st\<lparr>rn_accepted := (ev_id e, ''superseded'') # rn_accepted st\<rparr>"
      "r = Inr (wrote e True ''superseded'')"
  | (stored) "j_verify_event J e" "map_of (rn_accepted st) (ev_id e) = None" "\<not> is_ephemeral_node_kind (ev_kind e)"
      "supersedes st e" "node_frame (stored_node e source st) st'"
      "r = Inr (wrote e True ''stored'') \<or> (\<exists>f. r = Inl f \<and> node_quiet f)"
proof -
  consider (i) "\<not> j_verify_event J e" | (k) "j_verify_event J e" "map_of (rn_accepted st) (ev_id e) \<noteq> None"
    | (b) "j_verify_event J e" "map_of (rn_accepted st) (ev_id e) = None" "ev_kind e = KIND_BEACON_RESPONSE"
    | (p) "j_verify_event J e" "map_of (rn_accepted st) (ev_id e) = None" "ev_kind e \<noteq> KIND_BEACON_RESPONSE" "is_ephemeral_node_kind (ev_kind e)"
    | (s) "j_verify_event J e" "map_of (rn_accepted st) (ev_id e) = None" "ev_kind e \<noteq> KIND_BEACON_RESPONSE" "\<not> is_ephemeral_node_kind (ev_kind e)"
    by blast
  then show thesis
  proof cases
    case i
    then have "st' = st" "r = Inr (wrote e False ''invalid'')" using run by (simp_all add: apply_event_def)
    with i show thesis by (rule invalid)
  next
    case k
    then have "st' = st" "r = Inr (wrote e True ''duplicate'')" using run by (simp_all add: apply_event_def)
    with k show thesis by (rule known)
  next
    case b
    then have a: "apply_beacon_response J env io e caller st = (st', r)" using run by (simp add: apply_event_def)
    have "is_ephemeral_node_kind (ev_kind e)" using b(3) response_kind_ephemeral by simp
    moreover have "\<forall>f. r = Inl f \<longrightarrow> node_quiet f" using a apply_beacon_response_fault by blast
    ultimately show thesis using passing [OF b(1,2)] apply_beacon_response_frame [OF a] by blast
  next
    case p
    then have a: "try_step (publish_live J env io e st) (\<lambda>st _. (st, Inr (wrote e True ''ephemeral''))) = (st', r)"
      using run by (simp add: apply_event_def)
    obtain s1 r1 where live: "publish_live J env io e st = (s1, r1)" by fastforce
    have "st' = s1 \<and> (\<forall>f. r = Inl f \<longrightarrow> r1 = Inl f)" using a live by (cases r1) auto
    then show thesis
      using passing [OF p(1,2,4)] publish_live_frame [OF live] publish_live_fault live by blast
  next
    case s
    show thesis
    proof (cases "supersedes st e")
      case False
      then have "st' = st\<lparr>rn_accepted := (ev_id e, ''superseded'') # rn_accepted st\<rparr>" "r = Inr (wrote e True ''superseded'')"
        using run s by (simp_all add: apply_event_def transaction_def insert_accepted_def)
      with s(1,2,4) False show thesis by (rule superseded)
    next
      case True
      obtain s1 r1 where live: "publish_live J env io e (stored_node e source st) = (s1, r1)" by fastforce
      obtain s2 r2 where emit: "emit_pulse J env io s1 = (s2, r2)" by fastforce
      have a: "try_step (s1, r1) (\<lambda>st _. try_step (emit_pulse J env io st) (\<lambda>st _. (st, Inr (wrote e True ''stored'')))) = (st', r)"
        using run s True store_transaction_ok [OF ok s(2)] live by (simp add: apply_event_def)
      have f1: "node_frame (stored_node e source st) s1" using live by (rule publish_live_frame)
      then have f2: "node_frame (stored_node e source st) s2" using emit_pulse_frame [OF emit] node_frame_trans by blast
      show thesis
      proof (cases r1)
        case (Inl f)
        then have "st' = s1" "r = Inl f" using a by auto
        with f1 Inl publish_live_fault live show thesis by (intro stored [OF s(1,2,4) True]) auto
      next
        case (Inr u)
        have "st' = s2" "r = Inr (wrote e True ''stored'') \<or> (\<exists>f. r = Inl f \<and> r2 = Inl f)"
          using a Inr emit by (cases r2; auto)+
        with f2 emit_pulse_fault emit show thesis by (intro stored [OF s(1,2,4) True]) auto
      qed
    qed
  qed
qed

lemma apply_event_ok:
  assumes "node_ok J st" "apply_event J env io e source caller st = (st', r)"
  shows "node_ok J st'"
  using assms
proof (cases rule: apply_event_cases)
  case stored
  then show ?thesis using stored_node_ok [OF assms(1)] node_ok_frame by blast
next
  case passing
  then show ?thesis using assms(1) node_ok_frame by blast
next
  case superseded
  then show ?thesis using assms(1) unfolding node_ok_def superseded(5) by auto
qed (use assms(1) in simp_all)

end
