(* ===== verification/Spec2Isabelle.thy ===== *)
theory Spec2Isabelle
  imports Websocket Replay_Protection Acp_Harness Portable_Store
begin

text \<open>
  Verification of the local relay and of the agent harness of Buzz.

  \<^bold>\<open>The program.\<close> Two programs of the repository carry its state. The relay
  (\<open>crates/buzz-local-relay\<close>, over \<open>buzz-core\<close> and \<open>buzz-auth\<close>) keeps signed Nostr events in
  an append-only NDJSON log, derives the effective history from it, answers HTTP and WebSocket
  requests under an identity policy, exchanges its journal with other relays, and witnesses its
  own state by Beacon pulses. The harness (\<open>crates/buzz-acp\<close>) queues the events addressed to an
  agent per channel, groups them into batches, renders each batch as a prompt and hands it to a
  pool of agent processes. Every operation is a HOL function on an explicit state; what the
  program reads from the outside (clocks, the outcome of a write, the iteration order of a hash
  map) is an argument, so a theorem quantifies over all of it.

  \<^bold>\<open>Theories, from the bottom.\<close>
  \<^item> \<open>Buzz_Prelude\<close>, \<open>Buzz_Text\<close>: the part of the Rust standard library the sources use: results
    (\<open>error + value\<close>), iterators, the sort of a comparator, prefixes, decimal numbers, lines.
    The locale \<open>comparator_order\<close> is the contract of a comparator; the query order of the store
    interprets it.
  \<^item> \<open>Nostr_Types\<close>, \<open>Ingest\<close>, \<open>Filters\<close>: events and tags; \<open>replacement_key\<close>,
    \<open>replacement_candidate_wins\<close>, \<open>decide_event\<close> and \<open>apply_effective_event\<close> of
    \<open>buzz-core/src/ingest.rs\<close>; the matching of \<open>filter.rs\<close> and the read gates of \<open>kind.rs\<close>. The locales
    \<open>replacement_order\<close> and \<open>effective_reducer\<close> state what a projection of the journal needs of
    the winner rule; both are interpreted on the functions of \<open>ingest.rs\<close>.
  \<^item> \<open>Event_Store\<close>: \<open>EventStore\<close> of \<open>buzz-local-relay/src/lib.rs\<close>. The record \<open>store_inner\<close> is the
    locked state (events, journal, seen ids, log file); \<open>accept\<close>, \<open>append_record\<close>, \<open>replay_log\<close>
    and \<open>open_store\<close> are its operations with every error. The lemmas show the invariant of reachable
    stores, that the effective history holds exactly the winning versions and does not depend on
    the order of arrival, that reopening the log gives the store back, that a failed submission
    changes nothing but the file, and what a torn write does to the next start.
  \<^item> \<open>Store_Query\<close>: \<open>query_with_cursors\<close> and \<open>count\<close>: results are the newest matches of each
    filter up to its limit, and a cursor resumes exactly after a page.
  \<^item> \<open>Replication\<close>: \<open>LocalReplicationSource::read_batch\<close> and its cursor text: following the
    cursors from the start exports the journal once, in order, and ends.
  \<^item> \<open>Auth_Evidence\<close>, \<open>Identity\<close>, \<open>Replay_Protection\<close>: the NIP-42 and NIP-98 verifiers of
    \<open>buzz-auth\<close>, the adapter of \<open>buzz-local-relay/src/identity.rs\<close> with its ledger of consumed proofs and its
    authorization decisions. A proof binds method, URL, time and body, the delivery policy is
    characterised exactly, and no proof is accepted twice, across restarts, pruning and torn
    ledger files.
  \<^item> \<open>Declarations\<close>: trust and artifact grants derived from owner-signed heads
    (\<open>declarations.rs\<close>): each admitted peer and each granted fetch is justified by an active head.
  \<^item> \<open>Beacon\<close>: rounds, responses, recognition, and the table of session leases, whose contract is
    the locale \<open>lease_registry\<close>, interpreted on \<open>session_enter\<close> and \<open>session_drop\<close>.
  \<^item> \<open>Local_Relay\<close>: \<open>LocalRelay\<close>, the composition of store, adapter and Beacon: \<open>submit_from\<close>, group
    projection, \<open>query_for_cursors\<close>, \<open>ingest_replication\<close>, the live channel as the list of sent
    events. Reachable relays are the inductive predicate \<open>relay_reachable\<close>.
  \<^item> \<open>Relay_Http\<close>, \<open>Websocket\<close>: the router with each handler, the artifact directory as a map from
    file names to contents, the per-connection handlers, and the service as a step relation over
    connections and requests. No handler discloses an event or changes state without the
    authentication the configuration demands; sessions are counted by leases; artifacts are
    stored under their hash.
  \<^item> \<open>Relay_Sync\<close>: the pusher \<open>bin/buzz-relay-push.rs\<close>. What its loop relies on is the locale
    \<open>replication_destination\<close>, interpreted on the router's replication handler: every run leaves a
    cursor file that covers only records the destination holds, whatever requests, responses or
    writes fail, and a run that reports success has delivered every record the stream selects.
  \<^item> \<open>Acp_Queue\<close>: \<open>EventQueue\<close> of \<open>buzz-acp/src/queue.rs\<close>, every operation that changes it. \<open>queue_run\<close> is the
    step relation of a queue together with the batches its clients hold; its invariant is that
    what is held, delivered and outstanding never exceeds what was pushed.
  \<^item> \<open>Acp_Prompt\<close>: slash commands and \<open>format_prompt\<close> down to the text of each section.
  \<^item> \<open>Acp_Harness\<close>: the pool (\<open>pool.rs\<close>), dispatch, steering, the end of a turn and the crash circuit
    (\<open>lib.rs\<close>), and the lazy start of the pool (\<open>pool_lifecycle.rs\<close>).

  \<^bold>\<open>Third-party code.\<close> Signatures, hashes, JSON and base64 codecs, bech32 and RFC 3339 text are
  fields of the records \<open>nostr_lib\<close>, \<open>wire_lib\<close> and \<open>prompt_lib\<close>; what a theorem needs of them is a
  named hypothesis (for example that printing and parsing an event are inverse), and its witness
  instantiates the record with concrete functions.

  \<^bold>\<open>Bounds and termination.\<close> \<open>push_loop\<close> takes fuel, one unit per page; a fuel above the
  number of journal records is shown to be enough. Other loops over collections are structural;
  \<open>strip_mentions\<close> terminates because each round shortens the text, \<open>dispatch_pending\<close> because
  each round claims an idle agent, \<open>trim_back\<close> because it shortens the queue. Sequence numbers and
  timestamps of 64 bits are natural numbers with the saturating or wrapping addition of the
  source written out; instants of the harness are nanoseconds. The random factor of a delay is
  computed in exact rationals instead of binary floating point.

  \<^bold>\<open>Not modelled.\<close> The scheduling of tokio tasks: the operations of one lock are a sequence, and
  the interleavings are sequences of steps. \<open>run_prompt_task\<close>, \<open>acp.rs\<close> and \<open>relay.rs\<close> of the harness
  exchange JSON with an agent subprocess and a remote relay; \<open>config.rs\<close> and \<open>filter.rs\<close> parse arguments and
  user expressions with external crates. The other command line programs, the agent runtime, the SDK,
  personas, pairing and git helpers share no state with the two modelled programs. Log and
  telemetry statements are left out throughout.
\<close>

end
